(* ===== verification/Prelude.thy ===== *)
theory Prelude
  imports Main "HOL-Library.Word" "HOL-Library.List_Lexorder" "HOL-Library.Product_Lexorder"
    "HOL-Library.Char_ord" "HOL-Library.Code_Target_Nat"
begin

text \<open>
  Shared ground of the development: the fixed-width integers of the Rust code, its saturating and
  checked arithmetic, big-endian byte strings, panics as values, and the sequencing of computations
  that may panic or fail.

  Integers keep their width (\<open>u8\<close> \<dots> \<open>u64\<close> are words). \<open>usize\<close> is a natural number together with
  the bound of a 64-bit target, because it only counts bytes and elements. A Rust panic
  (\<open>expect\<close>, \<open>unreachable!\<close>, arithmetic overflow, slice indexing) is the left summand of a sum;
  an \<open>Err\<close> of the code is the left summand of a sum over the error type of the function.
\<close>

section \<open>Integer types\<close>

type_synonym u8 = "8 word"
type_synonym u16 = "16 word"
type_synonym u32 = "32 word"
type_synonym u64 = "64 word"
type_synonym usize = nat
type_synonym bytes = "8 word list"

named_theorems machine_defs \<open>definitions of the machine arithmetic\<close>
named_theorems res_simps \<open>inversion of computations that may panic or fail\<close>

definition USIZE_MAX :: usize where
  "USIZE_MAX = 2 ^ 64 - 1"

definition usize_add :: "usize \<Rightarrow> usize \<Rightarrow> usize" where
  [machine_defs]: "usize_add a b = min (a + b) USIZE_MAX"

definition usize_mul :: "usize \<Rightarrow> usize \<Rightarrow> usize" where
  [machine_defs]: "usize_mul a b = min (a * b) USIZE_MAX"

text \<open>Truncating subtraction of \<open>nat\<close> is exactly \<open>usize::saturating_sub\<close>.\<close>

definition usize_sub :: "usize \<Rightarrow> usize \<Rightarrow> usize" where
  [machine_defs]: "usize_sub a b = a - b"

definition sat_add :: "'a::len word \<Rightarrow> 'a word \<Rightarrow> 'a word" where
  [machine_defs]: "sat_add a b = (if unat a + unat b < 2 ^ LENGTH('a) then a + b else - 1)"

definition sat_sub :: "'a::len word \<Rightarrow> 'a word \<Rightarrow> 'a word" where
  [machine_defs]: "sat_sub a b = (if b \<le> a then a - b else 0)"

definition sat_mul :: "'a::len word \<Rightarrow> 'a word \<Rightarrow> 'a word" where
  [machine_defs]: "sat_mul a b = (if unat a * unat b < 2 ^ LENGTH('a) then a * b else - 1)"

definition checked_add :: "'a::len word \<Rightarrow> 'a word \<Rightarrow> 'a word option" where
  [machine_defs]: "checked_add a b = (if unat a + unat b < 2 ^ LENGTH('a) then Some (a + b) else None)"

lemma unat_lt2p: "unat (x :: 'a::len word) < 2 ^ LENGTH('a)"
  by (rule unsigned_less)

lemma unat_le_max: "unat (x :: 'a::len word) \<le> 2 ^ LENGTH('a) - 1"
  using unat_lt2p [of x] by linarith

lemma unat_max_word: "unat (- 1 :: 'a::len word) = 2 ^ LENGTH('a) - 1"
  by (simp add: unsigned_minus_1_eq_mask mask_eq_exp_minus_1)

lemma unat_sat_add: "unat (sat_add a b) = min (unat a + unat b) (2 ^ LENGTH('a) - 1)"
  for a b :: "'a::len word"
  by (auto simp: sat_add_def unat_word_ariths unat_max_word)

lemma unat_sat_sub: "unat (sat_sub a b) = unat a - unat b"
  by (auto simp: sat_sub_def unat_sub word_le_nat_alt)

lemma unat_sat_mul: "unat (sat_mul a b) = min (unat a * unat b) (2 ^ LENGTH('a) - 1)"
  for a b :: "'a::len word"
  by (auto simp: sat_mul_def unat_word_ariths unat_max_word)

lemma sat_add_ge1: "a \<le> sat_add a b"
  using unat_le_max [of a] by (simp add: word_le_nat_alt unat_sat_add)

lemma sat_add_zero [simp]: "sat_add 0 b = b" "sat_add a 0 = a"
  by (simp_all add: sat_add_def)

lemma sat_add_mono: "a \<le> a' \<Longrightarrow> sat_add a b \<le> sat_add a' b"
  by (auto simp: word_le_nat_alt unat_sat_add)

lemma checked_add_Some: "checked_add a b = Some c \<Longrightarrow> unat c = unat a + unat b"
  by (auto simp: checked_add_def unat_word_ariths split: if_splits)

lemma checked_add_one_gt: "checked_add a 1 = Some c \<Longrightarrow> a < c"
  for a :: "'a::len word"
  using checked_add_Some [of a 1 c] by (simp add: word_less_nat_alt)

lemma checked_add_one: "a \<noteq> - 1 \<Longrightarrow> checked_add a 1 = Some (a + 1)"
  for a :: "'a::len word"
proof -
  assume "a \<noteq> - 1"
  then have "unat a \<noteq> 2 ^ LENGTH('a) - 1"
    by (metis unat_max_word unsigned_word_eqI)
  then have "unat a + 1 < 2 ^ LENGTH('a)"
    using unat_lt2p [of a] by linarith
  then show ?thesis by (simp add: checked_add_def)
qed

lemma word_less_succ: "a \<noteq> - 1 \<Longrightarrow> a < a + 1"
  for a :: "'a::len word"
  using checked_add_one checked_add_one_gt by blast

lemma checked_add_one_max: "checked_add (- 1) (1 :: 'a::len word) = None"
  by (simp add: checked_add_def unat_max_word)

section \<open>Big-endian byte strings\<close>

fun be_bytes :: "nat \<Rightarrow> nat \<Rightarrow> bytes" where
  "be_bytes 0 x = []"
| "be_bytes (Suc n) x = be_bytes n (x div 256) @ [of_nat (x mod 256)]"

definition be_nat :: "bytes \<Rightarrow> nat" where
  "be_nat bs = foldl (\<lambda>acc b. acc * 256 + unat b) 0 bs"

lemma be_nat_Nil [simp]: "be_nat [] = 0"
  by (simp add: be_nat_def)

lemma be_nat_snoc [simp]: "be_nat (bs @ [b]) = be_nat bs * 256 + unat b"
  by (simp add: be_nat_def)

lemma be_nat_Cons: "be_nat (b # bs) = unat b * 256 ^ length bs + be_nat bs"
  by (induction bs rule: rev_induct) (simp_all add: algebra_simps flip: append_Cons, simp add: be_nat_def)

lemma length_be_bytes [simp]: "length (be_bytes n x) = n"
  by (induction n arbitrary: x) auto

lemma unat_of_nat_byte: "unat (of_nat (x mod 256) :: u8) = x mod 256"
  by (simp add: unat_of_nat)

lemma be_nat_be_bytes: "be_nat (be_bytes n x) = x mod 256 ^ n"
proof (induction n arbitrary: x)
  case (Suc n)
  have "be_nat (be_bytes (Suc n) x) = (x div 256) mod 256 ^ n * 256 + x mod 256"
    by (simp add: Suc unat_of_nat_byte)
  also have "\<dots> = x mod 256 ^ Suc n"
    by (simp add: mod_mult2_eq mult.commute)
  finally show ?case .
qed simp

lemma be_nat_less: "be_nat bs < 256 ^ length bs"
proof (induction bs rule: rev_induct)
  case (snoc b bs)
  have "unat b < 256" using unat_lt2p [of b] by simp
  with snoc show ?case by simp
qed simp

lemma be_bytes_be_nat [simp]: "be_bytes (length bs) (be_nat bs) = bs"
proof (induction bs rule: rev_induct)
  case (snoc b bs)
  have "unat b < 256" using unat_lt2p [of b] by simp
  with snoc show ?case by simp
qed simp

lemma be_nat_less_iff:
  "length xs = length ys \<Longrightarrow> be_nat xs < be_nat ys \<longleftrightarrow> xs < ys"
proof (induction xs ys rule: list_induct2)
  case (Cons x xs y ys)
  have bounds: "be_nat xs < 256 ^ length xs" "be_nat ys < 256 ^ length xs"
    using be_nat_less [of xs] be_nat_less [of ys] Cons.hyps by simp_all
  consider "unat x < unat y" | "unat y < unat x" | "x = y"
    using linorder_less_linear [of "unat x" "unat y"] by (metis unsigned_word_eqI)
  then show ?case
  proof cases
    case 1
    then have "(unat x + 1) * 256 ^ length xs \<le> unat y * 256 ^ length xs"
      by (intro mult_le_mono1) simp
    with 1 bounds Cons.hyps show ?thesis
      by (simp add: be_nat_Cons word_less_nat_alt)
  next
    case 2
    then have "(unat y + 1) * 256 ^ length xs \<le> unat x * 256 ^ length xs"
      by (intro mult_le_mono1) simp
    with 2 bounds Cons.hyps show ?thesis
      by (auto simp add: be_nat_Cons word_less_nat_alt)
  next
    case 3
    with Cons show ?thesis by (simp add: be_nat_Cons)
  qed
qed simp

text \<open>\<open>put_u8\<close>, \<open>put_u16\<close>, \<open>put_u32\<close>, \<open>put_u64\<close> of the \<open>bytes\<close> crate and \<open>from_be_bytes\<close> of core.\<close>

definition put_u16 :: "u16 \<Rightarrow> bytes" where "put_u16 w = be_bytes 2 (unat w)"
definition put_u32 :: "u32 \<Rightarrow> bytes" where "put_u32 w = be_bytes 4 (unat w)"
definition put_u64 :: "u64 \<Rightarrow> bytes" where "put_u64 w = be_bytes 8 (unat w)"

definition from_be :: "bytes \<Rightarrow> 'a::len word" where
  "from_be bs = of_nat (be_nat bs)"

lemma length_put [simp]:
  "length (put_u16 a) = 2" "length (put_u32 b) = 4" "length (put_u64 c) = 8"
  by (simp_all add: put_u16_def put_u32_def put_u64_def)

lemma from_be_put [simp]:
  "from_be (put_u16 a) = a" "from_be (put_u32 b) = b" "from_be (put_u64 c) = c"
  using unat_lt2p [of a] unat_lt2p [of b] unat_lt2p [of c]
  by (simp_all add: from_be_def put_u16_def put_u32_def put_u64_def be_nat_be_bytes)

lemma put_from_be:
  "length bs = 4 \<Longrightarrow> put_u32 (from_be bs) = bs"
  "length bs = 8 \<Longrightarrow> put_u64 (from_be bs) = bs"
  "length bs = 2 \<Longrightarrow> put_u16 (from_be bs) = bs"
  using be_nat_less [of bs] be_bytes_be_nat [of bs]
  by (simp_all add: from_be_def put_u16_def put_u32_def put_u64_def unat_of_nat)

section \<open>Panics and failures as values\<close>

datatype panic =
    Expect string
  | Unreachable string
  | Overflow string
  | Index_Missing string
  | Divergence string

type_synonym 'a res = "panic + 'a"

definition rbind :: "'e + 'a \<Rightarrow> ('a \<Rightarrow> 'e + 'b) \<Rightarrow> 'e + 'b" where
  "rbind m f = (case m of Inl e \<Rightarrow> Inl e | Inr a \<Rightarrow> f a)"

lemma rbind_simps [simp]: "rbind (Inl e) f = Inl e" "rbind (Inr a) f = f a"
  by (simp_all add: rbind_def)

lemma rbind_Inr_iff [res_simps]: "rbind m f = Inr b \<longleftrightarrow> (\<exists>a. m = Inr a \<and> f a = Inr b)"
  by (cases m) auto

lemma rbind_Inl_iff [res_simps]:
  "rbind m f = Inl e \<longleftrightarrow> m = Inl e \<or> (\<exists>a. m = Inr a \<and> f a = Inl e)"
  by (cases m) auto

text \<open>\<open>Option::expect\<close> and \<open>Result::map_err\<close>.\<close>

definition expect :: "string \<Rightarrow> 'a option \<Rightarrow> 'a res" where
  "expect msg x = (case x of None \<Rightarrow> Inl (Expect msg) | Some a \<Rightarrow> Inr a)"

lemma expect_simps [simp]: "expect msg (Some a) = Inr a" "expect msg None = Inl (Expect msg)"
  by (simp_all add: expect_def)

lemma expect_Inr_iff [res_simps]: "expect msg x = Inr a \<longleftrightarrow> x = Some a"
  by (cases x) auto

definition map_err :: "('e \<Rightarrow> 'f) \<Rightarrow> 'e + 'a \<Rightarrow> 'f + 'a" where
  "map_err g m = (case m of Inl e \<Rightarrow> Inl (g e) | Inr a \<Rightarrow> Inr a)"

lemma map_err_simps [simp]: "map_err g (Inl e) = Inl (g e)" "map_err g (Inr a) = Inr a"
  by (simp_all add: map_err_def)

lemma map_err_Inr_iff [res_simps]: "map_err g m = Inr a \<longleftrightarrow> m = Inr a"
  by (cases m) auto

text \<open>
  A \<open>for\<close> loop whose body threads a state and may panic, and \<open>collect::<Result<Vec<_>, _>>()\<close>,
  which stops at the first error.
\<close>

fun rfold :: "('x \<Rightarrow> 's \<Rightarrow> 'e + 's) \<Rightarrow> 'x list \<Rightarrow> 's \<Rightarrow> 'e + 's" where
  "rfold f [] s = Inr s"
| "rfold f (x # xs) s = rbind (f x s) (rfold f xs)"

fun rmap :: "('x \<Rightarrow> 'e + 'y) \<Rightarrow> 'x list \<Rightarrow> 'e + 'y list" where
  "rmap f [] = Inr []"
| "rmap f (x # xs) = rbind (f x) (\<lambda>y. rbind (rmap f xs) (\<lambda>ys. Inr (y # ys)))"

lemma rfold_append: "rfold f (xs @ ys) s = rbind (rfold f xs s) (rfold f ys)"
  by (induction xs arbitrary: s) (auto simp: rbind_def split: sum.splits)

lemma rfold_invariant:
  assumes "\<And>x s. x \<in> set xs \<Longrightarrow> P s \<Longrightarrow> \<exists>s'. f x s = Inr s' \<and> P s'" and "P s"
  shows "\<exists>s'. rfold f xs s = Inr s' \<and> P s'"
  using assms
proof (induction xs arbitrary: s)
  case (Cons x xs)
  then obtain s1 where "f x s = Inr s1" "P s1" by (meson list.set_intros(1))
  with Cons show ?case by auto
qed simp

lemma rmap_Inr:
  "(\<And>x. x \<in> set xs \<Longrightarrow> f x = Inr (g x)) \<Longrightarrow> rmap f xs = Inr (map g xs)"
  by (induction xs) auto

lemma rmap_Inr_iff:
  "rmap f xs = Inr ys \<longleftrightarrow> list_all2 (\<lambda>x y. f x = Inr y) xs ys"
  by (induction xs arbitrary: ys) (auto simp: res_simps list_all2_Cons1)

section \<open>Evaluation of words\<close>

text \<open>A numeral that fits its word needs no reduction; without this equation every comparison of
  256-bit identifiers computes a power of two.\<close>

fun num_len :: "num \<Rightarrow> nat" where
  "num_len num.One = 1"
| "num_len (num.Bit0 m) = num_len m + 1"
| "num_len (num.Bit1 m) = num_len m + 1"

lemma num_len_bound: "(numeral m :: int) < 2 ^ num_len m"
proof (induction m)
  case (Bit0 m)
  have "(numeral (num.Bit0 m) :: int) = 2 * numeral m" by (rule numeral_Bit0_eq_double)
  with Bit0 show ?case by (simp only: num_len.simps power_add power_one_right)
next
  case (Bit1 m)
  have "(numeral (num.Bit1 m) :: int) = 2 * numeral m + 1" by (rule numeral_Bit1_eq_inc_double)
  with Bit1 show ?case by (simp only: num_len.simps power_add power_one_right)
qed simp

lemma take_bit_int_short [code]:
  "take_bit n (0 :: int) = 0"
  "take_bit n (Int.Pos m) = (if num_len m \<le> n then Int.Pos m else Int.Pos m mod 2 ^ n)"
  "take_bit n (Int.Neg m) = Int.Neg m mod 2 ^ n"
proof -
  show "take_bit n (Int.Pos m) = (if num_len m \<le> n then Int.Pos m else Int.Pos m mod 2 ^ n)"
    using order.strict_trans2 [OF num_len_bound [of m] power_increasing [of "num_len m" n "2 :: int"]]
    by (simp add: take_bit_eq_mod)
qed (simp_all add: take_bit_eq_mod)

section \<open>Generic list facts\<close>

lemma sorted_wrt_less_distinct: "sorted_wrt (<) (xs :: 'a::order list) \<Longrightarrow> distinct xs"
  by (induction xs) auto

lemma sorted_wrt_less_sorted: "sorted_wrt (<) (xs :: 'a::linorder list) \<longleftrightarrow> sorted xs \<and> distinct xs"
  by (auto simp: strict_sorted_iff)

lemma strict_sorted_set_unique:
  "sorted_wrt (<) xs \<Longrightarrow> sorted_wrt (<) ys \<Longrightarrow> set xs = set ys \<Longrightarrow> xs = (ys :: 'a::linorder list)"
  by (simp add: strict_sorted_equal)

lemma sort_Nil_iff [simp]: "sort xs = [] \<longleftrightarrow> xs = []"
  by (metis length_0_conv length_sort)

lemma sort_sort [simp]: "sort (sort xs) = sort xs"
  by (simp add: sorted_sort_id)

lemma Min_iff:
  "finite A \<Longrightarrow> A \<noteq> {} \<and> Min A = x \<longleftrightarrow> x \<in> A \<and> (\<forall>y \<in> A. x \<le> (y :: 'a::linorder))"
  by (cases "A = {}") (simp_all add: Min_eq_iff)

lemma concat_map_mem: "y \<in> set (concat (map f xs)) \<longleftrightarrow> (\<exists>x \<in> set xs. y \<in> set (f x))"
  by auto

lemma map_filter_set: "set (List.map_filter f xs) = {y. \<exists>x \<in> set xs. f x = Some y}"
  by (induction xs) (auto simp: List.map_filter_simps split: option.splits)

end
