(* ===== verification/Btree.thy ===== *)
theory Btree
  imports Prelude
begin

text \<open>
  \<open>std::collections::BTreeMap\<close> and \<open>BTreeSet\<close>, as the crates use them: finite maps with a
  linearly ordered key type whose iteration order is the key order. The model of a map is its
  list of entries, strictly ascending by key; the type carries that invariant, so two maps are
  equal exactly when they have the same entries (Rust's \<open>PartialEq\<close> on \<open>BTreeMap\<close>).

  The locale \<open>ordered_map\<close> is the contract the components rely on; its interpretation \<open>bt\<close>
  discharges it for this model.
\<close>

section \<open>The contract of an ordered map\<close>

locale ordered_map =
  fixes empty :: "'m"
    and get :: "'m \<Rightarrow> 'k::linorder \<Rightarrow> 'v option"
    and insert :: "'k \<Rightarrow> 'v \<Rightarrow> 'm \<Rightarrow> 'm"
    and remove :: "'k \<Rightarrow> 'm \<Rightarrow> 'm"
    and entries :: "'m \<Rightarrow> ('k \<times> 'v) list"
  assumes get_empty: "get empty k = None"
    and get_insert: "get (insert k v m) k' = (if k' = k then Some v else get m k')"
    and get_remove: "get (remove k m) k' = (if k' = k then None else get m k')"
    and entries_sorted: "sorted_wrt (<) (map fst (entries m))"
    and entries_iff: "(k, v) \<in> set (entries m) \<longleftrightarrow> get m k = Some v"
begin

lemma keys_distinct: "distinct (map fst (entries m))"
  using sorted_wrt_less_distinct [OF entries_sorted] .

lemma keys_iff: "k \<in> set (map fst (entries m)) \<longleftrightarrow> get m k \<noteq> None"
proof -
  have "k \<in> set (map fst (entries m)) \<longleftrightarrow> (\<exists>v. (k, v) \<in> set (entries m))" by force
  then show ?thesis by (simp add: entries_iff)
qed

lemma entries_unique: "(\<And>k. get m k = get m' k) \<Longrightarrow> entries m = entries m'"
proof -
  assume eq: "\<And>k. get m k = get m' k"
  then have "set (entries m) = set (entries m')" by (auto simp: entries_iff)
  moreover have "inj_on fst (set (entries m) \<union> set (entries m'))"
    using eq by (auto simp: inj_on_def entries_iff)
  ultimately show ?thesis
    using entries_sorted [of m] entries_sorted [of m']
    by (intro map_sorted_distinct_set_unique [of fst]) (simp_all add: sorted_wrt_less_sorted)
qed

lemma length_entries: "length (entries m) = card {k. get m k \<noteq> None}"
proof -
  have "{k. get m k \<noteq> None} = set (map fst (entries m))"
    using keys_iff by blast
  then show ?thesis
    using distinct_card [OF keys_distinct [of m]] by simp
qed

lemma finite_keys: "finite {k. get m k \<noteq> None}"
proof -
  have "{k. get m k \<noteq> None} = set (map fst (entries m))"
    using keys_iff by blast
  then show ?thesis by simp
qed

lemma length_insert:
  "length (entries (insert k v m)) = (if get m k = None then Suc (length (entries m)) else length (entries m))"
proof -
  have "{k'. get (insert k v m) k' \<noteq> None} = Set.insert k {k'. get m k' \<noteq> None}"
    by (auto simp: get_insert)
  then show ?thesis
    using finite_keys [of m] by (auto simp: length_entries card_insert_if)
qed

lemma length_remove_le: "length (entries (remove k m)) \<le> length (entries m)"
  unfolding length_entries
  by (rule card_mono [OF finite_keys]) (auto simp: get_remove)

text \<open>
  Accumulating loops: \<open>for x in xs { map.entry(key(x)).and_modify(f).or_insert(d) }\<close> leaves under
  each key the fold of the elements with that key, in order.
\<close>

lemma get_accumulate:
  "get (fold (\<lambda>x m. insert (key x) (case get m (key x) of None \<Rightarrow> ini x | Some v \<Rightarrow> upd x v) m) xs m) k =
   fold (\<lambda>x acc. Some (case acc of None \<Rightarrow> ini x | Some v \<Rightarrow> upd x v)) (filter (\<lambda>x. key x = k) xs) (get m k)"
  by (induction xs arbitrary: m) (auto simp: get_insert)

lemma get_collect:
  "get (fold (\<lambda>(k, v). insert k v) kvs m) k =
    (case map_of (rev kvs) k of None \<Rightarrow> get m k | Some v \<Rightarrow> Some v)"
  by (induction kvs arbitrary: m) (auto simp: get_insert map_add_def split: option.splits)

end

section \<open>Strictly sorted association lists\<close>

fun alist_insert :: "'k::linorder \<Rightarrow> 'v \<Rightarrow> ('k \<times> 'v) list \<Rightarrow> ('k \<times> 'v) list" where
  "alist_insert k v [] = [(k, v)]"
| "alist_insert k v ((k', v') # xs) =
    (if k < k' then (k, v) # (k', v') # xs
     else if k = k' then (k, v) # xs
     else (k', v') # alist_insert k v xs)"

lemma alist_insert_keys [simp]: "fst ` set (alist_insert k v xs) = insert k (fst ` set xs)"
  by (induction k v xs rule: alist_insert.induct) auto

lemma alist_insert_sorted:
  "sorted_wrt (<) (map fst xs) \<Longrightarrow> sorted_wrt (<) (map fst (alist_insert k v xs))"
  by (induction k v xs rule: alist_insert.induct) auto

lemma alist_insert_lookup: "map_of (alist_insert k v xs) = (map_of xs)(k \<mapsto> v)"
  by (induction k v xs rule: alist_insert.induct) (auto simp: fun_eq_iff)

lemma filter_key_sorted:
  "sorted_wrt (<) (map fst xs) \<Longrightarrow> sorted_wrt (<) (map fst (filter P xs))"
  by (induction xs) auto

lemma filter_key_lookup:
  "distinct (map fst xs) \<Longrightarrow>
   map_of (filter (\<lambda>(k, v). P k v) xs) k =
     (case map_of xs k of None \<Rightarrow> None | Some v \<Rightarrow> if P k v then Some v else None)"
proof (induction xs)
  case (Cons x xs)
  then show ?case
    by (cases x) (auto split: option.splits dest: map_of_SomeD intro!: rev_image_eqI)
qed simp

section \<open>The map type\<close>

typedef (overloaded) ('k::linorder, 'v) btree =
  "{xs :: ('k \<times> 'v) list. sorted_wrt (<) (map fst xs)}"
  morphisms bt_entries Btree
  by (rule exI [of _ "[]"]) simp

setup_lifting type_definition_btree

lift_definition bt_empty :: "('k::linorder, 'v) btree" is "[]"
  by simp

lift_definition bt_insert :: "'k::linorder \<Rightarrow> 'v \<Rightarrow> ('k, 'v) btree \<Rightarrow> ('k, 'v) btree"
  is alist_insert
  by (rule alist_insert_sorted)

lift_definition bt_get :: "('k::linorder, 'v) btree \<Rightarrow> 'k \<Rightarrow> 'v option"
  is "\<lambda>xs k. map_of xs k" .

lift_definition bt_retain :: "('k \<Rightarrow> 'v \<Rightarrow> bool) \<Rightarrow> ('k::linorder, 'v) btree \<Rightarrow> ('k, 'v) btree"
  is "\<lambda>P. filter (\<lambda>(k, v). P k v)"
  by (rule filter_key_sorted)

definition bt_remove :: "'k::linorder \<Rightarrow> ('k, 'v) btree \<Rightarrow> ('k, 'v) btree" where
  "bt_remove k m = bt_retain (\<lambda>k' _. k' \<noteq> k) m"

definition bt_keys :: "('k::linorder, 'v) btree \<Rightarrow> 'k list" where
  "bt_keys m = map fst (bt_entries m)"

definition bt_values :: "('k::linorder, 'v) btree \<Rightarrow> 'v list" where
  "bt_values m = map snd (bt_entries m)"

definition bt_len :: "('k::linorder, 'v) btree \<Rightarrow> usize" where
  "bt_len m = length (bt_entries m)"

definition bt_contains :: "('k::linorder, 'v) btree \<Rightarrow> 'k \<Rightarrow> bool" where
  "bt_contains m k = (bt_get m k \<noteq> None)"

text \<open>\<open>collect::<BTreeMap<_, _>>()\<close>: later entries replace earlier ones.\<close>

definition bt_collect :: "('k::linorder \<times> 'v) list \<Rightarrow> ('k, 'v) btree" where
  "bt_collect kvs = fold (\<lambda>(k, v). bt_insert k v) kvs bt_empty"

text \<open>\<open>map.entry(k).and_modify(f).or_insert(d)\<close>; \<open>or_default()\<close> followed by a change is the same with \<open>d\<close> changed.\<close>

definition bt_upsert :: "'k::linorder \<Rightarrow> ('v \<Rightarrow> 'v) \<Rightarrow> 'v \<Rightarrow> ('k, 'v) btree \<Rightarrow> ('k, 'v) btree" where
  "bt_upsert k f d m = bt_insert k (case bt_get m k of None \<Rightarrow> d | Some v \<Rightarrow> f v) m"

text \<open>A \<open>BTreeSet\<close> is a map into the unit type; its iteration is \<open>bt_keys\<close>.\<close>

type_synonym 'a btset = "('a, unit) btree"

definition bs_insert :: "'a::linorder \<Rightarrow> 'a btset \<Rightarrow> 'a btset" where
  "bs_insert x s = bt_insert x () s"

definition bs_of_list :: "'a::linorder list \<Rightarrow> 'a btset" where
  "bs_of_list xs = fold bs_insert xs bt_empty"

instantiation btree :: (linorder, equal) equal
begin
definition equal_btree :: "('a, 'b) btree \<Rightarrow> ('a, 'b) btree \<Rightarrow> bool" where
  "equal_btree a b = (bt_entries a = bt_entries b)"
instance by standard (simp add: equal_btree_def bt_entries_inject)
end

section \<open>Lookup and iteration\<close>

lemma bt_entries_sorted [simp]: "sorted_wrt (<) (map fst (bt_entries m))"
  by transfer simp

lemma bt_keys_sorted [simp]: "sorted_wrt (<) (bt_keys m)"
  by (simp add: bt_keys_def)

lemma bt_keys_distinct [simp]: "distinct (bt_keys m)"
  using sorted_wrt_less_distinct [OF bt_keys_sorted] .

lemma bt_entries_keys_distinct [simp]: "distinct (map fst (bt_entries m))"
  using bt_keys_distinct [of m] by (simp add: bt_keys_def)

lemma bt_get_empty [simp]: "bt_get bt_empty k = None"
  by transfer simp

lemma bt_get_insert [simp]: "bt_get (bt_insert k v m) k' = (if k' = k then Some v else bt_get m k')"
  by transfer (simp add: alist_insert_lookup)

lemma bt_get_retain [simp]:
  "bt_get (bt_retain P m) k = (case bt_get m k of None \<Rightarrow> None | Some v \<Rightarrow> if P k v then Some v else None)"
  by transfer (simp add: filter_key_lookup sorted_wrt_less_distinct)

lemma bt_get_remove [simp]: "bt_get (bt_remove k m) k' = (if k' = k then None else bt_get m k')"
  by (auto simp: bt_remove_def split: option.splits)

lemma bt_entries_empty [simp]: "bt_entries bt_empty = []"
  by transfer simp

lemma bt_entries_iff: "(k, v) \<in> set (bt_entries m) \<longleftrightarrow> bt_get m k = Some v"
  by transfer (simp add: sorted_wrt_less_distinct)

lemma bt_keys_iff: "k \<in> set (bt_keys m) \<longleftrightarrow> bt_get m k \<noteq> None"
  unfolding bt_keys_def by transfer (auto simp: map_of_eq_None_iff)

lemma bt_values_iff: "v \<in> set (bt_values m) \<longleftrightarrow> (\<exists>k. bt_get m k = Some v)"
  by (auto simp: bt_values_def image_iff simp flip: bt_entries_iff intro: rev_bexI)

interpretation bt: ordered_map bt_empty bt_get bt_insert bt_remove bt_entries
  by unfold_locales (simp_all add: bt_entries_iff)

lemma bt_eqI: "(\<And>k. bt_get m k = bt_get m' k) \<Longrightarrow> m = m'"
  using bt.entries_unique [of m m'] by (simp add: bt_entries_inject)

lemma bt_len_insert: "bt_len (bt_insert k v m) = (if bt_get m k = None then Suc (bt_len m) else bt_len m)"
  by (simp add: bt_len_def bt.length_insert)

lemma bt_len_empty [simp]: "bt_len bt_empty = 0"
  by (simp add: bt_len_def)

lemma bt_len_remove: "bt_len (bt_remove k m) \<le> bt_len m"
  by (simp add: bt_len_def bt.length_remove_le)

lemma bt_len_0_iff: "bt_len m = 0 \<longleftrightarrow> m = bt_empty"
  by (metis bt_entries_empty bt_entries_inject bt_len_def length_0_conv)

lemma bt_contains_simps [simp]:
  "\<not> bt_contains bt_empty k"
  "bt_contains (bt_insert k v m) k' \<longleftrightarrow> k' = k \<or> bt_contains m k'"
  "bt_contains (bt_remove k m) k' \<longleftrightarrow> k' \<noteq> k \<and> bt_contains m k'"
  by (auto simp: bt_contains_def)

lemma bt_contains_iff_keys: "bt_contains m k \<longleftrightarrow> k \<in> set (bt_keys m)"
  by (simp add: bt_contains_def bt_keys_iff)

lemma bt_get_upsert [simp]:
  "bt_get (bt_upsert k f d m) k' =
    (if k' = k then Some (case bt_get m k of None \<Rightarrow> d | Some v \<Rightarrow> f v) else bt_get m k')"
  by (simp add: bt_upsert_def)

lemma bt_get_collect: "bt_get (bt_collect kvs) k = map_of (rev kvs) k"
  by (simp add: bt_collect_def bt.get_collect split: option.splits)

lemma bt_get_collect_distinct:
  "distinct (map fst kvs) \<Longrightarrow> bt_get (bt_collect kvs) k = map_of kvs k"
  using map_of_inject_set [of "rev kvs" kvs]
  by (simp add: bt_get_collect flip: rev_map)

lemma bt_get_collect_functional:
  assumes "\<And>k v v'. (k, v) \<in> set kvs \<Longrightarrow> (k, v') \<in> set kvs \<Longrightarrow> v = v'"
  shows "bt_get (bt_collect kvs) k = Some v \<longleftrightarrow> (k, v) \<in> set kvs"
proof
  assume "bt_get (bt_collect kvs) k = Some v"
  then show "(k, v) \<in> set kvs" by (simp add: bt_get_collect) (use map_of_SomeD in fastforce)
next
  assume kv: "(k, v) \<in> set kvs"
  then obtain v' where "map_of (rev kvs) k = Some v'"
    by (metis map_of_eq_None_iff fst_conv image_eqI not_None_eq set_rev)
  moreover from this have "(k, v') \<in> set kvs" using map_of_SomeD by fastforce
  ultimately show "bt_get (bt_collect kvs) k = Some v" using assms [OF kv] by (simp add: bt_get_collect)
qed

lemma bt_get_collect_None: "bt_get (bt_collect kvs) k = None \<longleftrightarrow> k \<notin> fst ` set kvs"
  by (simp add: bt_get_collect map_of_eq_None_iff)

text \<open>Building a map by one pass over the entries of another.\<close>

lemma bt_get_fold_entries:
  assumes "distinct (map fst kvs)"
  shows "bt_get (fold (\<lambda>(k, v) m. case F k v of None \<Rightarrow> m | Some x \<Rightarrow> bt_insert k x m) kvs m0) k =
    (case map_of kvs k of
       None \<Rightarrow> bt_get m0 k
     | Some v \<Rightarrow> (case F k v of None \<Rightarrow> bt_get m0 k | Some x \<Rightarrow> Some x))"
  using assms
proof (induction kvs arbitrary: m0)
  case (Cons kv kvs)
  then show ?case
    by (cases kv; cases "F (fst kv) (snd kv)")
      (auto simp: map_of_eq_None_iff image_iff split: option.splits dest: map_of_SomeD)
qed simp

lemma bt_map_of_entries: "map_of (bt_entries m) k = bt_get m k"
  by transfer simp

lemma bs_insert_contains [simp]: "bt_contains (bs_insert x s) y \<longleftrightarrow> y = x \<or> bt_contains s y"
  by (simp add: bs_insert_def)

lemma bs_fold_contains: "bt_contains (fold bs_insert xs s) x \<longleftrightarrow> x \<in> set xs \<or> bt_contains s x"
  by (induction xs arbitrary: s) auto

lemma bs_of_list_contains [simp]: "bt_contains (bs_of_list xs) x \<longleftrightarrow> x \<in> set xs"
  by (simp add: bs_of_list_def bs_fold_contains)

lemma bs_of_list_keys_set [simp]: "set (bt_keys (bs_of_list xs)) = set xs"
  by (auto simp flip: bt_contains_iff_keys)

lemma bs_len: "bt_len s = card (set (bt_keys s))"
  by (metis bt_keys_def bt_keys_distinct bt_len_def distinct_card length_map)

lemma bs_of_list_len: "bt_len (bs_of_list xs) = length xs \<longleftrightarrow> distinct xs"
  by (simp add: bs_len card_distinct distinct_card) (metis card_distinct distinct_card)

lemma bs_keys_sorted_unique: "sorted_wrt (<) xs \<Longrightarrow> bt_keys (bs_of_list xs) = xs"
  by (rule strict_sorted_set_unique) simp_all

end
