(* ===== verification/Types.thy ===== *)
theory Types
  imports Btree
begin

text \<open>
  Crate \<open>mb-types\<close>: node and link identities, monotonic time, and the \<open>Component\<close> trait.

  A \<open>NodeId\<close> is an opaque array of 32 bytes compared lexicographically. The model keeps it as the
  256-bit number those bytes spell in big-endian order; \<open>from_bytes\<close> and \<open>as_bytes\<close> convert, and
  the lemmas below show that they are inverse to each other and that the derived \<open>Ord\<close> of the
  array is the order of the numbers. \<open>LinkId\<close> and \<open>MonoTime\<close> are \<open>u64\<close> newtypes.
\<close>

section \<open>Identities\<close>

type_synonym node_id = "256 word"
type_synonym link_id = u64
type_synonym mono_time = u64

definition from_bytes :: "bytes \<Rightarrow> node_id" where
  "from_bytes bs = from_be bs"

definition as_bytes :: "node_id \<Rightarrow> bytes" where
  "as_bytes n = be_bytes 32 (unat n)"

definition default_node :: node_id where
  "default_node = from_bytes (replicate 32 0)"

lemma length_as_bytes [simp]: "length (as_bytes n) = 32"
  by (simp add: as_bytes_def)

lemma from_bytes_as_bytes [simp]: "from_bytes (as_bytes n) = n"
proof -
  have "(256 :: nat) ^ 32 = 2 ^ 256" by (simp add: power_mult [symmetric, of 2 8 32])
  then show ?thesis
    using unat_lt2p [of n] by (simp add: from_bytes_def from_be_def as_bytes_def be_nat_be_bytes)
qed

lemma unat_from_bytes: "length bs = 32 \<Longrightarrow> unat (from_bytes bs) = be_nat bs"
proof -
  assume "length bs = 32"
  moreover have "(256 :: nat) ^ 32 = 2 ^ 256" by (simp add: power_mult [symmetric, of 2 8 32])
  ultimately show ?thesis
    using be_nat_less [of bs] by (simp add: from_bytes_def from_be_def unat_of_nat)
qed

lemma as_bytes_from_bytes [simp]: "length bs = 32 \<Longrightarrow> as_bytes (from_bytes bs) = bs"
  using be_bytes_be_nat [of bs] by (simp add: as_bytes_def unat_from_bytes)

lemma from_bytes_less_iff:
  "length xs = 32 \<Longrightarrow> length ys = 32 \<Longrightarrow> from_bytes xs < from_bytes ys \<longleftrightarrow> xs < ys"
  by (simp add: word_less_nat_alt unat_from_bytes be_nat_less_iff)

lemma default_node_zero [simp]: "default_node = 0"
  by (simp add: default_node_def from_bytes_def from_be_def be_nat_def numeral_eq_Suc)

section \<open>Display\<close>

definition hex_digit :: "nat \<Rightarrow> char" where
  "hex_digit n = ''0123456789abcdef'' ! n"

text \<open>The format specification \<open>{byte:02x}\<close>.\<close>

definition fmt_02x :: "u8 \<Rightarrow> string" where
  "fmt_02x b = [hex_digit (unat b div 16), hex_digit (unat b mod 16)]"

definition node_id_fmt :: "node_id \<Rightarrow> string" where
  "node_id_fmt n = concat (map fmt_02x (as_bytes n))"

lemma hex_digit_inj: "m < 16 \<Longrightarrow> n < 16 \<Longrightarrow> hex_digit m = hex_digit n \<Longrightarrow> m = n"
proof -
  assume mn: "m < 16" "n < 16" and eq: "hex_digit m = hex_digit n"
  have "distinct ''0123456789abcdef''" by simp
  then show ?thesis
    using mn eq nth_eq_iff_index_eq [of "''0123456789abcdef''" m n] by (simp add: hex_digit_def)
qed

lemma fmt_02x_inj: "fmt_02x a = fmt_02x b \<Longrightarrow> a = b"
proof -
  assume eq: "fmt_02x a = fmt_02x b"
  have bound: "unat a < 256" "unat b < 256"
    using unat_lt2p [of a] unat_lt2p [of b] by simp_all
  have "hex_digit (unat a div 16) = hex_digit (unat b div 16)"
    and "hex_digit (unat a mod 16) = hex_digit (unat b mod 16)"
    using eq by (simp_all add: fmt_02x_def)
  then have "unat a div 16 = unat b div 16" "unat a mod 16 = unat b mod 16"
    using bound by (auto intro!: hex_digit_inj)
  then have "unat a = unat b" by (metis mult_div_mod_eq)
  then show ?thesis by (rule unsigned_word_eqI)
qed

lemma length_fmt_02x [simp]: "length (fmt_02x b) = 2"
  by (simp add: fmt_02x_def)

lemma concat_fmt_inj: "concat (map fmt_02x xs) = concat (map fmt_02x ys) \<Longrightarrow> length xs = length ys \<Longrightarrow> xs = ys"
proof (induction xs arbitrary: ys)
  case (Cons x xs)
  then obtain y ys' where ys: "ys = y # ys'" by (cases ys) auto
  with Cons.prems have "fmt_02x x = fmt_02x y" "concat (map fmt_02x xs) = concat (map fmt_02x ys')"
    by (auto simp: append_eq_append_conv)
  with Cons ys show ?case by (simp add: fmt_02x_inj)
qed simp

text \<open>
  node identities survive their byte representation in both directions, the numeric order used
  for routing tie-breaks and map iteration is the derived lexicographic order of the byte arrays,
  and the display form is 64 hexadecimal digits that determine the identity.
\<close>

theorem node_id_representation:
  "from_bytes (as_bytes n) = n \<and> length (as_bytes n) = 32 \<and>
   (as_bytes m < as_bytes n \<longleftrightarrow> m < n) \<and>
   length (node_id_fmt n) = 64 \<and> (node_id_fmt m = node_id_fmt n \<longleftrightarrow> m = n)"
proof -
  have "as_bytes m < as_bytes n \<longleftrightarrow> m < n"
    using from_bytes_less_iff [of "as_bytes m" "as_bytes n"] by simp
  moreover have "length (concat (map fmt_02x bs)) = 2 * length bs" for bs
    by (induction bs) simp_all
  moreover have "node_id_fmt m = node_id_fmt n \<longleftrightarrow> m = n"
    unfolding node_id_fmt_def
    by (metis concat_fmt_inj from_bytes_as_bytes length_as_bytes)
  ultimately show ?thesis by (simp add: node_id_fmt_def)
qed

section \<open>Components\<close>

text \<open>
  The trait \<open>Component\<close>: an I/O-free machine that consumes timed events and returns actions. A run
  handles a list of timed events one after the other and concatenates the actions.
\<close>

type_synonym ('s, 'e, 'a) handler = "mono_time \<Rightarrow> 'e \<Rightarrow> 's \<Rightarrow> ('a list \<times> 's) res"

fun run_component :: "('s, 'e, 'a) handler \<Rightarrow> (mono_time \<times> 'e) list \<Rightarrow> 's \<Rightarrow> ('a list \<times> 's) res" where
  "run_component h [] s = Inr ([], s)"
| "run_component h ((now, e) # es) s =
    rbind (h now e s) (\<lambda>(as, s'). rbind (run_component h es s') (\<lambda>(bs, s''). Inr (as @ bs, s'')))"

text \<open>The state after a run all of whose events were admissible when they arrived.\<close>

fun run_admissible ::
  "('s, 'e, 'a) handler \<Rightarrow> ('s \<Rightarrow> 'e \<Rightarrow> bool) \<Rightarrow> (mono_time \<times> 'e) list \<Rightarrow> 's \<Rightarrow> 's option" where
  "run_admissible h adm [] s = Some s"
| "run_admissible h adm ((now, e) # es) s =
    (if adm s e then (case h now e s of Inl _ \<Rightarrow> None | Inr (_, s') \<Rightarrow> run_admissible h adm es s') else None)"

fun run_history ::
  "('s, 'e, 'a) handler \<Rightarrow> ('s \<Rightarrow> 'e \<Rightarrow> bool) \<Rightarrow> (mono_time \<times> 'e) list \<Rightarrow> 's \<Rightarrow> (('e \<times> 'a list) list \<times> 's) option" where
  "run_history h adm [] s = Some ([], s)"
| "run_history h adm ((now, e) # es) s =
    (if adm s e
     then (case h now e s of
             Inl _ \<Rightarrow> None
           | Inr (as, s') \<Rightarrow> (case run_history h adm es s' of None \<Rightarrow> None | Some (hist, s'') \<Rightarrow> Some ((e, as) # hist, s'')))
     else None)"

text \<open>
  The contract of a component: an invariant and an admissibility condition on inputs under which a
  step neither panics nor leaves the invariant. Every component of the program interprets it.
\<close>

locale component =
  fixes handle :: "('s, 'e, 'a) handler"
    and inv :: "'s \<Rightarrow> bool"
    and admissible :: "'s \<Rightarrow> 'e \<Rightarrow> bool"
  assumes step: "inv s \<Longrightarrow> admissible s e \<Longrightarrow> \<exists>as s'. handle now e s = Inr (as, s') \<and> inv s'"
begin

inductive reachable :: "'s \<Rightarrow> 's \<Rightarrow> bool" for s0 where
  start: "reachable s0 s0"
| next_state: "reachable s0 s \<Longrightarrow> admissible s e \<Longrightarrow> handle now e s = Inr (as, s') \<Longrightarrow> reachable s0 s'"

lemma reachable_inv: "reachable s0 s \<Longrightarrow> inv s0 \<Longrightarrow> inv s"
proof (induction rule: reachable.induct)
  case (next_state s e now as s')
  then show ?case using step [of s e now] by auto
qed simp

lemma step_inv: "inv s \<Longrightarrow> admissible s e \<Longrightarrow> handle now e s = Inr (as, s') \<Longrightarrow> inv s'"
  using step [of s e now] by auto

lemma no_panic: "inv s \<Longrightarrow> admissible s e \<Longrightarrow> handle now e s \<noteq> Inl p"
  using step [of s e now] by auto

lemma reachable_trans: "reachable s1 s2 \<Longrightarrow> reachable s0 s1 \<Longrightarrow> reachable s0 s2"
  by (induction rule: reachable.induct) (auto intro: next_state)

lemma run_admissible_reachable: "run_admissible handle admissible es s = Some s' \<Longrightarrow> reachable s s'"
proof (induction es arbitrary: s)
  case (Cons ne es)
  obtain now e where ne: "ne = (now, e)" by fastforce
  with Cons.prems obtain as s1 where s1: "admissible s e" "handle now e s = Inr (as, s1)"
    "run_admissible handle admissible es s1 = Some s'"
    by (auto split: if_splits sum.splits)
  then have "reachable s s1" using reachable.next_state [OF reachable.start] by blast
  then show ?case using reachable_trans Cons.IH [OF s1(3)] by blast
qed (simp add: start)

text \<open>A history: the events handled so far, each with the actions it caused.\<close>

inductive history :: "'s \<Rightarrow> ('e \<times> 'a list) list \<Rightarrow> 's \<Rightarrow> bool" for s0 where
  begin_history: "history s0 [] s0"
| extend: "history s0 h s \<Longrightarrow> admissible s e \<Longrightarrow> handle now e s = Inr (as, s') \<Longrightarrow> history s0 (h @ [(e, as)]) s'"

lemma history_reachable: "history s0 h s \<Longrightarrow> reachable s0 s"
  by (induction rule: history.induct) (auto intro: start next_state)

lemma run_history_history:
  "run_history handle admissible es s = Some (h, s') \<Longrightarrow> history s0 h0 s \<Longrightarrow> history s0 (h0 @ h) s'"
proof (induction es arbitrary: s h h0)
  case (Cons ne es)
  obtain now e where ne: "ne = (now, e)" by fastforce
  with Cons.prems(1) obtain as s1 h1 where s1: "admissible s e" "handle now e s = Inr (as, s1)"
    "run_history handle admissible es s1 = Some (h1, s')" "h = (e, as) # h1"
    by (auto split: if_splits sum.splits option.splits)
  show ?case using Cons.IH [OF s1(3) history.extend [OF Cons.prems(2) s1(1,2)]] s1(4) by simp
qed simp

text \<open>A budget that each step spends no faster than its event refills bounds what a history spends.\<close>

lemma history_budget:
  fixes budget :: "'s \<Rightarrow> nat" and refill :: "'e \<Rightarrow> nat" and spend :: "'a list \<Rightarrow> nat"
  assumes "\<And>s now e as s'. inv s \<Longrightarrow> admissible s e \<Longrightarrow> handle now e s = Inr (as, s') \<Longrightarrow> budget s' + spend as \<le> budget s + refill e"
    and "history s0 h s" "inv s0"
  shows "budget s + sum_list (map (\<lambda>(_, as). spend as) h) \<le> budget s0 + sum_list (map (\<lambda>(e, _). refill e) h)"
  using assms(2,3)
proof (induction rule: history.induct)
  case (extend h s e now as s')
  have "inv s" using reachable_inv [OF history_reachable [OF extend.hyps(1)] extend.prems] .
  from assms(1) [OF this extend.hyps(2,3)] extend.IH [OF extend.prems] show ?case by simp
qed simp

text \<open>Events that are admissible in every state of the invariant run to completion.\<close>

lemma run_inv:
  assumes "inv s" and "\<And>now e s. (now, e) \<in> set es \<Longrightarrow> inv s \<Longrightarrow> admissible s e"
  shows "\<exists>as s'. run_component handle es s = Inr (as, s') \<and> inv s'"
  using assms
proof (induction es arbitrary: s)
  case (Cons ne es)
  obtain now e where ne: "ne = (now, e)" by fastforce
  with Cons.prems have "admissible s e" by auto
  with Cons.prems obtain as s1 where s1: "handle now e s = Inr (as, s1)" "inv s1"
    using step by blast
  with Cons obtain bs s2 where "run_component handle es s1 = Inr (bs, s2)" "inv s2"
    by (metis list.set_intros(2))
  with s1 ne show ?case by simp
qed simp

end

end
