(* ===== verification/Wire.thy ===== *)
theory Wire
  imports Types
begin

text \<open>
  Crate \<open>mb-wire\<close>: the byte formats of the mesh. Three codecs are layered here: the 8-byte frame
  header of a TCP link (\<open>FrameEncoder\<close>, \<open>FrameDecoder\<close>), the 88-byte header of a forwarded packet
  (\<open>ForwardPacketCodec\<close>) and the destination list in front of a multicast body
  (\<open>MulticastPayloadCodec\<close>). Each fallible function returns a sum over its Rust error type.
  The byte enums share the contract \<open>byte_enum\<close>.
\<close>

unbundle bit_operations_syntax

section \<open>Constants\<close>

definition FRAME_VERSION :: u8 where "FRAME_VERSION = 1"
definition HEADER_LEN :: usize where "HEADER_LEN = 8"
definition MAX_PAYLOAD_LEN :: usize where "MAX_PAYLOAD_LEN = 1024 * 1024"
definition FORWARD_PACKET_VERSION :: u8 where "FORWARD_PACKET_VERSION = 1"
definition FORWARD_HEADER_LEN :: usize where "FORWARD_HEADER_LEN = 88"
definition MAX_FORWARD_PAYLOAD_LEN :: usize where
  "MAX_FORWARD_PAYLOAD_LEN = MAX_PAYLOAD_LEN - FORWARD_HEADER_LEN"
definition MAX_MULTICAST_DESTINATIONS :: usize where "MAX_MULTICAST_DESTINATIONS = 64"
definition MULTICAST_COUNT_LEN :: usize where "MULTICAST_COUNT_LEN = 2"
definition NODE_ID_LEN :: usize where "NODE_ID_LEN = 32"

lemmas wire_consts =
  FRAME_VERSION_def HEADER_LEN_def MAX_PAYLOAD_LEN_def FORWARD_PACKET_VERSION_def
  FORWARD_HEADER_LEN_def MAX_FORWARD_PAYLOAD_LEN_def MAX_MULTICAST_DESTINATIONS_def
  MULTICAST_COUNT_LEN_def NODE_ID_LEN_def

section \<open>Multicast payloads\<close>

record multicast_payload =
  mp_destinations :: "node_id list"
  mp_body :: bytes

datatype multicast_payload_error =
    MP_HeaderTooShort usize
  | MP_EmptyDestinations
  | MP_TooManyDestinations usize
  | MP_DuplicateDestination node_id
  | MP_DestinationListTruncated usize usize
  | MP_PayloadTooLarge usize

text \<open>\<open>windows(2).find(|pair| pair[0] == pair[1]).map(|pair| pair[0])\<close>\<close>

fun find_adjacent_equal :: "'a list \<Rightarrow> 'a option" where
  "find_adjacent_equal (x # y # zs) = (if x = y then Some x else find_adjacent_equal (y # zs))"
| "find_adjacent_equal _ = None"

definition canonicalize_destinations :: "node_id list \<Rightarrow> multicast_payload_error + node_id list" where
  "canonicalize_destinations destinations =
    (if destinations = [] then Inl MP_EmptyDestinations
     else if length destinations > MAX_MULTICAST_DESTINATIONS
     then Inl (MP_TooManyDestinations (length destinations))
     else let destinations = sort destinations in
       case find_adjacent_equal destinations of
         Some duplicate \<Rightarrow> Inl (MP_DuplicateDestination duplicate)
       | None \<Rightarrow> Inr destinations)"

definition multicast_prefix_len :: "usize \<Rightarrow> usize" where
  "multicast_prefix_len destination_count =
    usize_add MULTICAST_COUNT_LEN (usize_mul destination_count NODE_ID_LEN)"

definition multicast_payload_new :: "node_id list \<Rightarrow> bytes \<Rightarrow> multicast_payload_error + multicast_payload" where
  "multicast_payload_new destinations body =
    rbind (canonicalize_destinations destinations) (\<lambda>destinations.
      let encoded_len = usize_add (multicast_prefix_len (length destinations)) (length body) in
      if encoded_len > MAX_FORWARD_PAYLOAD_LEN then Inl (MP_PayloadTooLarge encoded_len)
      else Inr \<lparr>mp_destinations = destinations, mp_body = body\<rparr>)"

definition mp_encoded_len :: "multicast_payload \<Rightarrow> usize" where
  "mp_encoded_len p = usize_add (multicast_prefix_len (length (mp_destinations p))) (length (mp_body p))"

definition multicast_encode :: "multicast_payload \<Rightarrow> bytes" where
  "multicast_encode p =
    put_u16 (of_nat (length (mp_destinations p))) @ concat (map as_bytes (mp_destinations p)) @ mp_body p"

definition multicast_decode :: "bytes \<Rightarrow> multicast_payload_error + multicast_payload" where
  "multicast_decode encoded =
    (if length encoded > MAX_FORWARD_PAYLOAD_LEN then Inl (MP_PayloadTooLarge (length encoded))
     else if length encoded < MULTICAST_COUNT_LEN then Inl (MP_HeaderTooShort (length encoded))
     else let count = unat (from_be [encoded ! 0, encoded ! 1] :: u16) in
       if count = 0 then Inl MP_EmptyDestinations
       else if count > MAX_MULTICAST_DESTINATIONS then Inl (MP_TooManyDestinations count)
       else let prefix_len = multicast_prefix_len count in
         if length encoded < prefix_len
         then Inl (MP_DestinationListTruncated prefix_len (length encoded))
         else let destinations =
             map (\<lambda>index. let start = MULTICAST_COUNT_LEN + index * NODE_ID_LEN in
                   from_bytes (take NODE_ID_LEN (drop start encoded))) [0..<count] in
           rbind (canonicalize_destinations destinations) (\<lambda>destinations.
             multicast_payload_new destinations (drop prefix_len encoded)))"

section \<open>Byte enums\<close>

text \<open>
  The contract of a \<open>#[repr(u8)]\<close> enum with a \<open>TryFrom<u8>\<close> implementation: the discriminants read
  back, nothing else reads, and the error reports the offending byte.
\<close>

locale byte_enum =
  fixes to_u8 :: "'a \<Rightarrow> u8" and try_from :: "u8 \<Rightarrow> 'e + 'a" and err :: "u8 \<Rightarrow> 'e"
  assumes try_from_to_u8: "try_from (to_u8 x) = Inr x"
    and try_from_sound: "try_from b = Inr x \<Longrightarrow> to_u8 x = b"
    and try_from_err: "try_from b = Inl e \<Longrightarrow> e = err b"
begin

lemma try_from_Inr_iff: "try_from b = Inr x \<longleftrightarrow> b = to_u8 x"
  using try_from_to_u8 try_from_sound by auto

lemma to_u8_inj: "to_u8 x = to_u8 y \<longleftrightarrow> x = y"
  by (metis Inr_inject try_from_to_u8)

lemma try_from_Inl_iff: "try_from b = Inl e \<longleftrightarrow> b \<notin> range to_u8 \<and> e = err b"
proof
  assume eq: "try_from b = Inl e"
  then have "b \<notin> range to_u8" by (auto simp: try_from_to_u8)
  with try_from_err [OF eq] show "b \<notin> range to_u8 \<and> e = err b" by blast
next
  assume b: "b \<notin> range to_u8 \<and> e = err b"
  then show "try_from b = Inl e"
  proof (cases "try_from b")
    case (Inl e')
    with b show ?thesis using try_from_err [OF Inl] by simp
  next
    case (Inr x)
    with b show ?thesis using try_from_sound [OF Inr] by blast
  qed
qed

end

datatype packet_type = Unicast | Multicast | CircuitData | CircuitControl

datatype priority = P0 | P1 | P2 | P3

datatype forward_packet_error =
    FP_HeaderTooShort usize
  | FP_UnsupportedVersion u8
  | FP_UnknownPacketType u8
  | FP_UnknownPriority u8
  | FP_UnsupportedFlags u32
  | FP_InvalidMulticast multicast_payload_error
  | FP_UnexpectedMulticastDestinations usize
  | FP_PayloadTooLarge usize

fun packet_type_u8 :: "packet_type \<Rightarrow> u8" where
  "packet_type_u8 Unicast = 1"
| "packet_type_u8 Multicast = 2"
| "packet_type_u8 CircuitData = 3"
| "packet_type_u8 CircuitControl = 4"

definition packet_type_try_from :: "u8 \<Rightarrow> forward_packet_error + packet_type" where
  "packet_type_try_from b =
    (if b = 1 then Inr Unicast else if b = 2 then Inr Multicast else if b = 3 then Inr CircuitData
     else if b = 4 then Inr CircuitControl else Inl (FP_UnknownPacketType b))"

fun priority_u8 :: "priority \<Rightarrow> u8" where
  "priority_u8 P0 = 0"
| "priority_u8 P1 = 1"
| "priority_u8 P2 = 2"
| "priority_u8 P3 = 3"

definition priority_try_from :: "u8 \<Rightarrow> forward_packet_error + priority" where
  "priority_try_from b =
    (if b = 0 then Inr P0 else if b = 1 then Inr P1 else if b = 2 then Inr P2
     else if b = 3 then Inr P3 else Inl (FP_UnknownPriority b))"

interpretation packet_type: byte_enum packet_type_u8 packet_type_try_from FP_UnknownPacketType
proof unfold_locales
  fix x show "packet_type_try_from (packet_type_u8 x) = Inr x"
    by (cases x) (simp_all add: packet_type_try_from_def)
qed (auto simp: packet_type_try_from_def split: if_splits)

interpretation priority: byte_enum priority_u8 priority_try_from FP_UnknownPriority
proof unfold_locales
  fix x show "priority_try_from (priority_u8 x) = Inr x"
    by (cases x) (simp_all add: priority_try_from_def)
qed (auto simp: priority_try_from_def split: if_splits)

section \<open>Forwarded packets\<close>

type_synonym forward_flags = u32

definition RELIABLE_HINT :: u32 where "RELIABLE_HINT = push_bit 0 1"
definition CONFLATABLE :: u32 where "CONFLATABLE = push_bit 1 1"
definition COMPRESSED :: u32 where "COMPRESSED = push_bit 2 1"
definition SUPPORTED :: u32 where "SUPPORTED = RELIABLE_HINT OR CONFLATABLE OR COMPRESSED"

definition flags_empty :: forward_flags where "flags_empty = 0"

definition flags_from_bits :: "u32 \<Rightarrow> forward_packet_error + forward_flags" where
  "flags_from_bits bits = (if bits AND NOT SUPPORTED = 0 then Inr bits else Inl (FP_UnsupportedFlags bits))"

definition flags_contains :: "forward_flags \<Rightarrow> u32 \<Rightarrow> bool" where
  "flags_contains fs flag \<longleftrightarrow> fs AND flag = flag"

lemmas flag_consts = RELIABLE_HINT_def CONFLATABLE_def COMPRESSED_def SUPPORTED_def

record forward_header =
  h_packet_type :: packet_type
  h_priority :: priority
  h_ttl :: u8
  h_flags :: forward_flags
  h_destination :: node_id
  h_source :: node_id
  h_flow_id :: u64
  h_conflate_key :: u64

record forward_packet =
  p_header :: forward_header
  p_multicast_destinations :: "node_id list"
  p_payload :: bytes

definition encoded_len :: "forward_packet \<Rightarrow> usize" where
  "encoded_len p =
    (let multicast_prefix =
       (if h_packet_type (p_header p) = Multicast
        then multicast_prefix_len (length (p_multicast_destinations p)) else 0)
     in usize_add (usize_add FORWARD_HEADER_LEN multicast_prefix) (length (p_payload p)))"

definition forward_encode :: "forward_packet \<Rightarrow> forward_packet_error + bytes" where
  "forward_encode packet =
    rbind
      (if h_packet_type (p_header packet) = Multicast
       then rbind (map_err FP_InvalidMulticast
              (multicast_payload_new (p_multicast_destinations packet) (p_payload packet)))
              (\<lambda>multicast. Inr (multicast_encode multicast))
       else if p_multicast_destinations packet \<noteq> []
       then Inl (FP_UnexpectedMulticastDestinations (length (p_multicast_destinations packet)))
       else Inr (p_payload packet))
      (\<lambda>wire_payload.
        if length wire_payload > MAX_FORWARD_PAYLOAD_LEN
        then Inl (FP_PayloadTooLarge (length wire_payload))
        else Inr
          ([FORWARD_PACKET_VERSION, packet_type_u8 (h_packet_type (p_header packet)),
            priority_u8 (h_priority (p_header packet)), h_ttl (p_header packet)] @
           put_u32 (h_flags (p_header packet)) @ as_bytes (h_destination (p_header packet)) @
           as_bytes (h_source (p_header packet)) @ put_u64 (h_flow_id (p_header packet)) @
           put_u64 (h_conflate_key (p_header packet)) @ wire_payload))"

definition forward_decode :: "bytes \<Rightarrow> forward_packet_error + forward_packet" where
  "forward_decode encoded =
    (if length encoded < FORWARD_HEADER_LEN then Inl (FP_HeaderTooShort (length encoded))
     else if length encoded - FORWARD_HEADER_LEN > MAX_FORWARD_PAYLOAD_LEN
     then Inl (FP_PayloadTooLarge (length encoded - FORWARD_HEADER_LEN))
     else if encoded ! 0 \<noteq> FORWARD_PACKET_VERSION then Inl (FP_UnsupportedVersion (encoded ! 0))
     else
       rbind (packet_type_try_from (encoded ! 1)) (\<lambda>packet_type.
       rbind (priority_try_from (encoded ! 2)) (\<lambda>priority.
       rbind (flags_from_bits (from_be [encoded ! 4, encoded ! 5, encoded ! 6, encoded ! 7])) (\<lambda>flags.
       let destination = take 32 (drop 8 encoded);
           source = take 32 (drop 40 encoded);
           flow_id = from_be (take 8 (drop 72 encoded));
           conflate_key = from_be (take 8 (drop 80 encoded));
           wire_payload = drop FORWARD_HEADER_LEN encoded in
       rbind
         (if packet_type = Multicast
          then rbind (map_err FP_InvalidMulticast (multicast_decode wire_payload))
                 (\<lambda>m. Inr (mp_destinations m, mp_body m))
          else Inr ([], wire_payload))
         (\<lambda>(multicast_destinations, payload). Inr
           \<lparr>p_header =
              \<lparr>h_packet_type = packet_type, h_priority = priority, h_ttl = encoded ! 3,
               h_flags = flags, h_destination = from_bytes destination,
               h_source = from_bytes source, h_flow_id = flow_id, h_conflate_key = conflate_key\<rparr>,
            p_multicast_destinations = multicast_destinations, p_payload = payload\<rparr>)))))"

section \<open>Frames\<close>

datatype frame_type = FT_LinkHello | FT_Lsa | FT_Digest | FT_DigestReq | FT_Forward | FT_Circuit | FT_Credit | FT_Ping

datatype channel = Ch_Control | Ch_Rpc | Ch_PubSubP0 | Ch_PubSubP1 | Ch_PubSubP2 | Ch_PubSubP3 | Ch_Tunnel

datatype frame_error =
    FE_UnsupportedVersion u8
  | FE_UnknownFrameType u8
  | FE_UnknownChannel u8
  | FE_UnsupportedFlags u8
  | FE_NonZeroReserved u8
  | FE_PayloadTooLarge usize

fun frame_type_u8 :: "frame_type \<Rightarrow> u8" where
  "frame_type_u8 FT_LinkHello = 1"
| "frame_type_u8 FT_Lsa = 2"
| "frame_type_u8 FT_Digest = 3"
| "frame_type_u8 FT_DigestReq = 4"
| "frame_type_u8 FT_Forward = 5"
| "frame_type_u8 FT_Circuit = 6"
| "frame_type_u8 FT_Credit = 7"
| "frame_type_u8 FT_Ping = 8"

definition frame_type_try_from :: "u8 \<Rightarrow> frame_error + frame_type" where
  "frame_type_try_from b =
    (if b = 1 then Inr FT_LinkHello else if b = 2 then Inr FT_Lsa else if b = 3 then Inr FT_Digest
     else if b = 4 then Inr FT_DigestReq else if b = 5 then Inr FT_Forward
     else if b = 6 then Inr FT_Circuit else if b = 7 then Inr FT_Credit
     else if b = 8 then Inr FT_Ping else Inl (FE_UnknownFrameType b))"

fun channel_u8 :: "channel \<Rightarrow> u8" where
  "channel_u8 Ch_Control = 0"
| "channel_u8 Ch_Rpc = 1"
| "channel_u8 Ch_PubSubP0 = 2"
| "channel_u8 Ch_PubSubP1 = 3"
| "channel_u8 Ch_PubSubP2 = 4"
| "channel_u8 Ch_PubSubP3 = 5"
| "channel_u8 Ch_Tunnel = 6"

definition channel_try_from :: "u8 \<Rightarrow> frame_error + channel" where
  "channel_try_from b =
    (if b = 0 then Inr Ch_Control else if b = 1 then Inr Ch_Rpc else if b = 2 then Inr Ch_PubSubP0
     else if b = 3 then Inr Ch_PubSubP1 else if b = 4 then Inr Ch_PubSubP2
     else if b = 5 then Inr Ch_PubSubP3 else if b = 6 then Inr Ch_Tunnel
     else Inl (FE_UnknownChannel b))"

interpretation frame_type: byte_enum frame_type_u8 frame_type_try_from FE_UnknownFrameType
proof unfold_locales
  fix x show "frame_type_try_from (frame_type_u8 x) = Inr x"
    by (cases x) (simp_all add: frame_type_try_from_def)
qed (auto simp: frame_type_try_from_def split: if_splits)

interpretation channel: byte_enum channel_u8 channel_try_from FE_UnknownChannel
proof unfold_locales
  fix x show "channel_try_from (channel_u8 x) = Inr x"
    by (cases x) (simp_all add: channel_try_from_def)
qed (auto simp: channel_try_from_def split: if_splits)

record wire_frame =
  wf_type :: frame_type
  wf_channel :: channel
  wf_payload :: bytes

definition frame_control :: "frame_type \<Rightarrow> bytes \<Rightarrow> wire_frame" where
  "frame_control t payload = \<lparr>wf_type = t, wf_channel = Ch_Control, wf_payload = payload\<rparr>"

definition frame_encode :: "wire_frame \<Rightarrow> frame_error + bytes" where
  "frame_encode frame =
    (let payload_len = length (wf_payload frame) in
     if payload_len > MAX_PAYLOAD_LEN then Inl (FE_PayloadTooLarge payload_len)
     else Inr ([push_bit 4 FRAME_VERSION OR frame_type_u8 (wf_type frame),
                channel_u8 (wf_channel frame), 0, 0] @ put_u32 (of_nat payload_len) @ wf_payload frame))"

text \<open>
  One call of \<open>FrameDecoder::decode\<close> on the receive buffer: an error leaves the buffer alone, and so
  does an incomplete frame; a complete frame is split off the front.
\<close>

definition frame_decode :: "bytes \<Rightarrow> frame_error + wire_frame option \<times> bytes" where
  "frame_decode source =
    (if length source < HEADER_LEN then Inr (None, source)
     else let version = drop_bit 4 (source ! 0) in
       if version \<noteq> FRAME_VERSION then Inl (FE_UnsupportedVersion version)
       else
         rbind (frame_type_try_from (source ! 0 AND 0x0f)) (\<lambda>frame_type.
         rbind (channel_try_from (source ! 1)) (\<lambda>channel.
         if source ! 2 \<noteq> 0 then Inl (FE_UnsupportedFlags (source ! 2))
         else if source ! 3 \<noteq> 0 then Inl (FE_NonZeroReserved (source ! 3))
         else let payload_len = unat (from_be [source ! 4, source ! 5, source ! 6, source ! 7] :: u32) in
           if payload_len > MAX_PAYLOAD_LEN then Inl (FE_PayloadTooLarge payload_len)
           else let frame_len = HEADER_LEN + payload_len in
             if length source < frame_len then Inr (None, source)
             else let encoded = take frame_len source in
               Inr (Some \<lparr>wf_type = frame_type, wf_channel = channel,
                          wf_payload = drop HEADER_LEN encoded\<rparr>, drop frame_len source))))"

section \<open>Multicast payloads: canonical form and round trip\<close>

lemma find_adjacent_equal_None:
  "sorted xs \<Longrightarrow> find_adjacent_equal xs = None \<longleftrightarrow> distinct (xs :: 'a::linorder list)"
  by (induction xs rule: find_adjacent_equal.induct) auto

lemma find_adjacent_equal_Some:
  "find_adjacent_equal xs = Some x \<Longrightarrow> count_list xs x \<ge> 2"
  by (induction xs rule: find_adjacent_equal.induct) (auto split: if_splits)

lemma canonicalize_Inr_iff:
  "canonicalize_destinations ds = Inr ds' \<longleftrightarrow>
   ds \<noteq> [] \<and> length ds \<le> MAX_MULTICAST_DESTINATIONS \<and> distinct ds \<and> ds' = sort ds"
  using find_adjacent_equal_None [of "sort ds"]
  by (auto simp: canonicalize_destinations_def Let_def split: option.splits)

lemma multicast_prefix_len_small:
  "n \<le> MAX_MULTICAST_DESTINATIONS \<Longrightarrow> multicast_prefix_len n = 2 + 32 * n"
  by (simp add: multicast_prefix_len_def usize_add_def usize_mul_def USIZE_MAX_def wire_consts)

lemma usize_add_small: "a + b \<le> MAX_PAYLOAD_LEN \<Longrightarrow> usize_add a b = a + b"
  by (simp add: usize_add_def USIZE_MAX_def wire_consts)

lemma usize_add_le_iff:
  "m \<le> MAX_PAYLOAD_LEN \<Longrightarrow> usize_add a b \<le> m \<longleftrightarrow> a + b \<le> m"
  by (auto simp: usize_add_def USIZE_MAX_def wire_consts min_le_iff_disj)

definition multicast_valid :: "node_id list \<Rightarrow> bytes \<Rightarrow> bool" where
  "multicast_valid ds body \<longleftrightarrow>
    ds \<noteq> [] \<and> length ds \<le> MAX_MULTICAST_DESTINATIONS \<and> distinct ds \<and>
    2 + 32 * length ds + length body \<le> MAX_FORWARD_PAYLOAD_LEN"

lemma multicast_payload_new_Inr_iff:
  "multicast_payload_new ds body = Inr p \<longleftrightarrow>
   multicast_valid ds body \<and> p = \<lparr>mp_destinations = sort ds, mp_body = body\<rparr>"
proof -
  have "MAX_FORWARD_PAYLOAD_LEN \<le> MAX_PAYLOAD_LEN" by (simp add: wire_consts)
  then show ?thesis
    by (auto simp: multicast_payload_new_def res_simps canonicalize_Inr_iff Let_def
        multicast_prefix_len_small multicast_valid_def not_less usize_add_le_iff
        linorder_not_le [symmetric] split: if_splits)
qed

lemma length_concat_as_bytes [simp]: "length (concat (map as_bytes ds)) = 32 * length ds"
  by (induction ds) simp_all

lemma read_destinations:
  "map (\<lambda>i. from_bytes (take 32 (drop (i * 32) (concat (map as_bytes ds) @ body)))) [0..<length ds] = ds"
proof (induction ds)
  case (Cons d ds)
  have "map (\<lambda>i. from_bytes (take 32 (drop (i * 32) (concat (map as_bytes (d # ds)) @ body)))) [0..<length (d # ds)]
    = from_bytes (as_bytes d) # map (\<lambda>i. from_bytes (take 32 (drop (Suc i * 32) (concat (map as_bytes (d # ds)) @ body)))) [0..<length ds]"
    by (simp add: upt_rec [of 0] map_Suc_upt [symmetric] del: upt_Suc)
  also have "\<dots> = d # ds"
    using Cons by simp
  finally show ?case .
qed simp

lemma multicast_encode_length:
  "multicast_valid ds body \<Longrightarrow>
   length (multicast_encode \<lparr>mp_destinations = ds, mp_body = body\<rparr>) = 2 + 32 * length ds + length body"
  by (simp add: multicast_encode_def)

lemma multicast_valid_sort [simp]: "multicast_valid (sort ds) body \<longleftrightarrow> multicast_valid ds body"
  by (simp add: multicast_valid_def)

lemma multicast_decode_encode:
  assumes "multicast_valid ds body"
  shows "multicast_decode (multicast_encode \<lparr>mp_destinations = ds, mp_body = body\<rparr>) =
         Inr \<lparr>mp_destinations = sort ds, mp_body = body\<rparr>"
proof -
  let ?e = "multicast_encode \<lparr>mp_destinations = ds, mp_body = body\<rparr>"
  let ?c = "of_nat (length ds) :: u16"
  have len: "0 < length ds" "length ds \<le> 64" "2 + 32 * length ds + length body \<le> MAX_FORWARD_PAYLOAD_LEN"
    using assms by (auto simp: multicast_valid_def wire_consts)
  have c: "unat ?c = length ds" using len by (simp add: unat_of_nat)
  have two: "[?e ! 0, ?e ! 1] = put_u16 ?c"
    by (rule nth_equalityI) (auto simp: multicast_encode_def nth_append less_Suc_eq numeral_2_eq_2)
  have drop2: "drop (2 + n) ?e = drop n (concat (map as_bytes ds) @ body)" for n
    by (simp add: multicast_encode_def)
  have dests: "map (\<lambda>i. from_bytes (take 32 (drop (2 + i * 32) ?e))) [0..<length ds] = ds"
    unfolding drop2 by (rule read_destinations)
  have pre: "multicast_prefix_len (length ds) = 2 + 32 * length ds"
    using len by (simp add: multicast_prefix_len_small wire_consts)
  have body: "drop (2 + 32 * length ds) ?e = body"
    unfolding drop2 by simp
  have elen: "length ?e = 2 + 32 * length ds + length body"
    by (rule multicast_encode_length [OF assms])
  have canon: "canonicalize_destinations ds = Inr (sort ds)"
    using assms by (simp add: canonicalize_Inr_iff multicast_valid_def)
  have new: "multicast_payload_new (sort ds) body = Inr \<lparr>mp_destinations = sort ds, mp_body = body\<rparr>"
    using assms by (simp add: multicast_payload_new_Inr_iff)
  show ?thesis
    unfolding multicast_decode_def Let_def two from_be_put c NODE_ID_LEN_def MULTICAST_COUNT_LEN_def
      dests pre body canon
    using len elen new by (simp add: wire_consts)
qed

lemma multicast_decode_valid:
  assumes "multicast_decode bs = Inr p"
  shows "multicast_valid (mp_destinations p) (mp_body p) \<and> sorted (mp_destinations p) \<and>
         length bs = 2 + 32 * length (mp_destinations p) + length (mp_body p)"
  using assms
  by (auto simp: multicast_decode_def Let_def res_simps canonicalize_Inr_iff multicast_payload_new_Inr_iff
       multicast_prefix_len_small not_less split: if_splits)


section \<open>Forwarded packets: round trip\<close>

text \<open>What a \<open>ForwardPacket\<close> must satisfy to be encodable.\<close>

definition packet_encodable :: "forward_packet \<Rightarrow> bool" where
  "packet_encodable p \<longleftrightarrow>
    (if h_packet_type (p_header p) = Multicast
     then multicast_valid (p_multicast_destinations p) (p_payload p)
     else p_multicast_destinations p = [] \<and> length (p_payload p) \<le> MAX_FORWARD_PAYLOAD_LEN)"

text \<open>The private field of \<open>ForwardFlags\<close> only ever holds supported bits.\<close>

definition flags_supported :: "forward_packet \<Rightarrow> bool" where
  "flags_supported p \<longleftrightarrow> h_flags (p_header p) AND NOT SUPPORTED = 0"

definition canonical_packet :: "forward_packet \<Rightarrow> forward_packet" where
  "canonical_packet p = p\<lparr>p_multicast_destinations := sort (p_multicast_destinations p)\<rparr>"

definition wire_payload :: "forward_packet \<Rightarrow> bytes" where
  "wire_payload p =
    (if h_packet_type (p_header p) = Multicast
     then multicast_encode \<lparr>mp_destinations = sort (p_multicast_destinations p), mp_body = p_payload p\<rparr>
     else p_payload p)"

definition header_bytes :: "forward_header \<Rightarrow> bytes" where
  "header_bytes h =
    [FORWARD_PACKET_VERSION, packet_type_u8 (h_packet_type h), priority_u8 (h_priority h), h_ttl h] @
    put_u32 (h_flags h) @ as_bytes (h_destination h) @ as_bytes (h_source h) @
    put_u64 (h_flow_id h) @ put_u64 (h_conflate_key h)"

lemma length_header_bytes [simp]: "length (header_bytes h) = 88"
  by (simp add: header_bytes_def)

lemma multicast_valid_length:
  "multicast_valid ds body \<Longrightarrow>
   length (multicast_encode \<lparr>mp_destinations = sort ds, mp_body = body\<rparr>) \<le> MAX_FORWARD_PAYLOAD_LEN"
  using multicast_encode_length [of "sort ds" body] by (simp add: multicast_valid_def)

lemma forward_encode_Inr_iff:
  "forward_encode p = Inr bs \<longleftrightarrow> packet_encodable p \<and> bs = header_bytes (p_header p) @ wire_payload p"
proof (cases "h_packet_type (p_header p) = Multicast")
  case True
  then show ?thesis
    by (auto simp: forward_encode_def packet_encodable_def wire_payload_def res_simps
        multicast_payload_new_Inr_iff header_bytes_def dest: multicast_valid_length split: if_splits)
next
  case False
  then show ?thesis
    by (auto simp: forward_encode_def packet_encodable_def wire_payload_def res_simps
        header_bytes_def split: if_splits)
qed

lemma encoded_len_eq:
  "packet_encodable p \<Longrightarrow>
   encoded_len p = 88 + (if h_packet_type (p_header p) = Multicast
      then 2 + 32 * length (p_multicast_destinations p) else 0) + length (p_payload p)"
  by (auto simp: encoded_len_def packet_encodable_def multicast_valid_def Let_def
      multicast_prefix_len_small usize_add_def USIZE_MAX_def wire_consts)

lemma encoded_len_le: "packet_encodable p \<Longrightarrow> encoded_len p \<le> MAX_PAYLOAD_LEN"
  by (auto simp: encoded_len_eq packet_encodable_def multicast_valid_def wire_consts)

lemma wire_payload_length:
  "packet_encodable p \<Longrightarrow> 88 + length (wire_payload p) = encoded_len p"
  using multicast_encode_length [of "sort (p_multicast_destinations p)" "p_payload p"]
  by (auto simp: encoded_len_eq wire_payload_def packet_encodable_def)

lemma four_nth: "length xs \<ge> n + 4 \<Longrightarrow> [xs ! n, xs ! (n + 1), xs ! (n + 2), xs ! (n + 3)] = take 4 (drop n xs)"
  by (rule nth_equalityI) (auto simp: nth_Cons less_Suc_eq numeral_eq_Suc split: nat.splits)

lemma header_fields:
  "header_bytes h ! 0 = FORWARD_PACKET_VERSION"
  "header_bytes h ! Suc 0 = packet_type_u8 (h_packet_type h)"
  "header_bytes h ! 2 = priority_u8 (h_priority h)" "header_bytes h ! 3 = h_ttl h"
  "[header_bytes h ! 4, header_bytes h ! 5, header_bytes h ! 6, header_bytes h ! 7] = put_u32 (h_flags h)"
  "take 32 (drop 8 (header_bytes h)) = as_bytes (h_destination h)"
  "take 32 (drop 40 (header_bytes h)) = as_bytes (h_source h)"
  "take 8 (drop 72 (header_bytes h)) = put_u64 (h_flow_id h)"
  "drop 80 (header_bytes h) = put_u64 (h_conflate_key h)"
  using four_nth [of 4 "header_bytes h"]
  by (simp_all add: header_bytes_def)

lemma flags_from_bits_Inr_iff: "flags_from_bits b = Inr f \<longleftrightarrow> b AND NOT SUPPORTED = 0 \<and> f = b"
  by (auto simp: flags_from_bits_def)

lemma forward_decode_header:
  assumes "length w \<le> MAX_FORWARD_PAYLOAD_LEN" "h_flags h AND NOT SUPPORTED = 0"
  shows "forward_decode (header_bytes h @ w) =
    (if h_packet_type h = Multicast
     then map_err FP_InvalidMulticast (rbind (multicast_decode w)
       (\<lambda>m. Inr \<lparr>p_header = h, p_multicast_destinations = mp_destinations m, p_payload = mp_body m\<rparr>))
     else Inr \<lparr>p_header = h, p_multicast_destinations = [], p_payload = w\<rparr>)"
  using assms
  by (cases "multicast_decode w")
     (simp_all add: forward_decode_def header_fields FORWARD_HEADER_LEN_def Let_def nth_append
      packet_type.try_from_to_u8 priority.try_from_to_u8 flags_from_bits_def)

lemma forward_decode_encode:
  assumes "packet_encodable p" "flags_supported p"
  shows "forward_decode (header_bytes (p_header p) @ wire_payload p) = Inr (canonical_packet p)"
proof -
  have len: "length (wire_payload p) \<le> MAX_FORWARD_PAYLOAD_LEN"
    using wire_payload_length [OF assms(1)] encoded_len_le [OF assms(1)] by (simp add: wire_consts)
  have "h_packet_type (p_header p) = Multicast \<Longrightarrow> multicast_decode (wire_payload p) =
        Inr \<lparr>mp_destinations = sort (p_multicast_destinations p), mp_body = p_payload p\<rparr>"
    using assms multicast_decode_encode [of "sort (p_multicast_destinations p)" "p_payload p"]
    by (simp add: wire_payload_def packet_encodable_def)
  then show ?thesis
    using assms len
    by (simp add: forward_decode_header flags_supported_def canonical_packet_def packet_encodable_def
        wire_payload_def)
qed

lemma forward_decode_valid:
  assumes "forward_decode bs = Inr p"
  shows "packet_encodable p \<and> flags_supported p \<and> sorted (p_multicast_destinations p) \<and> encoded_len p = length bs"
proof -
  have *: "packet_encodable p \<and> flags_supported p \<and> sorted (p_multicast_destinations p) \<and>
     length bs = 88 + (if h_packet_type (p_header p) = Multicast
      then 2 + 32 * length (p_multicast_destinations p) else 0) + length (p_payload p)"
    using assms
    by (auto simp: forward_decode_def Let_def res_simps flags_supported_def flags_from_bits_Inr_iff
        packet_encodable_def FORWARD_HEADER_LEN_def dest!: multicast_decode_valid split: if_splits)
  then show ?thesis by (simp add: encoded_len_eq)
qed

section \<open>Frames: round trip, fragmentation, canonicity\<close>

definition frame_header :: "wire_frame \<Rightarrow> bytes" where
  "frame_header f =
    [push_bit 4 FRAME_VERSION OR frame_type_u8 (wf_type f), channel_u8 (wf_channel f), 0, 0] @
    put_u32 (of_nat (length (wf_payload f)))"

lemma length_frame_header [simp]: "length (frame_header f) = 8"
  by (simp add: frame_header_def)

lemma frame_encode_Inr_iff:
  "frame_encode f = Inr bs \<longleftrightarrow>
   length (wf_payload f) \<le> MAX_PAYLOAD_LEN \<and> bs = frame_header f @ wf_payload f"
  by (auto simp: frame_encode_def frame_header_def Let_def)

lemma first_byte:
  "drop_bit 4 (push_bit 4 FRAME_VERSION OR frame_type_u8 t) = FRAME_VERSION"
  "(push_bit 4 FRAME_VERSION OR frame_type_u8 t) AND 0x0f = frame_type_u8 t"
  by (cases t; simp add: FRAME_VERSION_def)+

lemma first_byte_unique:
  "drop_bit 4 (b :: u8) = FRAME_VERSION \<Longrightarrow> push_bit 4 FRAME_VERSION OR (b AND 0x0f) = b"
proof -
  assume "drop_bit 4 b = FRAME_VERSION"
  then have "push_bit 4 FRAME_VERSION OR (b AND 0x0f) = push_bit 4 (drop_bit 4 b) OR (b AND mask 4)"
    by (simp add: mask_eq_exp_minus_1)
  also have "\<dots> = b"
    by (rule bit_eqI) (auto simp: bit_simps)
  finally show ?thesis .
qed

lemma frame_header_fields:
  fixes f w
  defines "e \<equiv> frame_header f @ w"
  shows "e ! 0 = push_bit 4 FRAME_VERSION OR frame_type_u8 (wf_type f)"
    "e ! Suc 0 = channel_u8 (wf_channel f)" "e ! 2 = 0" "e ! 3 = 0"
    "[e ! 4, e ! 5, e ! 6, e ! 7] = put_u32 (of_nat (length (wf_payload f)))"
    "drop 8 e = w"
  using four_nth [of 4 e]
  by (simp_all add: e_def frame_header_def)

lemma frame_decode_header:
  assumes "length (wf_payload f) \<le> MAX_PAYLOAD_LEN"
  shows "frame_decode (frame_header f @ w) =
    (if length w < length (wf_payload f) then Inr (None, frame_header f @ w)
     else Inr (Some (f\<lparr>wf_payload := take (length (wf_payload f)) w\<rparr>), drop (length (wf_payload f)) w))"
proof -
  have "unat (of_nat (length (wf_payload f)) :: u32) = length (wf_payload f)"
    using assms by (simp add: unat_of_nat wire_consts)
  with assms show ?thesis
    by (simp add: frame_decode_def frame_header_fields first_byte frame_type.try_from_to_u8
        channel.try_from_to_u8 Let_def HEADER_LEN_def take_drop add.commute del: drop_bit_or)
qed

lemma frame_decode_encode:
  assumes "frame_encode f = Inr bs"
  shows "frame_decode (bs @ rest) = Inr (Some f, rest)"
  using assms by (auto simp: frame_encode_Inr_iff frame_decode_header)

lemma frame_decode_prefix:
  assumes "frame_encode f = Inr (xs @ ys)" "ys \<noteq> []"
  shows "frame_decode xs = Inr (None, xs)"
proof (cases "length xs < 8")
  case True
  then show ?thesis by (simp add: frame_decode_def HEADER_LEN_def)
next
  case False
  from assms have e: "length (wf_payload f) \<le> MAX_PAYLOAD_LEN" "xs @ ys = frame_header f @ wf_payload f"
    by (simp_all add: frame_encode_Inr_iff)
  have t: "take 8 xs = frame_header f" and d: "drop 8 xs @ ys = wf_payload f"
    using arg_cong [OF e(2), of "take 8"] arg_cong [OF e(2), of "drop 8"] False by simp_all
  have w: "xs = frame_header f @ drop 8 xs" "wf_payload f = drop 8 xs @ ys"
    using t d append_take_drop_id [of 8 xs] by simp_all
  have "length (drop 8 xs) < length (wf_payload f)"
    using w(2) assms(2) by (metis length_append length_greater_0_conv less_add_same_cancel1)
  then show ?thesis
    using frame_decode_header [OF e(1), of "drop 8 xs"] w(1) by simp
qed

lemma frame_decode_sound:
  assumes "frame_decode src = Inr (Some f, rest)"
  shows "\<exists>bs. frame_encode f = Inr bs \<and> src = bs @ rest"
proof -
  from assms obtain n where
    len: "8 \<le> length src" "8 + n \<le> length src" "n \<le> MAX_PAYLOAD_LEN" and
    ver: "drop_bit 4 (src ! 0) = FRAME_VERSION" and
    ty: "src ! 0 AND 0x0f = frame_type_u8 (wf_type f)" and
    ch: "src ! 1 = channel_u8 (wf_channel f)" and
    z: "src ! 2 = 0" "src ! 3 = 0" and
    n: "n = unat (from_be [src ! 4, src ! 5, src ! 6, src ! 7] :: u32)" and
    pay: "wf_payload f = take n (drop 8 src)" and rest: "rest = drop (8 + n) src"
    by (auto simp: frame_decode_def HEADER_LEN_def Let_def res_simps not_less
        frame_type.try_from_Inr_iff channel.try_from_Inr_iff take_drop add.commute split: if_splits)
  have b0: "src ! 0 = push_bit 4 FRAME_VERSION OR frame_type_u8 (wf_type f)"
    using first_byte_unique [OF ver] ty by simp
  have lp: "length (wf_payload f) = n" using len pay by simp
  have four: "put_u32 (of_nat n) = take 4 (drop 4 src)"
    using four_nth [of 4 src] len n by (simp add: put_from_be)
  have "take 8 src = take 4 src @ take 4 (drop 4 src)"
    using take_add [of 4 4 src] by simp
  also have "take 4 src = [src ! 0, src ! 1, src ! 2, src ! 3]"
    using four_nth [of 0 src] len by (simp add: numeral_2_eq_2)
  finally have "take 8 src = frame_header f"
    using b0 ch z four lp by (simp add: frame_header_def)
  moreover have "src = take 8 src @ take n (drop 8 src) @ drop (8 + n) src"
    by (metis append_take_drop_id drop_drop add.commute)
  ultimately have "src = frame_header f @ wf_payload f @ rest"
    using pay rest by simp
  then show ?thesis
    using len lp by (auto simp: frame_encode_Inr_iff)
qed

section \<open>Properties\<close>

text \<open>
  C10: a frame survives the link. Whatever follows it in the receive buffer, the decoder returns
  exactly the frame that was encoded and leaves the rest; on any strict prefix of the encoding it
  asks for more bytes and consumes none, so fragmentation by TCP does not matter.
\<close>

theorem frame_roundtrip:
  assumes "frame_encode f = Inr bs"
  shows "frame_decode (bs @ rest) = Inr (Some f, rest) \<and>
    (\<forall>k < length bs. frame_decode (take k bs) = Inr (None, take k bs))"
proof (intro conjI allI impI)
  show "frame_decode (bs @ rest) = Inr (Some f, rest)"
    using assms by (rule frame_decode_encode)
  fix k assume "k < length bs"
  then show "frame_decode (take k bs) = Inr (None, take k bs)"
    using assms frame_decode_prefix [of f "take k bs" "drop k bs"] by simp
qed

theorem frame_roundtrip_witness:
  "frame_decode ([24, 0, 0, 0, 0, 0, 0, 2, 65, 66] @ [7]) = Inr (Some (frame_control FT_Ping [65, 66]), [7])"
proof -
  have "frame_encode (frame_control FT_Ping [65, 66]) = Inr [24, 0, 0, 0, 0, 0, 0, 2, 65, 66]"
    by code_simp
  from frame_roundtrip [OF this, of "[7]"] show ?thesis by blast
qed

text \<open>
  C14: the decoder is exact and its demand for memory is bounded. A decoded frame re-encodes to
  precisely the bytes that were consumed; when the decoder waits for more input it has consumed
  nothing and the buffer is still smaller than the largest legal frame.
\<close>

theorem frame_decode_exact:
  assumes "frame_decode src = Inr (result, rest)"
  shows "case result of
      Some f \<Rightarrow> \<exists>bs. frame_encode f = Inr bs \<and> src = bs @ rest
    | None \<Rightarrow> rest = src \<and> length src < HEADER_LEN + MAX_PAYLOAD_LEN"
proof (cases result)
  case None
  with assms show ?thesis
    by (auto simp: frame_decode_def Let_def res_simps HEADER_LEN_def split: if_splits)
next
  case (Some f)
  with assms frame_decode_sound show ?thesis by simp
qed

theorem frame_decode_exact_witness:
  "\<exists>bs. frame_encode (frame_control FT_Lsa [9]) = Inr bs \<and> [18, 0, 0, 0, 0, 0, 0, 1, 9, 5] = bs @ [5]"
proof -
  have "frame_decode [18, 0, 0, 0, 0, 0, 0, 1, 9, 5] = Inr (Some (frame_control FT_Lsa [9]), [5])"
    by code_simp
  from frame_decode_exact [OF this] show ?thesis by simp
qed

text \<open>
  building a multicast payload canonicalises its destinations (strictly ascending, the same set)
  and the payload survives its byte encoding; construction succeeds exactly for 1 to 64 distinct
  destinations whose encoding fits the forward payload limit.
\<close>

theorem multicast_payload_canonical:
  assumes "multicast_payload_new ds body = Inr p"
  shows "sorted_wrt (<) (mp_destinations p) \<and> set (mp_destinations p) = set ds \<and> mp_body p = body \<and>
    1 \<le> length ds \<and> length ds \<le> MAX_MULTICAST_DESTINATIONS \<and> distinct ds \<and>
    length (multicast_encode p) = mp_encoded_len p \<and> mp_encoded_len p \<le> MAX_FORWARD_PAYLOAD_LEN \<and>
    multicast_decode (multicast_encode p) = Inr p"
proof -
  from assms have v: "multicast_valid ds body" and p: "p = \<lparr>mp_destinations = sort ds, mp_body = body\<rparr>"
    by (simp_all add: multicast_payload_new_Inr_iff)
  have "mp_encoded_len p = 2 + 32 * length ds + length body"
    using v by (auto simp: mp_encoded_len_def p multicast_valid_def multicast_prefix_len_small
        usize_add_def USIZE_MAX_def wire_consts)
  then show ?thesis
    using v multicast_decode_encode [of "sort ds" body] multicast_encode_length [of "sort ds" body]
    by (auto simp: p multicast_valid_def sorted_wrt_less_sorted Suc_le_eq)
qed

theorem multicast_payload_canonical_witness:
  "multicast_decode (multicast_encode \<lparr>mp_destinations = [1, 2, 3], mp_body = [42]\<rparr>) =
   Inr \<lparr>mp_destinations = [1, 2, 3], mp_body = [42]\<rparr>"
proof -
  have "multicast_payload_new [3, 1, 2] [42] = Inr \<lparr>mp_destinations = [1, 2, 3], mp_body = [42]\<rparr>"
    by code_simp
  from multicast_payload_canonical [OF this] show ?thesis by blast
qed

text \<open>
  C15: a forwarded packet survives the wire. If it encodes, the encoding has the length that the
  forwarder accounts credit for, fits a frame, and decodes to the packet with its multicast
  destinations in canonical order.
\<close>

theorem forward_packet_roundtrip:
  assumes "forward_encode p = Inr bs" and "flags_supported p"
  shows "forward_decode bs = Inr (canonical_packet p) \<and> length bs = encoded_len p \<and>
    length bs \<le> MAX_PAYLOAD_LEN"
  using assms forward_decode_encode [of p] wire_payload_length [of p] encoded_len_le [of p]
  by (simp add: forward_encode_Inr_iff)

definition sample_packet :: forward_packet where
  "sample_packet = \<lparr>p_header = \<lparr>h_packet_type = Unicast, h_priority = P1, h_ttl = 32, h_flags = 3,
     h_destination = 2, h_source = 1, h_flow_id = 0x0102030405060708,
     h_conflate_key = 0x1112131415161718\<rparr>, p_multicast_destinations = [], p_payload = [65, 66]\<rparr>"

theorem forward_packet_roundtrip_witness:
  "\<exists>bs. forward_encode sample_packet = Inr bs \<and> forward_decode bs = Inr sample_packet \<and> length bs = 90"
proof -
  have e: "forward_encode sample_packet = Inr (header_bytes (p_header sample_packet) @ [65, 66])"
    by (simp add: forward_encode_Inr_iff packet_encodable_def wire_payload_def sample_packet_def wire_consts)
  have f: "flags_supported sample_packet"
    by (simp add: flags_supported_def sample_packet_def flag_consts)
  from forward_packet_roundtrip [OF e f] e show ?thesis
    by (simp add: canonical_packet_def sample_packet_def)
qed

text \<open>
  a packet accepted from the wire can always be put back on the wire at the same size, and
  decoding is idempotent: what a relay re-encodes decodes to the packet it holds.
\<close>

theorem forward_decode_reencodes:
  assumes "forward_decode bs = Inr p"
  shows "\<exists>bs'. forward_encode p = Inr bs' \<and> length bs' = length bs \<and> forward_decode bs' = Inr p"
proof -
  from forward_decode_valid [OF assms] have v: "packet_encodable p" "flags_supported p"
    "sorted (p_multicast_destinations p)" "encoded_len p = length bs" by auto
  then have "canonical_packet p = p"
    by (simp add: canonical_packet_def sorted_sort_id)
  with v show ?thesis
    using forward_decode_encode [of p] wire_payload_length [of p]
    by (auto simp: forward_encode_Inr_iff)
qed

theorem forward_decode_reencodes_witness:
  "\<exists>bs'. forward_encode sample_packet = Inr bs' \<and> length bs' = 90 \<and> forward_decode bs' = Inr sample_packet"
proof -
  have v: "packet_encodable sample_packet" "flags_supported sample_packet"
    by (simp_all add: packet_encodable_def flags_supported_def sample_packet_def wire_consts flag_consts)
  have "forward_decode (header_bytes (p_header sample_packet) @ wire_payload sample_packet) = Inr sample_packet"
    using forward_decode_encode [OF v] by (simp add: canonical_packet_def sample_packet_def)
  from forward_decode_reencodes [OF this] show ?thesis
    by (simp add: wire_payload_def sample_packet_def)
qed

end
