(* ===== verification/Heap.thy ===== *)
theory Heap
  imports Types "HOL-Library.Multiset"
begin

text \<open>
  \<open>std::collections::BinaryHeap\<close> over \<open>Reverse\<close> keys, the way the shortest-path loop and the
  runtime's timer queue use it: \<open>push\<close> adds an element and \<open>pop\<close> takes out a least one. The model
  keeps the elements in a list; only the multiset of elements is observable, because equal keys
  are indistinguishable. The contract is the locale \<open>min_queue\<close>.
\<close>

section \<open>The contract of a minimum queue\<close>

locale min_queue =
  fixes push :: "'a::linorder \<Rightarrow> 'q \<Rightarrow> 'q"
    and pop :: "'q \<Rightarrow> ('a \<times> 'q) option"
    and elems :: "'q \<Rightarrow> 'a multiset"
  assumes elems_push: "elems (push x q) = add_mset x (elems q)"
    and pop_None_iff: "pop q = None \<longleftrightarrow> elems q = {#}"
    and pop_Some: "pop q = Some (x, q') \<Longrightarrow> elems q = add_mset x (elems q') \<and> (\<forall>y \<in># elems q'. x \<le> y)"
begin

lemma pop_size: "pop q = Some (x, q') \<Longrightarrow> size (elems q) = Suc (size (elems q'))"
  using pop_Some [of q x q'] by simp

lemma pop_mem: "pop q = Some (x, q') \<Longrightarrow> y \<in># elems q \<longleftrightarrow> y = x \<or> y \<in># elems q'"
  using pop_Some [of q x q'] by auto

lemma pop_least: "pop q = Some (x, q') \<Longrightarrow> y \<in># elems q \<Longrightarrow> x \<le> y"
  using pop_Some [of q x q'] by auto

text \<open>Popping never yields a smaller element than one popped before it.\<close>

lemma pop_pop_ordered: "pop q = Some (x, q') \<Longrightarrow> pop q' = Some (y, q'') \<Longrightarrow> x \<le> y"
  using pop_Some [of q x q'] pop_Some [of q' y q''] by auto

end

section \<open>The list model\<close>

definition heap_push :: "'a::linorder \<Rightarrow> 'a list \<Rightarrow> 'a list" where
  "heap_push x q = x # q"

definition heap_peek :: "'a::linorder list \<Rightarrow> 'a option" where
  "heap_peek q = (case q of [] \<Rightarrow> None | x # xs \<Rightarrow> Some (fold min xs x))"

definition heap_pop :: "'a::linorder list \<Rightarrow> ('a \<times> 'a list) option" where
  "heap_pop q = (case heap_peek q of None \<Rightarrow> None | Some m \<Rightarrow> Some (m, remove1 m q))"

lemma fold_min_Min: "fold min xs x = Min (insert x (set xs))"
  using Min.set_eq_fold [of x xs] by simp

lemma heap_peek_Some:
  "heap_peek q = Some m \<longleftrightarrow> q \<noteq> [] \<and> m = Min (set q)"
  by (cases q) (auto simp: heap_peek_def fold_min_Min)

lemma heap_peek_None [simp]: "heap_peek q = None \<longleftrightarrow> q = []"
  by (auto simp: heap_peek_def split: list.splits)

interpretation heap: min_queue heap_push heap_pop mset
proof unfold_locales
  fix x :: 'a and q q' :: "'a list"
  show "mset (heap_push x q) = add_mset x (mset q)" by (simp add: heap_push_def)
  show "heap_pop q = None \<longleftrightarrow> mset q = {#}"
    by (auto simp: heap_pop_def heap_peek_Some split: option.splits)
  assume pop: "heap_pop q = Some (x, q')"
  then have x: "q \<noteq> []" "x = Min (set q)" and q': "q' = remove1 x q"
    by (auto simp: heap_pop_def heap_peek_Some split: option.splits)
  then have "x \<in> set q" by simp
  then have "mset q = add_mset x (mset q')" by (simp add: q')
  moreover have "\<forall>y \<in># mset q'. x \<le> y"
    using x by (auto simp: q' dest: in_diffD)
  ultimately show "mset q = add_mset x (mset q') \<and> (\<forall>y \<in># mset q'. x \<le> y)" by simp
qed

lemma heap_push_set [simp]: "set (heap_push x q) = insert x (set q)"
  by (simp add: heap_push_def)

lemma heap_pop_length: "heap_pop q = Some (x, q') \<Longrightarrow> length q = Suc (length q')"
  using heap.pop_size [of q x q'] by simp

lemma heap_pop_set: "heap_pop q = Some (x, q') \<Longrightarrow> set q = insert x (set q')"
  using heap.pop_Some [of q x q'] by (metis set_mset_add_mset_insert set_mset_mset)

lemma heap_pop_None [simp]: "heap_pop q = None \<longleftrightarrow> q = []"
  by (simp add: heap.pop_None_iff)

lemma heap_pop_Nil [simp]: "heap_pop [] = None"
  by simp

end
