(* ===== verification/ControlTypes.thy ===== *)
theory ControlTypes
  imports Heap
begin

text \<open>
  Crate \<open>mb-control\<close>, data: link costs, topic advertisements, link-state advertisements (LSA) and
  their database (LSDB), control frames, timers, events, actions, route tables and the state of
  the control plane. The structs that derive \<open>Ord\<close> are single-constructor datatypes with the
  derived lexicographic order as a \<open>linorder\<close> instance; the others are records.
\<close>

unbundle bit_operations_syntax

section \<open>Constants\<close>

definition DIGEST_INTERVAL_MS :: u64 where "DIGEST_INTERVAL_MS = 10000"
definition SPF_INITIAL_HOLD_MS :: u64 where "SPF_INITIAL_HOLD_MS = 100"
definition SPF_MAX_HOLD_MS :: u64 where "SPF_MAX_HOLD_MS = 5000"
definition SPF_QUIET_RESET_MS :: u64 where "SPF_QUIET_RESET_MS = 10000"
definition DEFAULT_LSA_TTL_SEC :: u32 where "DEFAULT_LSA_TTL_SEC = 300"
definition MAX_LSA_TTL_SEC :: u32 where "MAX_LSA_TTL_SEC = 3600"
definition MAX_LSDB_ENTRIES :: usize where "MAX_LSDB_ENTRIES = 1000"
definition MAX_LSA_ADJACENCIES :: usize where "MAX_LSA_ADJACENCIES = 256"
definition MAX_LSA_TOPIC_ADS :: usize where "MAX_LSA_TOPIC_ADS = 256"
definition MAX_TOPIC_NAME_LEN :: usize where "MAX_TOPIC_NAME_LEN = 1024"
definition MAX_TOPIC_PARTITION_LEN :: usize where "MAX_TOPIC_PARTITION_LEN = 64 * 1024"
definition MAX_DIGEST_ENTRIES :: usize where "MAX_DIGEST_ENTRIES = MAX_LSDB_ENTRIES"
definition MAX_DIGEST_REQ_ORIGINS :: usize where "MAX_DIGEST_REQ_ORIGINS = MAX_LSDB_ENTRIES"

lemmas control_consts =
  DIGEST_INTERVAL_MS_def SPF_INITIAL_HOLD_MS_def SPF_MAX_HOLD_MS_def SPF_QUIET_RESET_MS_def
  DEFAULT_LSA_TTL_SEC_def MAX_LSA_TTL_SEC_def MAX_LSDB_ENTRIES_def MAX_LSA_ADJACENCIES_def
  MAX_LSA_TOPIC_ADS_def MAX_TOPIC_NAME_LEN_def MAX_TOPIC_PARTITION_LEN_def
  MAX_DIGEST_ENTRIES_def MAX_DIGEST_REQ_ORIGINS_def

section \<open>Costs, adjacencies, topic advertisements\<close>

type_synonym link_cost = u16

datatype invalid_link_cost = InvalidLinkCost

definition link_cost_new :: "u16 \<Rightarrow> invalid_link_cost + link_cost" where
  "link_cost_new value = (if value = 0 then Inl InvalidLinkCost else Inr value)"

record adjacency =
  adj_peer :: node_id
  adj_cost :: link_cost

type_synonym topic_roles = u8

definition ROLE_PUBLISH :: topic_roles where "ROLE_PUBLISH = 1"
definition ROLE_SUBSCRIBE :: topic_roles where "ROLE_SUBSCRIBE = push_bit 1 1"
definition ROLE_STORE :: topic_roles where "ROLE_STORE = push_bit 2 1"
definition ROLES_ALL :: u8 where "ROLES_ALL = ROLE_PUBLISH OR ROLE_SUBSCRIBE OR ROLE_STORE"

lemmas role_consts = ROLE_PUBLISH_def ROLE_SUBSCRIBE_def ROLE_STORE_def ROLES_ALL_def

definition roles_from_bits :: "u8 \<Rightarrow> topic_roles option" where
  "roles_from_bits bits = (if bits \<noteq> 0 \<and> bits AND NOT ROLES_ALL = 0 then Some bits else None)"

definition roles_contains :: "topic_roles \<Rightarrow> topic_roles \<Rightarrow> bool" where
  "roles_contains rs role \<longleftrightarrow> rs AND role = role"

datatype topic_ad = TopicAd
  (ta_topic: string) (ta_partition: bytes) (ta_roles: topic_roles) (ta_head_seq: u64) (ta_tail_seq: u64)

definition topic_ad_key :: "topic_ad \<Rightarrow> string \<times> bytes \<times> topic_roles \<times> u64 \<times> u64" where
  "topic_ad_key ad = (ta_topic ad, ta_partition ad, ta_roles ad, ta_head_seq ad, ta_tail_seq ad)"

lemma topic_ad_key_inj: "topic_ad_key a = topic_ad_key b \<longleftrightarrow> a = b"
  by (cases a; cases b) (auto simp: topic_ad_key_def)

instantiation topic_ad :: linorder
begin
definition less_eq_topic_ad :: "topic_ad \<Rightarrow> topic_ad \<Rightarrow> bool" where
  "less_eq_topic_ad a b = (topic_ad_key a \<le> topic_ad_key b)"
definition less_topic_ad :: "topic_ad \<Rightarrow> topic_ad \<Rightarrow> bool" where
  "less_topic_ad a b = (topic_ad_key a < topic_ad_key b)"
instance
proof
  fix a b c :: topic_ad
  show "a < b \<longleftrightarrow> a \<le> b \<and> \<not> b \<le> a"
    unfolding less_eq_topic_ad_def less_topic_ad_def by (rule less_le_not_le)
  show "a \<le> a" unfolding less_eq_topic_ad_def by (rule order.refl)
  show "a \<le> b \<Longrightarrow> b \<le> c \<Longrightarrow> a \<le> c" unfolding less_eq_topic_ad_def by (rule order.trans)
  show "a \<le> b \<Longrightarrow> b \<le> a \<Longrightarrow> a = b"
    unfolding less_eq_topic_ad_def topic_ad_key_inj [symmetric] by (rule order.antisym)
  show "a \<le> b \<or> b \<le> a" unfolding less_eq_topic_ad_def by (rule linear)
qed
end

datatype discovered_topic_ad = DiscoveredTopicAd (dt_node: node_id) (dt_ad: topic_ad)

definition discovered_key :: "discovered_topic_ad \<Rightarrow> node_id \<times> topic_ad" where
  "discovered_key d = (dt_node d, dt_ad d)"

lemma discovered_key_inj: "discovered_key a = discovered_key b \<longleftrightarrow> a = b"
  by (cases a; cases b) (auto simp: discovered_key_def)

instantiation discovered_topic_ad :: linorder
begin
definition less_eq_discovered_topic_ad :: "discovered_topic_ad \<Rightarrow> discovered_topic_ad \<Rightarrow> bool" where
  "less_eq_discovered_topic_ad a b = (discovered_key a \<le> discovered_key b)"
definition less_discovered_topic_ad :: "discovered_topic_ad \<Rightarrow> discovered_topic_ad \<Rightarrow> bool" where
  "less_discovered_topic_ad a b = (discovered_key a < discovered_key b)"
instance
proof
  fix a b c :: discovered_topic_ad
  show "a < b \<longleftrightarrow> a \<le> b \<and> \<not> b \<le> a"
    unfolding less_eq_discovered_topic_ad_def less_discovered_topic_ad_def by (rule less_le_not_le)
  show "a \<le> a" unfolding less_eq_discovered_topic_ad_def by (rule order.refl)
  show "a \<le> b \<Longrightarrow> b \<le> c \<Longrightarrow> a \<le> c" unfolding less_eq_discovered_topic_ad_def by (rule order.trans)
  show "a \<le> b \<Longrightarrow> b \<le> a \<Longrightarrow> a = b"
    unfolding less_eq_discovered_topic_ad_def discovered_key_inj [symmetric] by (rule order.antisym)
  show "a \<le> b \<or> b \<le> a" unfolding less_eq_discovered_topic_ad_def by (rule linear)
qed
end

section \<open>Link-state advertisements\<close>

type_synonym version = "u32 \<times> u64"

record lsa =
  lsa_origin :: node_id
  lsa_epoch :: u32
  lsa_seq :: u64
  lsa_ttl_sec :: u32
  lsa_adjacencies :: "adjacency list"
  lsa_topics :: "topic_ad list"

record lsa_message =
  msg_lsa :: lsa
  msg_canonical_bytes :: bytes
  msg_signature :: bytes

record digest_entry =
  de_origin :: node_id
  de_epoch :: u32
  de_seq :: u64

definition digest_entry_version :: "digest_entry \<Rightarrow> version" where
  "digest_entry_version e = (de_epoch e, de_seq e)"

datatype entry_relation = RemoteOnly | RemoteNewer | SameVersion | LocalNewer | LocalOnly

fun compare_versions :: "version option \<Rightarrow> version option \<Rightarrow> entry_relation res" where
  "compare_versions None (Some _) = Inr RemoteOnly"
| "compare_versions (Some _) None = Inr LocalOnly"
| "compare_versions (Some local) (Some remote) =
    (if remote > local then Inr RemoteNewer
     else if local > remote then Inr LocalNewer
     else Inr SameVersion)"
| "compare_versions None None = Inl (Unreachable ''an origin must exist in at least one digest'')"

text \<open>\<open>LsaSigner\<close> and \<open>LsaVerifier\<close> are trait objects of the control plane; the insecure pair of the
  first milestone is the one the runtime installs.\<close>

type_synonym lsa_signer = "lsa \<Rightarrow> lsa_message"
type_synonym lsa_verifier = "lsa_message \<Rightarrow> bool"

definition unsecured_sign :: lsa_signer where
  "unsecured_sign l = \<lparr>msg_lsa = l, msg_canonical_bytes = [], msg_signature = []\<rparr>"

definition unsecured_verify :: lsa_verifier where
  "unsecured_verify message = True"

section \<open>Frames, timers, events, actions\<close>

datatype control_frame =
    CF_Lsa lsa_message
  | CF_Digest "digest_entry list"
  | CF_DigestReq "node_id list"

datatype control_timer =
    CT_Digest link_id
  | CT_SpfHold u64
  | CT_LsaRefresh u32 u64
  | CT_LsaExpire node_id u32 u64

datatype control_event =
    CE_LinkUp link_id node_id link_cost
  | CE_LinkDown link_id
  | CE_LocalTopicAdsChanged "topic_ad list"
  | CE_Frame link_id control_frame
  | CE_Timer control_timer

record route =
  rt_next_hop :: link_id
  rt_cost :: u32
  rt_hops :: u8

record route_table =
  tbl_version :: u64
  tbl_routes :: "(node_id, route) btree"

definition route_table_default :: route_table where
  "route_table_default = \<lparr>tbl_version = 0, tbl_routes = bt_empty\<rparr>"

definition route_get :: "route_table \<Rightarrow> node_id \<Rightarrow> route option" where
  "route_get t destination = bt_get (tbl_routes t) destination"

definition route_table_new :: "u64 \<Rightarrow> (node_id, route) btree \<Rightarrow> route_table" where
  "route_table_new version routes = \<lparr>tbl_version = version, tbl_routes = routes\<rparr>"

definition route_iter :: "route_table \<Rightarrow> (node_id \<times> route) list" where
  "route_iter t = bt_entries (tbl_routes t)"

definition route_len :: "route_table \<Rightarrow> usize" where
  "route_len t = bt_len (tbl_routes t)"

definition route_is_empty :: "route_table \<Rightarrow> bool" where
  "route_is_empty t \<longleftrightarrow> route_len t = 0"

datatype control_action =
    CA_Send link_id control_frame
  | CA_SetTimer control_timer mono_time
  | CA_PublishRoutes route_table
  | CA_PublishTopicAds "discovered_topic_ad list"
  | CA_PersistSeq u64

section \<open>The state of the control plane\<close>

record active_lsa =
  al_message :: lsa_message
  al_received_at :: mono_time
  al_expires_at :: mono_time

datatype lsdb_entry_state = LS_Active active_lsa | LS_Tombstone

record lsdb_entry =
  le_version :: version
  le_state :: lsdb_entry_state

definition entry_active :: "lsdb_entry \<Rightarrow> active_lsa option" where
  "entry_active e = (case le_state e of LS_Active a \<Rightarrow> Some a | LS_Tombstone \<Rightarrow> None)"

record local_adjacency =
  la_peer :: node_id
  la_cost :: link_cost

record pending_spf =
  ps_generation :: u64
  ps_at :: mono_time

record control_plane =
  cp_me :: node_id
  cp_epoch :: u32
  cp_my_seq :: u64
  cp_adjacencies :: "(link_id, local_adjacency) btree"
  cp_local_topic_ads :: "topic_ad list"
  cp_lsdb :: "(node_id, lsdb_entry) btree"
  cp_routes :: route_table
  cp_published_topic_ads :: "discovered_topic_ad list"
  cp_pending_spf :: "pending_spf option"
  cp_spf_generation :: u64
  cp_spf_hold_ms :: u64
  cp_last_lsdb_change_at :: "mono_time option"
  cp_signer :: lsa_signer
  cp_verifier :: lsa_verifier

definition with_auth_and_seq :: "node_id \<Rightarrow> u32 \<Rightarrow> u64 \<Rightarrow> lsa_signer \<Rightarrow> lsa_verifier \<Rightarrow> control_plane" where
  "with_auth_and_seq me epoch last_seq signer verifier =
    \<lparr>cp_me = me, cp_epoch = epoch, cp_my_seq = last_seq, cp_adjacencies = bt_empty,
     cp_local_topic_ads = [], cp_lsdb = bt_empty, cp_routes = route_table_default,
     cp_published_topic_ads = [], cp_pending_spf = None, cp_spf_generation = 0,
     cp_spf_hold_ms = SPF_INITIAL_HOLD_MS, cp_last_lsdb_change_at = None,
     cp_signer = signer, cp_verifier = verifier\<rparr>"

definition with_auth :: "node_id \<Rightarrow> u32 \<Rightarrow> lsa_signer \<Rightarrow> lsa_verifier \<Rightarrow> control_plane" where
  "with_auth me epoch signer verifier = with_auth_and_seq me epoch 0 signer verifier"

definition new_unsecured_with_seq :: "node_id \<Rightarrow> u32 \<Rightarrow> u64 \<Rightarrow> control_plane" where
  "new_unsecured_with_seq me epoch last_seq =
    with_auth_and_seq me epoch last_seq unsecured_sign unsecured_verify"

definition new_unsecured :: "node_id \<Rightarrow> u32 \<Rightarrow> control_plane" where
  "new_unsecured me epoch = new_unsecured_with_seq me epoch 0"

text \<open>Diagnostic accessors.\<close>

definition lsdb_len :: "control_plane \<Rightarrow> usize" where
  "lsdb_len s = bt_len (cp_lsdb s)"

definition cp_lsas :: "control_plane \<Rightarrow> lsa list" where
  "cp_lsas s = map (\<lambda>a. msg_lsa (al_message a)) (List.map_filter entry_active (bt_values (cp_lsdb s)))"

definition cp_lsa :: "control_plane \<Rightarrow> node_id \<Rightarrow> lsa option" where
  "cp_lsa s origin =
    map_option (\<lambda>a. msg_lsa (al_message a)) (Option.bind (bt_get (cp_lsdb s) origin) entry_active)"

definition cp_lsa_received_at :: "control_plane \<Rightarrow> node_id \<Rightarrow> mono_time option" where
  "cp_lsa_received_at s origin =
    map_option al_received_at (Option.bind (bt_get (cp_lsdb s) origin) entry_active)"

definition cp_lsa_is_expired :: "control_plane \<Rightarrow> node_id \<Rightarrow> bool option" where
  "cp_lsa_is_expired s origin =
    map_option (\<lambda>e. case le_state e of LS_Tombstone \<Rightarrow> True | LS_Active _ \<Rightarrow> False) (bt_get (cp_lsdb s) origin)"

lemma entry_active_simps [simp]:
  "entry_active (e\<lparr>le_state := LS_Active a\<rparr>) = Some a"
  "entry_active (e\<lparr>le_state := LS_Tombstone\<rparr>) = None"
  "entry_active \<lparr>le_version = v, le_state = LS_Active a\<rparr> = Some a"
  "entry_active \<lparr>le_version = v, le_state = LS_Tombstone\<rparr> = None"
  by (simp_all add: entry_active_def)

lemma entry_active_Some: "entry_active e = Some a \<longleftrightarrow> le_state e = LS_Active a"
  by (auto simp: entry_active_def split: lsdb_entry_state.splits)

lemma entry_active_None: "entry_active e = None \<longleftrightarrow> le_state e = LS_Tombstone"
  by (auto simp: entry_active_def split: lsdb_entry_state.splits)

end
