(* ===== verification/Forward.thy ===== *)
theory Forward
  imports Wire ControlTypes
begin

text \<open>
  Crate \<open>mb-forward\<close>: the packet forwarder with its per-link priority queues, credit, deficit round
  robin (DRR), split horizon, multicast branching, conflation and the waiting room for P0 packets of
  links that went down. The fixed-size arrays of a link are functions of the index; every method
  threads the forwarder and returns the actions in the order the code pushes them.
\<close>

section \<open>Data\<close>

definition QUEUE_LIMIT_PACKETS :: "nat \<Rightarrow> usize" where
  "QUEUE_LIMIT_PACKETS i = [256, 512, 1024, 4096] ! i"
definition DRR_QUANTUM_BYTES :: "nat \<Rightarrow> usize" where
  "DRR_QUANTUM_BYTES i = [14 * 1024, 5 * 1024, 1024] ! i"
definition P0_ROUTE_WAIT_MS :: u64 where "P0_ROUTE_WAIT_MS = 2000"

datatype drop_reason =
    TtlExceeded
  | NoRoute
  | LoopDetected
  | DR_LinkDown
  | RouteWaitExpired
  | InvalidMulticast multicast_payload_error
  | UnsupportedPacketType packet_type
  | QueueFull priority

datatype forward_timer = PendingP0 (timer_generation: u64)

datatype forward_event =
    FE_Outbound forward_packet
  | FE_OutboundMulticast "node_id list" forward_packet
  | FE_Inbound link_id forward_packet
  | FE_RoutesUpdated route_table
  | FE_LinkCredit link_id usize
  | FE_LinkWritable link_id
  | FE_LinkDown link_id
  | FE_Timer forward_timer

datatype forward_action =
    FA_Send link_id forward_packet
  | FA_DeliverLocal forward_packet
  | FA_Drop drop_reason forward_packet
  | FA_Backpressure link_id forward_packet
  | FA_SetTimer forward_timer mono_time

record link_queue_snapshot =
  sn_available_credit_bytes :: usize
  sn_packet_counts :: "usize list"
  sn_queued_bytes :: "usize list"
  sn_deficit_bytes :: "usize list"
  sn_next_drr_priority :: priority

record queued_packet =
  qp_incoming :: "link_id option"
  qp_packet :: forward_packet

record link_queues =
  lq_queues :: "nat \<Rightarrow> queued_packet list"
  lq_queued_bytes :: "nat \<Rightarrow> usize"
  lq_available_credit_bytes :: usize
  lq_writable :: bool
  lq_deficit_bytes :: "nat \<Rightarrow> usize"
  lq_next_drr :: nat
  lq_drr_needs_quantum :: bool

definition link_queues_default :: link_queues where
  "link_queues_default =
    \<lparr>lq_queues = (\<lambda>_. []), lq_queued_bytes = (\<lambda>_. 0), lq_available_credit_bytes = 0, lq_writable = False,
     lq_deficit_bytes = (\<lambda>_. 0), lq_next_drr = 0, lq_drr_needs_quantum = True\<rparr>"

record pending_p0_batch =
  pb_expires_at :: mono_time
  pb_packets :: "queued_packet list"

record conflation_key =
  ck_source :: node_id
  ck_flow_id :: u64
  ck_conflate_key :: u64

definition conflation_key_of :: "forward_packet \<Rightarrow> conflation_key option" where
  "conflation_key_of packet =
    (if h_priority (p_header packet) = P1 \<and> flags_contains (h_flags (p_header packet)) CONFLATABLE
     then Some \<lparr>ck_source = h_source (p_header packet), ck_flow_id = h_flow_id (p_header packet),
                ck_conflate_key = h_conflate_key (p_header packet)\<rparr>
     else None)"

record forwarder =
  fw_me :: node_id
  fw_routes :: route_table
  fw_links :: "(link_id, link_queues) btree"
  fw_down_links :: "link_id btset"
  fw_pending_p0 :: "(u64, pending_p0_batch) btree"
  fw_next_pending_generation :: u64

definition forwarder_new :: "node_id \<Rightarrow> route_table \<Rightarrow> forwarder" where
  "forwarder_new me routes =
    \<lparr>fw_me = me, fw_routes = routes, fw_links = bt_empty, fw_down_links = bt_empty,
     fw_pending_p0 = bt_empty, fw_next_pending_generation = 0\<rparr>"

definition pending_p0_len :: "forwarder \<Rightarrow> usize" where
  "pending_p0_len f = sum_list (map (\<lambda>batch. length (pb_packets batch)) (bt_values (fw_pending_p0 f)))"

fun priority_index :: "priority \<Rightarrow> nat" where
  "priority_index P0 = 0"
| "priority_index P1 = 1"
| "priority_index P2 = 2"
| "priority_index P3 = 3"

definition drr_priority :: "nat \<Rightarrow> priority res" where
  "drr_priority index =
    (if index = 0 then Inr P1 else if index = 1 then Inr P2 else if index = 2 then Inr P3
     else Inl (Unreachable ''DRR index is always in 0..3''))"

definition queue_snapshot :: "link_id \<Rightarrow> forwarder \<Rightarrow> link_queue_snapshot option res" where
  "queue_snapshot link f =
    (case bt_get (fw_links f) link of
       None \<Rightarrow> Inr None
     | Some st \<Rightarrow>
         rbind (drr_priority (lq_next_drr st)) (\<lambda>priority.
         Inr (Some \<lparr>sn_available_credit_bytes = lq_available_credit_bytes st,
                   sn_packet_counts = map (\<lambda>i. length (lq_queues st i)) [0..<4],
                   sn_queued_bytes = map (lq_queued_bytes st) [0..<4],
                   sn_deficit_bytes = map (lq_deficit_bytes st) [0..<3],
                   sn_next_drr_priority = priority\<rparr>)))"

section \<open>The scheduler of one link\<close>

definition advance_drr :: "link_queues \<Rightarrow> link_queues" where
  "advance_drr st = st\<lparr>lq_next_drr := (lq_next_drr st + 1) mod 3, lq_drr_needs_quantum := True\<rparr>"

definition head_len :: "link_queues \<Rightarrow> nat \<Rightarrow> usize option" where
  "head_len st i = (case lq_queues st i of [] \<Rightarrow> None | q # _ \<Rightarrow> Some (encoded_len (qp_packet q)))"

definition head_fits_credit :: "link_queues \<Rightarrow> nat \<Rightarrow> bool" where
  "head_fits_credit st i =
    (case head_len st i of None \<Rightarrow> False | Some packet_len \<Rightarrow> packet_len \<le> lq_available_credit_bytes st)"

definition add_quantum :: "link_queues \<Rightarrow> link_queues" where
  "add_quantum st =
    (let i = lq_next_drr st in
     if lq_drr_needs_quantum st
     then st\<lparr>lq_deficit_bytes := (lq_deficit_bytes st)(i := usize_add (lq_deficit_bytes st i) (DRR_QUANTUM_BYTES i)),
            lq_drr_needs_quantum := False\<rparr>
     else st)"

definition send_drr :: "queued_packet \<Rightarrow> queued_packet list \<Rightarrow> link_queues \<Rightarrow> link_queues" where
  "send_drr queued rest st =
    (let i = lq_next_drr st;
         packet_len = encoded_len (qp_packet queued);
         st = st\<lparr>lq_queues := (lq_queues st)(i + 1 := rest),
                 lq_deficit_bytes := (lq_deficit_bytes st)(i := lq_deficit_bytes st i - packet_len),
                 lq_queued_bytes := (lq_queued_bytes st)(i + 1 := usize_sub (lq_queued_bytes st (i + 1)) packet_len),
                 lq_available_credit_bytes := lq_available_credit_bytes st - packet_len,
                 lq_writable := False\<rparr>
     in if rest = [] then advance_drr (st\<lparr>lq_deficit_bytes := (lq_deficit_bytes st)(i := 0)\<rparr>) else st)"

text \<open>The measure of the DRR loop: the bytes that the queues whose head fits the credit still lack in
  deficit; then whether the present queue got its quantum already; then the way to the next such queue.\<close>

definition lacking :: "link_queues \<Rightarrow> nat \<Rightarrow> nat" where
  "lacking st i = (if head_fits_credit st (i + 1) then the (head_len st (i + 1)) - lq_deficit_bytes st i else 0)"

definition drr_distance :: "link_queues \<Rightarrow> nat" where
  "drr_distance st =
    (let i = lq_next_drr st in
     if head_fits_credit st (i + 1) then 0 else if head_fits_credit st ((i + 1) mod 3 + 1) then 1 else 2)"

function drr_loop :: "link_queues \<Rightarrow> (forward_packet option \<times> link_queues) res" where
  "drr_loop st =
    (if \<not> list_ex (head_fits_credit st) [1, 2, 3] then Inr (None, st)
     else if lq_next_drr st \<ge> 3 then Inl (Index_Missing ''deficit_bytes'')
     else
       (case lq_queues st (lq_next_drr st + 1) of
          [] \<Rightarrow> drr_loop (advance_drr (st\<lparr>lq_deficit_bytes := (lq_deficit_bytes st)(lq_next_drr st := 0)\<rparr>))
        | queued # rest \<Rightarrow>
            let st = add_quantum st;
                packet_len = encoded_len (qp_packet queued)
            in if packet_len > lq_deficit_bytes st (lq_next_drr st) \<or> packet_len > lq_available_credit_bytes st
               then drr_loop (advance_drr st)
               else Inr (Some (qp_packet queued), send_drr queued rest st)))"
  by pat_completeness auto

lemma head_len_frame [simp]:
  "head_len (st\<lparr>lq_deficit_bytes := d\<rparr>) i = head_len st i"
  "head_len (st\<lparr>lq_drr_needs_quantum := q\<rparr>) i = head_len st i"
  "head_len (st\<lparr>lq_next_drr := n\<rparr>) i = head_len st i"
  by (simp_all add: head_len_def)

lemma head_fits_frame [simp]:
  "head_fits_credit (st\<lparr>lq_deficit_bytes := d\<rparr>) i = head_fits_credit st i"
  "head_fits_credit (st\<lparr>lq_drr_needs_quantum := q\<rparr>) i = head_fits_credit st i"
  "head_fits_credit (st\<lparr>lq_next_drr := n\<rparr>) i = head_fits_credit st i"
  by (simp_all add: head_fits_credit_def split: option.split)

lemma drr_distance_frame [simp]:
  "drr_distance (st\<lparr>lq_deficit_bytes := d\<rparr>) = drr_distance st"
  "drr_distance (st\<lparr>lq_drr_needs_quantum := q\<rparr>) = drr_distance st"
  by (simp_all add: drr_distance_def Let_def)

lemma advance_drr_frame [simp]:
  "advance_drr (st\<lparr>lq_deficit_bytes := d\<rparr>) = (advance_drr st)\<lparr>lq_deficit_bytes := d\<rparr>"
  "advance_drr (st\<lparr>lq_drr_needs_quantum := q\<rparr>) = advance_drr st"
  "lq_drr_needs_quantum (advance_drr st)"
  by (simp_all add: advance_drr_def)

lemma drr_distance_step:
  assumes "list_ex (head_fits_credit st) [1, 2, 3]" and "lq_next_drr st < 3"
    and "\<not> head_fits_credit st (lq_next_drr st + 1)"
  shows "drr_distance (advance_drr st) < drr_distance st"
proof -
  have "lq_next_drr st = 0 \<or> lq_next_drr st = 1 \<or> lq_next_drr st = 2" using assms(2) by linarith
  moreover have "head_fits_credit st 1 \<or> head_fits_credit st 2 \<or> head_fits_credit st 3" using assms(1) by simp
  ultimately show ?thesis
    using assms(3) unfolding drr_distance_def advance_drr_def Let_def by (elim disjE) (simp_all add: Suc_eq_plus1 del: One_nat_def)
qed

lemma encoded_len_le_max: "encoded_len p \<le> USIZE_MAX"
  by (simp add: encoded_len_def Let_def usize_add_def)

lemma DRR_QUANTUM_pos: "i < 3 \<Longrightarrow> 0 < DRR_QUANTUM_BYTES i"
  by (auto simp: DRR_QUANTUM_BYTES_def less_Suc_eq numeral_3_eq_3)

definition lack :: "link_queues \<Rightarrow> nat" where
  "lack st = lacking st 0 + lacking st 1 + lacking st 2"

lemma lack_frame [simp]:
  "lack (st\<lparr>lq_next_drr := n\<rparr>) = lack st" "lack (st\<lparr>lq_drr_needs_quantum := q\<rparr>) = lack st"
  by (simp_all add: lack_def lacking_def)

lemma lack_advance [simp]: "lack (advance_drr st) = lack st"
  by (simp add: advance_drr_def)

lemma lack_deficit:
  assumes "i < 3"
  shows "\<not> head_fits_credit st (i + 1) \<Longrightarrow> lack (st\<lparr>lq_deficit_bytes := (lq_deficit_bytes st)(i := d)\<rparr>) = lack st"
    and "head_fits_credit st (i + 1) \<Longrightarrow> lq_deficit_bytes st i < d \<Longrightarrow> lq_deficit_bytes st i < the (head_len st (i + 1)) \<Longrightarrow>
      lack (st\<lparr>lq_deficit_bytes := (lq_deficit_bytes st)(i := d)\<rparr>) < lack st"
proof -
  have i: "i = 0 \<or> i = 1 \<or> i = 2" using assms by linarith
  show "\<not> head_fits_credit st (i + 1) \<Longrightarrow> lack (st\<lparr>lq_deficit_bytes := (lq_deficit_bytes st)(i := d)\<rparr>) = lack st"
    using i by (auto simp: lack_def lacking_def numeral_2_eq_2)
  show "head_fits_credit st (i + 1) \<Longrightarrow> lq_deficit_bytes st i < d \<Longrightarrow> lq_deficit_bytes st i < the (head_len st (i + 1)) \<Longrightarrow>
      lack (st\<lparr>lq_deficit_bytes := (lq_deficit_bytes st)(i := d)\<rparr>) < lack st"
    using i by (auto simp: lack_def lacking_def numeral_2_eq_2)
qed

lemma add_quantum_frame [simp]:
  "lq_next_drr (add_quantum st) = lq_next_drr st"
  "lq_available_credit_bytes (add_quantum st) = lq_available_credit_bytes st"
  "lq_queues (add_quantum st) = lq_queues st" "lq_queued_bytes (add_quantum st) = lq_queued_bytes st"
  "lq_writable (add_quantum st) = lq_writable st"
  by (simp_all add: add_quantum_def Let_def)

text \<open>A round over a queue that does not send makes progress towards a queue that does.\<close>

lemma drr_skip_progress:
  assumes ex: "list_ex (head_fits_credit st) [1, 2, 3]" and i: "lq_next_drr st < 3"
    and q: "lq_queues st (lq_next_drr st + 1) = queued # rest"
    and skip: "encoded_len (qp_packet queued) > lq_deficit_bytes (add_quantum st) (lq_next_drr st) \<or>
      encoded_len (qp_packet queued) > lq_available_credit_bytes st"
  shows "(advance_drr (add_quantum st), st) \<in> measures [lack, \<lambda>st. if lq_drr_needs_quantum st then 0 else 1, drr_distance]"
proof (cases "lq_drr_needs_quantum st")
  case False
  then have "add_quantum st = st" by (simp add: add_quantum_def)
  then show ?thesis using False by (simp add: advance_drr_def)
next
  case needs: True
  let ?i = "lq_next_drr st" and ?len = "encoded_len (qp_packet queued)"
  let ?d = "usize_add (lq_deficit_bytes st ?i) (DRR_QUANTUM_BYTES ?i)"
  have hl: "head_len st (?i + 1) = Some ?len" using q by (simp add: head_len_def)
  have aq: "add_quantum st = st\<lparr>lq_deficit_bytes := (lq_deficit_bytes st)(?i := ?d), lq_drr_needs_quantum := False\<rparr>"
    using needs by (simp add: add_quantum_def Let_def)
  show ?thesis
  proof (cases "head_fits_credit st (?i + 1)")
    case True
    then have "?len > ?d" using skip hl by (auto simp: head_fits_credit_def aq)
    then have "lq_deficit_bytes st ?i < ?d" "lq_deficit_bytes st ?i < ?len"
      using encoded_len_le_max [of "qp_packet queued"] DRR_QUANTUM_pos [OF i] by (auto simp: usize_add_def)
    then have "lack (add_quantum st) < lack st" using lack_deficit(2) [OF i True] hl by (simp add: aq)
    then show ?thesis by simp
  next
    case False
    then have "lack (add_quantum st) = lack st" using lack_deficit(1) [OF i] by (simp add: aq)
    moreover have "drr_distance (advance_drr (add_quantum st)) < drr_distance st"
      using drr_distance_step [OF ex i False] by (simp add: aq)
    ultimately show ?thesis using needs by simp
  qed
qed

lemma drr_empty_progress:
  assumes ex: "list_ex (head_fits_credit st) [1, 2, 3]" and i: "lq_next_drr st < 3"
    and q: "lq_queues st (lq_next_drr st + 1) = []"
  shows "(advance_drr (st\<lparr>lq_deficit_bytes := (lq_deficit_bytes st)(lq_next_drr st := 0)\<rparr>), st)
    \<in> measures [lack, \<lambda>st. if lq_drr_needs_quantum st then 0 else 1, drr_distance]"
proof -
  have nofit: "\<not> head_fits_credit st (lq_next_drr st + 1)" using q by (simp add: head_fits_credit_def head_len_def)
  then have "drr_distance (advance_drr (st\<lparr>lq_deficit_bytes := (lq_deficit_bytes st)(lq_next_drr st := 0)\<rparr>)) < drr_distance st"
    using drr_distance_step [OF ex i] by simp
  then show ?thesis
    using lack_deficit(1) [OF i nofit, of 0] by (simp del: advance_drr_frame(1))
qed

termination drr_loop
  by (relation "measures [lack, \<lambda>st. if lq_drr_needs_quantum st then 0 else 1, drr_distance]")
    (simp_all only: wf_measures not_le not_not drr_empty_progress drr_skip_progress add_quantum_frame)

declare drr_loop.simps [simp del]

section \<open>Queues of the forwarder\<close>

definition put_link :: "link_id \<Rightarrow> link_queues \<Rightarrow> forwarder \<Rightarrow> forwarder" where
  "put_link link st f = f\<lparr>fw_links := bt_insert link st (fw_links f)\<rparr>"

definition link_or_default :: "link_id \<Rightarrow> forwarder \<Rightarrow> link_queues" where
  "link_or_default link f = (case bt_get (fw_links f) link of None \<Rightarrow> link_queues_default | Some st \<Rightarrow> st)"

definition send_p0 :: "queued_packet \<Rightarrow> queued_packet list \<Rightarrow> link_queues \<Rightarrow> link_queues" where
  "send_p0 queued rest st =
    (let packet_len = encoded_len (qp_packet queued) in
     st\<lparr>lq_queues := (lq_queues st)(0 := rest),
        lq_queued_bytes := (lq_queued_bytes st)(0 := usize_sub (lq_queued_bytes st 0) packet_len),
        lq_available_credit_bytes := lq_available_credit_bytes st - packet_len,
        lq_writable := False\<rparr>)"

definition try_send_one :: "link_id \<Rightarrow> forwarder \<Rightarrow> (forward_action list \<times> forwarder) res" where
  "try_send_one link f =
    (case bt_get (fw_links f) link of
       None \<Rightarrow> Inr ([], f)
     | Some st \<Rightarrow>
         if \<not> lq_writable st then Inr ([], f)
         else (case lq_queues st 0 of
                 queued # rest \<Rightarrow>
                   if encoded_len (qp_packet queued) > lq_available_credit_bytes st then Inr ([], f)
                   else Inr ([FA_Send link (qp_packet queued)], put_link link (send_p0 queued rest st) f)
               | [] \<Rightarrow>
                   rbind (drr_loop st) (\<lambda>(sent, st).
                   Inr (case sent of None \<Rightarrow> [] | Some packet \<Rightarrow> [FA_Send link packet], put_link link st f))))"

text \<open>\<open>iter_mut().find(..)\<close> followed by an assignment: the first match is replaced and returned.\<close>

fun replace_first :: "('a \<Rightarrow> bool) \<Rightarrow> 'a \<Rightarrow> 'a list \<Rightarrow> ('a \<times> 'a list) option" where
  "replace_first P y [] = None"
| "replace_first P y (x # xs) =
    (if P x then Some (x, y # xs) else map_option (\<lambda>(old, ys). (old, x # ys)) (replace_first P y xs))"

definition conflate :: "queued_packet \<Rightarrow> queued_packet list \<Rightarrow> (queued_packet \<times> queued_packet list) option" where
  "conflate queued q =
    (case conflation_key_of (qp_packet queued) of
       None \<Rightarrow> None
     | Some key \<Rightarrow> replace_first (\<lambda>other. conflation_key_of (qp_packet other) = Some key) queued q)"

definition enqueue ::
  "link_id \<Rightarrow> forward_packet \<Rightarrow> link_id option \<Rightarrow> forwarder \<Rightarrow> (forward_action list \<times> forwarder) res" where
  "enqueue link packet incoming f =
    (if bt_contains (fw_down_links f) link then Inr ([FA_Drop DR_LinkDown packet], f)
     else
       (let priority = h_priority (p_header packet);
            i = priority_index priority;
            st = link_or_default link f;
            f = put_link link st f;
            queued = \<lparr>qp_incoming = incoming, qp_packet = packet\<rparr>
        in case conflate queued (lq_queues st i) of
             Some (previous, q) \<Rightarrow>
               try_send_one link (put_link link
                 (st\<lparr>lq_queues := (lq_queues st)(i := q),
                     lq_queued_bytes := (lq_queued_bytes st)(i :=
                       usize_add (usize_sub (lq_queued_bytes st i) (encoded_len (qp_packet previous))) (encoded_len packet))\<rparr>) f)
           | None \<Rightarrow>
               if length (lq_queues st i) \<ge> QUEUE_LIMIT_PACKETS i
               then Inr (if priority = P0 then [FA_Backpressure link packet] else [FA_Drop (QueueFull priority) packet], f)
               else try_send_one link (put_link link
                 (st\<lparr>lq_queues := (lq_queues st)(i := lq_queues st i @ [queued]),
                     lq_queued_bytes := (lq_queued_bytes st)(i := usize_add (lq_queued_bytes st i) (encoded_len packet))\<rparr>) f)))"

definition grant_credit :: "link_id \<Rightarrow> usize \<Rightarrow> forwarder \<Rightarrow> (forward_action list \<times> forwarder) res" where
  "grant_credit link bytes f =
    (if bt_contains (fw_down_links f) link then Inr ([], f)
     else let st = link_or_default link f in
       try_send_one link
         (put_link link (st\<lparr>lq_available_credit_bytes := usize_add (lq_available_credit_bytes st) bytes\<rparr>) f))"

definition mark_writable :: "link_id \<Rightarrow> forwarder \<Rightarrow> (forward_action list \<times> forwarder) res" where
  "mark_writable link f =
    (if bt_contains (fw_down_links f) link then Inr ([], f)
     else try_send_one link (put_link link ((link_or_default link f)\<lparr>lq_writable := True\<rparr>) f))"

section \<open>Routing of packets\<close>

definition dec_ttl :: "forward_packet \<Rightarrow> forward_packet res" where
  "dec_ttl packet =
    (if h_ttl (p_header packet) = 0 then Inl (Overflow ''ttl'')
     else Inr (packet\<lparr>p_header := (p_header packet)\<lparr>h_ttl := h_ttl (p_header packet) - 1\<rparr>\<rparr>))"

definition forward_unicast :: "link_id option \<Rightarrow> forward_packet \<Rightarrow> forwarder \<Rightarrow> forward_action res" where
  "forward_unicast incoming packet f =
    (if h_destination (p_header packet) = fw_me f then Inr (FA_DeliverLocal packet)
     else case route_get (fw_routes f) (h_destination (p_header packet)) of
       None \<Rightarrow> Inr (FA_Drop NoRoute packet)
     | Some r \<Rightarrow>
         if bt_contains (fw_down_links f) (rt_next_hop r) then Inr (FA_Drop NoRoute packet)
         else if incoming = Some (rt_next_hop r) then Inr (FA_Drop LoopDetected packet)
         else rbind (dec_ttl packet) (\<lambda>packet. Inr (FA_Send (rt_next_hop r) packet)))"

definition multicast_subset_packet :: "forward_packet \<Rightarrow> node_id list \<Rightarrow> bytes \<Rightarrow> u8 \<Rightarrow> forward_packet res" where
  "multicast_subset_packet template destinations body ttl =
    (case multicast_payload_new destinations body of
       Inl _ \<Rightarrow> Inl (Expect ''a non-empty subset of a validated multicast payload remains valid'')
     | Inr multicast \<Rightarrow>
         Inr (template\<lparr>p_header := (p_header template)\<lparr>h_packet_type := Multicast, h_destination := default_node, h_ttl := ttl\<rparr>,
                       p_multicast_destinations := mp_destinations multicast, p_payload := mp_body multicast\<rparr>))"

definition local_copy :: "forward_packet \<Rightarrow> bytes \<Rightarrow> forwarder \<Rightarrow> forward_packet" where
  "local_copy packet body f =
    packet\<lparr>p_header := (p_header packet)\<lparr>h_destination := fw_me f\<rparr>, p_multicast_destinations := [], p_payload := body\<rparr>"

record branches =
  br_deliver_local :: bool
  br_no_route :: "node_id list"
  br_looped :: "node_id list"
  br_by_link :: "(link_id, node_id list) btree"

definition branches_empty :: branches where
  "branches_empty = \<lparr>br_deliver_local = False, br_no_route = [], br_looped = [], br_by_link = bt_empty\<rparr>"

definition classify_destination :: "link_id option \<Rightarrow> forwarder \<Rightarrow> node_id \<Rightarrow> branches \<Rightarrow> branches" where
  "classify_destination incoming f destination b =
    (if destination = fw_me f then b\<lparr>br_deliver_local := True\<rparr>
     else case route_get (fw_routes f) destination of
       None \<Rightarrow> b\<lparr>br_no_route := br_no_route b @ [destination]\<rparr>
     | Some r \<Rightarrow>
         if bt_contains (fw_down_links f) (rt_next_hop r) then b\<lparr>br_no_route := br_no_route b @ [destination]\<rparr>
         else if incoming = Some (rt_next_hop r) then b\<lparr>br_looped := br_looped b @ [destination]\<rparr>
         else b\<lparr>br_by_link := bt_upsert (rt_next_hop r) (\<lambda>ds. ds @ [destination]) [destination] (br_by_link b)\<rparr>)"

definition enqueue_branch ::
  "link_id option \<Rightarrow> forward_packet \<Rightarrow> bytes \<Rightarrow> u8 \<Rightarrow> link_id \<times> node_id list \<Rightarrow>
    forward_action list \<times> forwarder \<Rightarrow> (forward_action list \<times> forwarder) res" where
  "enqueue_branch incoming packet body ttl = (\<lambda>(link, destinations) (actions, f).
    rbind (multicast_subset_packet packet destinations body ttl) (\<lambda>branch.
    rbind (enqueue link branch incoming f) (\<lambda>(more, f).
    Inr (actions @ more, f))))"

definition drop_subset :: "drop_reason \<Rightarrow> forward_packet \<Rightarrow> node_id list \<Rightarrow> bytes \<Rightarrow> forward_action list res" where
  "drop_subset reason packet destinations body =
    (if destinations = [] then Inr []
     else rbind (multicast_subset_packet packet destinations body (h_ttl (p_header packet))) (\<lambda>dropped.
          Inr [FA_Drop reason dropped]))"

definition forward_multicast ::
  "link_id option \<Rightarrow> forward_packet \<Rightarrow> forwarder \<Rightarrow> (forward_action list \<times> forwarder) res" where
  "forward_multicast incoming packet f =
    (case multicast_payload_new (p_multicast_destinations packet) (p_payload packet) of
       Inl error \<Rightarrow> Inr ([FA_Drop (InvalidMulticast error) packet], f)
     | Inr multicast \<Rightarrow>
         let body = mp_body multicast;
             b = fold (classify_destination incoming f) (mp_destinations multicast) branches_empty;
             actions = (if br_deliver_local b then [FA_DeliverLocal (local_copy packet body f)] else [])
         in rbind (drop_subset NoRoute packet (br_no_route b) body) (\<lambda>no_route.
            rbind (drop_subset LoopDetected packet (br_looped b) body) (\<lambda>looped.
            rbind (if h_ttl (p_header packet) = 0 then Inl (Overflow ''ttl'') else Inr (h_ttl (p_header packet) - 1)) (\<lambda>next_ttl.
            rfold (enqueue_branch incoming packet body next_ttl) (bt_entries (br_by_link b))
              (actions @ no_route @ looped, f)))))"

definition process_packet ::
  "link_id option \<Rightarrow> forward_packet \<Rightarrow> forwarder \<Rightarrow> (forward_action list \<times> forwarder) res" where
  "process_packet incoming packet f =
    (if h_ttl (p_header packet) = 0 then Inr ([FA_Drop TtlExceeded packet], f)
     else case h_packet_type (p_header packet) of
       Unicast \<Rightarrow>
         rbind (forward_unicast incoming packet f) (\<lambda>action.
         case action of
           FA_Send link packet \<Rightarrow> enqueue link packet incoming f
         | action \<Rightarrow> Inr ([action], f))
     | Multicast \<Rightarrow> forward_multicast incoming packet f
     | unsupported \<Rightarrow> Inr ([FA_Drop (UnsupportedPacketType unsupported) packet], f))"

definition process_outbound_multicast ::
  "node_id list \<Rightarrow> forward_packet \<Rightarrow> forwarder \<Rightarrow> (forward_action list \<times> forwarder) res" where
  "process_outbound_multicast destinations packet f =
    (let packet = packet\<lparr>p_header := (p_header packet)\<lparr>h_packet_type := Multicast, h_destination := default_node\<rparr>\<rparr>
     in case multicast_payload_new destinations (p_payload packet) of
          Inl error \<Rightarrow> Inr ([FA_Drop (InvalidMulticast error) packet], f)
        | Inr multicast \<Rightarrow>
            process_packet None
              (packet\<lparr>p_multicast_destinations := mp_destinations multicast, p_payload := mp_body multicast\<rparr>) f)"

section \<open>Rerouting\<close>

definition drop_queued_packets :: "queued_packet list \<Rightarrow> drop_reason \<Rightarrow> forward_action list" where
  "drop_queued_packets packets reason = map (\<lambda>queued. FA_Drop reason (qp_packet queued)) packets"

definition reroute_link :: "node_id \<Rightarrow> link_id option \<Rightarrow> forwarder \<Rightarrow> link_id option" where
  "reroute_link destination incoming f =
    (case route_get (fw_routes f) destination of
       None \<Rightarrow> None
     | Some r \<Rightarrow>
         if \<not> bt_contains (fw_down_links f) (rt_next_hop r) \<and> incoming \<noteq> Some (rt_next_hop r)
         then Some (rt_next_hop r) else None)"

definition reroute_unicast ::
  "queued_packet \<Rightarrow> forwarder \<Rightarrow> (forward_action list \<times> queued_packet list \<times> forwarder) res" where
  "reroute_unicast queued f =
    (if h_destination (p_header (qp_packet queued)) = fw_me f then Inr ([FA_DeliverLocal (qp_packet queued)], [], f)
     else case reroute_link (h_destination (p_header (qp_packet queued))) (qp_incoming queued) f of
       None \<Rightarrow> Inr ([], [queued], f)
     | Some link \<Rightarrow>
         rbind (enqueue link (qp_packet queued) (qp_incoming queued) f) (\<lambda>(actions, f).
         Inr (actions, [], f)))"

definition reclassify_destination :: "link_id option \<Rightarrow> forwarder \<Rightarrow> node_id \<Rightarrow> branches \<Rightarrow> branches" where
  "reclassify_destination incoming f destination b =
    (if destination = fw_me f then b\<lparr>br_deliver_local := True\<rparr>
     else case reroute_link destination incoming f of
       Some link \<Rightarrow> b\<lparr>br_by_link := bt_upsert link (\<lambda>ds. ds @ [destination]) [destination] (br_by_link b)\<rparr>
     | None \<Rightarrow> b\<lparr>br_no_route := br_no_route b @ [destination]\<rparr>)"

definition reroute_multicast ::
  "queued_packet \<Rightarrow> forwarder \<Rightarrow> (forward_action list \<times> queued_packet list \<times> forwarder) res" where
  "reroute_multicast queued f =
    (let packet = qp_packet queued; incoming = qp_incoming queued in
     case multicast_payload_new (p_multicast_destinations packet) (p_payload packet) of
       Inl error \<Rightarrow> Inr ([FA_Drop (InvalidMulticast error) packet], [], f)
     | Inr multicast \<Rightarrow>
         let body = mp_body multicast;
             ttl = h_ttl (p_header packet);
             b = fold (reclassify_destination incoming f) (mp_destinations multicast) branches_empty;
             actions = (if br_deliver_local b then [FA_DeliverLocal (local_copy packet body f)] else [])
         in rbind (rfold (enqueue_branch incoming packet body ttl) (bt_entries (br_by_link b)) (actions, f)) (\<lambda>(actions, f).
            if br_no_route b = [] then Inr (actions, [], f)
            else rbind (multicast_subset_packet packet (br_no_route b) body ttl) (\<lambda>remaining.
                 Inr (actions, [\<lparr>qp_incoming = incoming, qp_packet = remaining\<rparr>], f))))"

definition reroute_queued ::
  "queued_packet \<Rightarrow> forwarder \<Rightarrow> (forward_action list \<times> queued_packet list \<times> forwarder) res" where
  "reroute_queued queued f =
    (case h_packet_type (p_header (qp_packet queued)) of
       Unicast \<Rightarrow> reroute_unicast queued f
     | Multicast \<Rightarrow> reroute_multicast queued f
     | unsupported \<Rightarrow> Inr ([FA_Drop (UnsupportedPacketType unsupported) (qp_packet queued)], [], f))"

section \<open>Link failure, the waiting room of P0 and the event handler\<close>

text \<open>The loop over the generations returns at the first one that is not in use; a forwarder with
  \<open>n\<close> batches finds it within \<open>n + 1\<close> steps (lemma \<open>next_pending_generation_fresh\<close>).\<close>

fun pending_generation_loop :: "nat \<Rightarrow> forwarder \<Rightarrow> (u64 \<times> forwarder) res" where
  "pending_generation_loop 0 f = Inl (Divergence ''next_pending_generation'')"
| "pending_generation_loop (Suc fuel) f =
    (let generation = fw_next_pending_generation f;
         f = f\<lparr>fw_next_pending_generation := generation + 1\<rparr>
     in if \<not> bt_contains (fw_pending_p0 f) generation then Inr (generation, f)
        else pending_generation_loop fuel f)"

definition next_pending_generation :: "forwarder \<Rightarrow> (u64 \<times> forwarder) res" where
  "next_pending_generation f = pending_generation_loop (Suc (bt_len (fw_pending_p0 f))) f"

definition park_p0 :: "mono_time \<Rightarrow> queued_packet list \<Rightarrow> forwarder \<Rightarrow> (forward_action list \<times> forwarder) res" where
  "park_p0 now p0 f =
    (if p0 = [] then Inr ([], f)
     else rbind (next_pending_generation f) (\<lambda>(generation, f).
       let expires_at = sat_add now P0_ROUTE_WAIT_MS in
       Inr ([FA_SetTimer (PendingP0 generation) expires_at],
            f\<lparr>fw_pending_p0 := bt_insert generation \<lparr>pb_expires_at = expires_at, pb_packets = p0\<rparr> (fw_pending_p0 f)\<rparr>)))"

definition reroute_p2 ::
  "queued_packet \<Rightarrow> forward_action list \<times> forwarder \<Rightarrow> (forward_action list \<times> forwarder) res" where
  "reroute_p2 queued = (\<lambda>(actions, f).
    rbind (reroute_queued queued f) (\<lambda>(routed, unresolved, f).
    Inr (actions @ routed @ drop_queued_packets unresolved DR_LinkDown, f)))"

definition handle_link_down :: "mono_time \<Rightarrow> link_id \<Rightarrow> forwarder \<Rightarrow> (forward_action list \<times> forwarder) res" where
  "handle_link_down now link f =
    (let f = f\<lparr>fw_down_links := bs_insert link (fw_down_links f)\<rparr> in
     case bt_get (fw_links f) link of
       None \<Rightarrow> Inr ([], f)
     | Some st \<Rightarrow>
         let f = f\<lparr>fw_links := bt_remove link (fw_links f)\<rparr> in
         rbind (park_p0 now (lq_queues st 0) f) (\<lambda>(actions, f).
         rbind (rfold reroute_p2 (lq_queues st 2) (actions @ drop_queued_packets (lq_queues st 1) DR_LinkDown, f)) (\<lambda>(actions, f).
         Inr (actions @ drop_queued_packets (lq_queues st 3) DR_LinkDown, f))))"

definition retry_packet ::
  "queued_packet \<Rightarrow> forward_action list \<times> queued_packet list \<times> forwarder \<Rightarrow>
    (forward_action list \<times> queued_packet list \<times> forwarder) res" where
  "retry_packet queued = (\<lambda>(actions, remaining, f).
    rbind (reroute_queued queued f) (\<lambda>(routed, unresolved, f).
    Inr (actions @ routed, remaining @ unresolved, f)))"

definition retry_batch ::
  "mono_time \<Rightarrow> u64 \<times> pending_p0_batch \<Rightarrow> forward_action list \<times> forwarder \<Rightarrow>
    (forward_action list \<times> forwarder) res" where
  "retry_batch now = (\<lambda>(generation, batch) (actions, f).
    if now \<ge> pb_expires_at batch
    then Inr (actions @ drop_queued_packets (pb_packets batch) RouteWaitExpired, f)
    else rbind (rfold retry_packet (pb_packets batch) (actions, [], f)) (\<lambda>(actions, remaining, f).
      Inr (actions,
           if remaining = [] then f
           else f\<lparr>fw_pending_p0 := bt_insert generation
                     \<lparr>pb_expires_at = pb_expires_at batch, pb_packets = remaining\<rparr> (fw_pending_p0 f)\<rparr>)))"

definition retry_pending_p0 :: "mono_time \<Rightarrow> forwarder \<Rightarrow> (forward_action list \<times> forwarder) res" where
  "retry_pending_p0 now f =
    rfold (retry_batch now) (bt_entries (fw_pending_p0 f)) ([], f\<lparr>fw_pending_p0 := bt_empty\<rparr>)"

definition handle_routes_updated :: "mono_time \<Rightarrow> route_table \<Rightarrow> forwarder \<Rightarrow> (forward_action list \<times> forwarder) res" where
  "handle_routes_updated now routes f =
    (let referenced_links = bs_of_list (map (\<lambda>(_, route). rt_next_hop route) (route_iter routes)) in
     retry_pending_p0 now
       (f\<lparr>fw_routes := routes,
          fw_down_links := bt_retain (\<lambda>link _. bt_contains referenced_links link) (fw_down_links f)\<rparr>))"

definition handle_timer :: "mono_time \<Rightarrow> forward_timer \<Rightarrow> forwarder \<Rightarrow> (forward_action list \<times> forwarder) res" where
  "handle_timer now timer f =
    (case timer of PendingP0 generation \<Rightarrow>
       (case bt_get (fw_pending_p0 f) generation of
          None \<Rightarrow> Inr ([], f)
        | Some batch \<Rightarrow>
            if now < pb_expires_at batch then Inr ([FA_SetTimer timer (pb_expires_at batch)], f)
            else Inr (drop_queued_packets (pb_packets batch) RouteWaitExpired,
                      f\<lparr>fw_pending_p0 := bt_remove generation (fw_pending_p0 f)\<rparr>)))"

fun forward_handle :: "mono_time \<Rightarrow> forward_event \<Rightarrow> forwarder \<Rightarrow> (forward_action list \<times> forwarder) res" where
  "forward_handle now (FE_Outbound packet) f = process_packet None packet f"
| "forward_handle now (FE_OutboundMulticast destinations packet) f = process_outbound_multicast destinations packet f"
| "forward_handle now (FE_Inbound link packet) f = process_packet (Some link) packet f"
| "forward_handle now (FE_RoutesUpdated routes) f = handle_routes_updated now routes f"
| "forward_handle now (FE_LinkCredit link bytes) f = grant_credit link bytes f"
| "forward_handle now (FE_LinkWritable link) f = mark_writable link f"
| "forward_handle now (FE_LinkDown link) f = handle_link_down now link f"
| "forward_handle now (FE_Timer timer) f = handle_timer now timer f"

end
