(* ===== verification/PubSub.thy ===== *)
theory PubSub
  imports Wire "HOL-Library.Option_ord"
begin

text \<open>
  Crate \<open>mb-pubsub\<close>: topics, policies, selectors, the discovery index, the live envelope, the
  receive window and the publish/subscribe component. The protobuf library (\<open>prost\<close>) is a pair of
  functions, an argument of the codec and of the component. Structs that derive \<open>Ord\<close> are
  single-constructor datatypes with the derived lexicographic order.
\<close>

unbundle bit_operations_syntax

section \<open>Topics\<close>

definition ENVELOPE_MAGIC :: bytes where "ENVELOPE_MAGIC = [77, 66, 80, 83]"
definition TOPIC_NAME_LIMIT :: usize where "TOPIC_NAME_LIMIT = 1024"
definition MAX_PARTITION_LEN :: usize where "MAX_PARTITION_LEN = 64 * 1024"
definition MAX_LIVE_ENVELOPE_LEN :: usize where
  "MAX_LIVE_ENVELOPE_LEN = MAX_FORWARD_PAYLOAD_LEN - MULTICAST_COUNT_LEN - NODE_ID_LEN"

lemmas pubsub_consts = TOPIC_NAME_LIMIT_def MAX_PARTITION_LEN_def MAX_LIVE_ENVELOPE_LEN_def
  MULTICAST_COUNT_LEN_def NODE_ID_LEN_def

datatype topic_key = TopicKey (tk_name: string) (tk_partition: bytes)

instantiation topic_key :: linorder
begin
definition less_eq_topic_key :: "topic_key \<Rightarrow> topic_key \<Rightarrow> bool" where
  "less_eq_topic_key a b = ((tk_name a, tk_partition a) \<le> (tk_name b, tk_partition b))"
definition less_topic_key :: "topic_key \<Rightarrow> topic_key \<Rightarrow> bool" where
  "less_topic_key a b = ((tk_name a, tk_partition a) < (tk_name b, tk_partition b))"
instance
  by standard (auto simp: less_eq_topic_key_def less_topic_key_def less_le_not_le intro: topic_key.expand)
end

datatype topic_error = EmptyName | NameTooLong usize | PartitionTooLong usize

definition validate_topic :: "string \<Rightarrow> bytes \<Rightarrow> topic_error + unit" where
  "validate_topic name part =
    (if name = [] then Inl EmptyName
     else if length name > TOPIC_NAME_LIMIT then Inl (NameTooLong (length name))
     else if length part > MAX_PARTITION_LEN then Inl (PartitionTooLong (length part))
     else Inr ())"

definition topic_key_new :: "string \<Rightarrow> bytes \<Rightarrow> topic_error + topic_key" where
  "topic_key_new name part = rbind (validate_topic name part) (\<lambda>_. Inr (TopicKey name part))"

datatype topic_mode = Log | Latest

record topic_policy =
  tp_priority :: priority
  tp_mode :: topic_mode

type_synonym topic_policies = "(string, topic_policy) btree"

definition topic_policies_new :: "(string \<times> topic_policy) list \<Rightarrow> topic_error + topic_policies" where
  "topic_policies_new policies =
    rfold (\<lambda>(name, policy) collected.
      rbind (validate_topic name []) (\<lambda>_. Inr (bt_insert name policy collected))) policies bt_empty"

definition policies_get :: "topic_policies \<Rightarrow> string \<Rightarrow> topic_policy option" where
  "policies_get policies topic_name = bt_get policies topic_name"

type_synonym sub_id = u64

datatype topic_selector = TopicSelector (ts_name: string) (ts_partition: "bytes option")

instantiation topic_selector :: linorder
begin
definition less_eq_topic_selector :: "topic_selector \<Rightarrow> topic_selector \<Rightarrow> bool" where
  "less_eq_topic_selector a b = ((ts_name a, ts_partition a) \<le> (ts_name b, ts_partition b))"
definition less_topic_selector :: "topic_selector \<Rightarrow> topic_selector \<Rightarrow> bool" where
  "less_topic_selector a b = ((ts_name a, ts_partition a) < (ts_name b, ts_partition b))"
instance
  by standard (auto simp: less_eq_topic_selector_def less_topic_selector_def less_le_not_le intro: topic_selector.expand)
end

definition selector_exact :: "topic_key \<Rightarrow> topic_selector" where
  "selector_exact topic = TopicSelector (tk_name topic) (Some (tk_partition topic))"

definition selector_all_partitions :: "string \<Rightarrow> topic_error + topic_selector" where
  "selector_all_partitions name = rbind (validate_topic name []) (\<lambda>_. Inr (TopicSelector name None))"

definition selector_matches :: "topic_selector \<Rightarrow> topic_key \<Rightarrow> bool" where
  "selector_matches selector topic \<longleftrightarrow>
    ts_name selector = tk_name topic \<and>
    (case ts_partition selector of None \<Rightarrow> True | Some part \<Rightarrow> part = tk_partition topic)"

type_synonym discovery_index = "(topic_selector, node_id btset) btree"

definition set_subscribers :: "topic_selector \<Rightarrow> node_id list \<Rightarrow> discovery_index \<Rightarrow> discovery_index" where
  "set_subscribers selector subscribers index = bt_insert selector (bs_of_list subscribers) index"

definition index_subscribers :: "discovery_index \<Rightarrow> topic_key \<Rightarrow> node_id btset" where
  "index_subscribers index topic =
    bs_of_list (concat (map (\<lambda>(_, subscribers). bt_keys subscribers)
      (filter (\<lambda>(selector, _). selector_matches selector topic) (bt_entries index))))"

section \<open>Envelopes\<close>

record envelope =
  en_origin :: node_id
  en_topic :: topic_key
  en_seq :: u64
  en_ts_ms :: u64
  en_payload :: bytes

record wire_envelope =
  we_origin :: bytes
  we_topic :: string
  we_partition :: bytes
  we_seq :: u64
  we_ts_ms :: u64
  we_payload :: bytes

datatype envelope_error =
    NotPubSub
  | Protobuf string
  | InvalidOriginLength usize
  | InvalidSequence
  | InvalidTopic topic_error

text \<open>The encoder and the decoder that the protobuf library derives for \<open>WireEnvelope\<close>; the error
  of the decoder is the text the code reports.\<close>

type_synonym 'm prost_encode = "'m \<Rightarrow> bytes"
type_synonym 'm prost_decode = "bytes \<Rightarrow> string + 'm"

definition is_envelope :: "bytes \<Rightarrow> bool" where
  "is_envelope encoded \<longleftrightarrow> take (length ENVELOPE_MAGIC) encoded = ENVELOPE_MAGIC"

definition envelope_encode :: "wire_envelope prost_encode \<Rightarrow> envelope \<Rightarrow> envelope_error + bytes" where
  "envelope_encode penc e =
    rbind (map_err InvalidTopic (validate_topic (tk_name (en_topic e)) (tk_partition (en_topic e)))) (\<lambda>_.
    if en_seq e = 0 then Inl InvalidSequence
    else Inr (ENVELOPE_MAGIC @ penc
      \<lparr>we_origin = as_bytes (en_origin e), we_topic = tk_name (en_topic e), we_partition = tk_partition (en_topic e),
       we_seq = en_seq e, we_ts_ms = en_ts_ms e, we_payload = en_payload e\<rparr>))"

definition envelope_decode :: "wire_envelope prost_decode \<Rightarrow> bytes \<Rightarrow> envelope_error + envelope" where
  "envelope_decode pdec encoded =
    (if \<not> is_envelope encoded then Inl NotPubSub
     else
       rbind (map_err Protobuf (pdec (drop (length ENVELOPE_MAGIC) encoded))) (\<lambda>wire.
       rbind (if length (we_origin wire) = NODE_ID_LEN then Inr (from_bytes (we_origin wire))
              else Inl (InvalidOriginLength (length (we_origin wire)))) (\<lambda>origin.
       if we_seq wire = 0 then Inl InvalidSequence
       else rbind (map_err InvalidTopic (topic_key_new (we_topic wire) (we_partition wire))) (\<lambda>topic.
         Inr \<lparr>en_origin = origin, en_topic = topic, en_seq = we_seq wire, en_ts_ms = we_ts_ms wire,
              en_payload = we_payload wire\<rparr>))))"

section \<open>Events and actions\<close>

record delivered_message =
  dm_envelope :: envelope
  dm_is_backfill :: bool

datatype pubsub_event =
    PE_LocalPublish topic_key bytes
  | PE_LocalSubscribe sub_id topic_selector
  | PE_LocalUnsubscribe sub_id
  | PE_Inbound node_id bytes
  | PE_DiscoveryUpdated discovery_index

datatype pubsub_reject_reason =
    UnknownTopic string
  | SequenceExhausted topic_key
  | EnvelopeTooLarge usize usize
  | InvalidEnvelope envelope_error
  | SourceMismatch node_id node_id

datatype pubsub_drop_reason = DuplicateOrTooOld node_id topic_key u64

datatype pubsub_action =
    PA_SendMulticast (pa_destinations: "node_id list") (pa_priority: priority) (pa_flow_id: u64)
      (pa_conflate_key: u64) (pa_conflatable: bool) (pa_payload: bytes)
  | PA_DeliverToApp sub_id delivered_message
  | PA_LocalSubscriptionsChanged "topic_selector list"
  | PA_Published topic_key u64
  | PA_Rejected pubsub_reject_reason
  | PA_Dropped pubsub_drop_reason

section \<open>The receive window\<close>

record receive_window =
  rw_highest :: u64
  rw_bitmap :: u64

definition window_first :: "u64 \<Rightarrow> receive_window" where
  "window_first seq = \<lparr>rw_highest = seq, rw_bitmap = 1\<rparr>"

definition window_accept :: "u64 \<Rightarrow> receive_window \<Rightarrow> bool \<times> receive_window" where
  "window_accept seq w =
    (if seq > rw_highest w
     then let shift = seq - rw_highest w in
       (True, w\<lparr>rw_bitmap := (if shift \<ge> 64 then 1 else push_bit (unat shift) (rw_bitmap w) OR 1), rw_highest := seq\<rparr>)
     else let age = rw_highest w - seq in
       if age \<ge> 64 then (False, w)
       else let b = push_bit (unat age) 1 in
         if rw_bitmap w AND b \<noteq> 0 then (False, w)
         else (True, w\<lparr>rw_bitmap := rw_bitmap w OR b\<rparr>))"

section \<open>The component\<close>

record pubsub =
  ps_me :: node_id
  ps_policies :: topic_policies
  ps_local_subscriptions :: "(sub_id, topic_selector) btree"
  ps_discovery :: discovery_index
  ps_next_sequences :: "(topic_key, u64) btree"
  ps_received :: "(node_id \<times> topic_key, receive_window) btree"

definition pubsub_new :: "node_id \<Rightarrow> topic_policies \<Rightarrow> pubsub" where
  "pubsub_new me policies =
    \<lparr>ps_me = me, ps_policies = policies, ps_local_subscriptions = bt_empty, ps_discovery = bt_empty,
     ps_next_sequences = bt_empty, ps_received = bt_empty\<rparr>"

definition effective_subscriptions :: "pubsub \<Rightarrow> topic_selector btset" where
  "effective_subscriptions s = bs_of_list (bt_values (ps_local_subscriptions s))"

definition subscription_change :: "topic_selector btset \<Rightarrow> pubsub \<Rightarrow> pubsub_action list" where
  "subscription_change previous s =
    (let current = effective_subscriptions s in
     if current = previous then [] else [PA_LocalSubscriptionsChanged (bt_keys current)])"

definition hash_byte :: "u8 \<Rightarrow> u64 \<Rightarrow> u64" where
  "hash_byte byte hash = (hash XOR ucast byte) * 1099511628211"

definition stable_hash :: "bytes list \<Rightarrow> u64" where
  "stable_hash parts =
    fold (\<lambda>part hash. (fold hash_byte part hash XOR 255) * 1099511628211) parts 14695981039346656037"

text \<open>\<open>str::as_bytes\<close>: a character of the model is a byte of the UTF-8 text.\<close>

definition str_bytes :: "string \<Rightarrow> bytes" where
  "str_bytes name = map of_char name"

text \<open>\<open>slice::chunks\<close>, which panics when the size is zero, and checked subtraction of \<open>usize\<close>.\<close>

function chunk_list :: "nat \<Rightarrow> 'a list \<Rightarrow> 'a list list" where
  "chunk_list n xs = (if xs = [] \<or> n = 0 then [] else take n xs # chunk_list n (drop n xs))"
  by pat_completeness auto
termination by (relation "measure (\<lambda>(n, xs). length xs)") auto

declare chunk_list.simps [simp del]

definition chunks :: "usize \<Rightarrow> 'a list \<Rightarrow> 'a list list res" where
  "chunks n xs = (if n = 0 then Inl (Expect ''chunk size must be non-zero'') else Inr (chunk_list n xs))"

definition usize_minus :: "usize \<Rightarrow> usize \<Rightarrow> usize res" where
  "usize_minus a b = (if b \<le> a then Inr (a - b) else Inl (Overflow ''usize''))"

text \<open>A window is created by the first sequence number and consulted by the later ones.\<close>

definition record_seq :: "node_id \<times> topic_key \<Rightarrow> u64 \<Rightarrow> pubsub \<Rightarrow> bool \<times> pubsub" where
  "record_seq key seq s =
    (case bt_get (ps_received s) key of
       Some window \<Rightarrow>
         let (accepted, window) = window_accept seq window in
         (accepted, s\<lparr>ps_received := bt_insert key window (ps_received s)\<rparr>)
     | None \<Rightarrow> (True, s\<lparr>ps_received := bt_insert key (window_first seq) (ps_received s)\<rparr>))"

definition destination_chunk_limit :: "usize \<Rightarrow> usize res" where
  "destination_chunk_limit len =
    rbind (usize_minus MAX_FORWARD_PAYLOAD_LEN len) (\<lambda>room.
    rbind (usize_minus room MULTICAST_COUNT_LEN) (\<lambda>room.
    Inr (min MAX_MULTICAST_DESTINATIONS (room div NODE_ID_LEN))))"

definition publish ::
  "wire_envelope prost_encode \<Rightarrow> mono_time \<Rightarrow> topic_key \<Rightarrow> bytes \<Rightarrow> pubsub \<Rightarrow> (pubsub_action list \<times> pubsub) res" where
  "publish penc now topic payload s =
    (case policies_get (ps_policies s) (tk_name topic) of
       None \<Rightarrow> Inr ([PA_Rejected (UnknownTopic (tk_name topic))], s)
     | Some policy \<Rightarrow>
         let sequence = (case bt_get (ps_next_sequences s) topic of None \<Rightarrow> 0 | Some n \<Rightarrow> n);
             s = s\<lparr>ps_next_sequences := bt_insert topic sequence (ps_next_sequences s)\<rparr>
         in case checked_add sequence 1 of
           None \<Rightarrow> Inr ([PA_Rejected (SequenceExhausted topic)], s)
         | Some seq \<Rightarrow>
             (case envelope_encode penc \<lparr>en_origin = ps_me s, en_topic = topic, en_seq = seq, en_ts_ms = now, en_payload = payload\<rparr> of
                Inl _ \<Rightarrow> Inl (Expect ''validated in-memory topic and non-zero sequence must encode'')
              | Inr encoded \<Rightarrow>
                  if length encoded > MAX_LIVE_ENVELOPE_LEN
                  then Inr ([PA_Rejected (EnvelopeTooLarge (length encoded) MAX_LIVE_ENVELOPE_LEN)], s)
                  else
                    (let s = s\<lparr>ps_next_sequences := bt_insert topic seq (ps_next_sequences s)\<rparr>;
                         (accepted, s) = record_seq (ps_me s, topic) seq s
                     in if \<not> accepted then Inl (Expect ''a new local sequence must advance its receive window'')
                        else
                          (let destinations = bt_remove (ps_me s) (index_subscribers (ps_discovery s) topic);
                               flow_id = stable_hash [str_bytes (tk_name topic), tk_partition topic];
                               conflate_key = stable_hash [as_bytes (ps_me s), tk_partition topic]
                           in rbind (destination_chunk_limit (length encoded)) (\<lambda>limit.
                              rbind (chunks limit (bt_keys destinations)) (\<lambda>cs.
                              Inr (map (\<lambda>chunk. PA_SendMulticast chunk (tp_priority policy) flow_id conflate_key
                                     (tp_mode policy = Latest \<and> tp_priority policy = P1) encoded) cs @
                                   [PA_Published topic seq], s)))))))"

definition local_deliveries :: "envelope \<Rightarrow> pubsub \<Rightarrow> pubsub_action list" where
  "local_deliveries e s =
    map (\<lambda>(sub, _). PA_DeliverToApp sub \<lparr>dm_envelope = e, dm_is_backfill = False\<rparr>)
      (filter (\<lambda>(_, selector). selector_matches selector (en_topic e)) (bt_entries (ps_local_subscriptions s)))"

definition receive :: "wire_envelope prost_decode \<Rightarrow> node_id \<Rightarrow> bytes \<Rightarrow> pubsub \<Rightarrow> pubsub_action list \<times> pubsub" where
  "receive pdec source payload s =
    (case envelope_decode pdec payload of
       Inl error \<Rightarrow> ([PA_Rejected (InvalidEnvelope error)], s)
     | Inr e \<Rightarrow>
         if en_origin e \<noteq> source then ([PA_Rejected (SourceMismatch source (en_origin e))], s)
         else if policies_get (ps_policies s) (tk_name (en_topic e)) = None
         then ([PA_Rejected (UnknownTopic (tk_name (en_topic e)))], s)
         else
           (let (accepted, s) = record_seq (en_origin e, en_topic e) (en_seq e) s in
            if \<not> accepted then ([PA_Dropped (DuplicateOrTooOld (en_origin e) (en_topic e) (en_seq e))], s)
            else (local_deliveries e s, s)))"

definition local_subscribe :: "sub_id \<Rightarrow> topic_selector \<Rightarrow> pubsub \<Rightarrow> pubsub_action list \<times> pubsub" where
  "local_subscribe sub selector s =
    (let previous = effective_subscriptions s;
         s = s\<lparr>ps_local_subscriptions := bt_insert sub selector (ps_local_subscriptions s)\<rparr>
     in (subscription_change previous s, s))"

definition local_unsubscribe :: "sub_id \<Rightarrow> pubsub \<Rightarrow> pubsub_action list \<times> pubsub" where
  "local_unsubscribe sub s =
    (let previous = effective_subscriptions s;
         s = s\<lparr>ps_local_subscriptions := bt_remove sub (ps_local_subscriptions s)\<rparr>
     in (subscription_change previous s, s))"

fun pubsub_handle ::
  "wire_envelope prost_encode \<Rightarrow> wire_envelope prost_decode \<Rightarrow> mono_time \<Rightarrow> pubsub_event \<Rightarrow> pubsub \<Rightarrow>
    (pubsub_action list \<times> pubsub) res" where
  "pubsub_handle penc pdec now (PE_LocalPublish topic payload) s = publish penc now topic payload s"
| "pubsub_handle penc pdec now (PE_LocalSubscribe sub selector) s = Inr (local_subscribe sub selector s)"
| "pubsub_handle penc pdec now (PE_LocalUnsubscribe sub) s = Inr (local_unsubscribe sub s)"
| "pubsub_handle penc pdec now (PE_Inbound source payload) s = Inr (receive pdec source payload s)"
| "pubsub_handle penc pdec now (PE_DiscoveryUpdated discovery) s = Inr ([], s\<lparr>ps_discovery := discovery\<rparr>)"

end
