(* ===== verification/Transport.thy ===== *)
theory Transport
  imports Wire
begin

text \<open>
  Crate \<open>mb-transport\<close>: the handshake, the registry of links and the worker of a link. Sockets, tasks and
  channels are the environment: what a read returns, whether a write succeeds and whether the receiver
  of the events is alive are arguments; the bytes written and the events sent are results. The
  \<open>select!\<close> of the worker is the sequence of the inputs it picked.
\<close>

section \<open>Data\<close>

datatype link_event =
    LE_Up link_id node_id
  | LE_Down link_id
  | LE_Frame link_id wire_frame
  | LE_Sent link_id frame_type channel usize

datatype transport_error =
    TE_Io string
  | TE_Wire frame_error
  | TE_Protobuf string
  | TE_UnexpectedEndOfStream
  | TE_ExpectedLinkHello
  | TE_UnsupportedProtocolVersion u32
  | TE_InvalidNodeIdLength usize
  | TE_PeerMismatch node_id node_id
  | TE_PeerNotAllowed node_id
  | TE_LinkIdExhausted
  | TE_UnknownLink link_id
  | TE_LinkClosed link_id

datatype link_command = LC_Send wire_frame | LC_Close

record link_hello =
  hello_node_id :: bytes
  hello_protocol_version :: u32

text \<open>One completed \<open>read_buf\<close>: some bytes, the end of the stream, or an error.\<close>

datatype stream_read = Rd_Bytes bytes | Rd_Eof | Rd_Err string

section \<open>The handshake\<close>

definition node_id_from_bytes :: "bytes \<Rightarrow> transport_error + node_id" where
  "node_id_from_bytes bs =
    (if length bs = NODE_ID_LEN then Inr (from_bytes bs) else Inl (TE_InvalidNodeIdLength (length bs)))"

definition own_hello :: "node_id \<Rightarrow> link_hello" where
  "own_hello local_node = \<lparr>hello_node_id = as_bytes local_node, hello_protocol_version = ucast FRAME_VERSION\<rparr>"

definition hello_bytes :: "(link_hello \<Rightarrow> bytes) \<Rightarrow> node_id \<Rightarrow> transport_error + bytes" where
  "hello_bytes enc local_node =
    map_err TE_Wire (frame_encode (frame_control FT_LinkHello (enc (own_hello local_node))))"

definition check_hello :: "(bytes \<Rightarrow> string + link_hello) \<Rightarrow> wire_frame \<Rightarrow> transport_error + node_id" where
  "check_hello dec frame =
    (if wf_type frame \<noteq> FT_LinkHello \<or> wf_channel frame \<noteq> Ch_Control then Inl TE_ExpectedLinkHello
     else rbind (map_err TE_Protobuf (dec (wf_payload frame))) (\<lambda>hello.
       if hello_protocol_version hello \<noteq> ucast FRAME_VERSION
       then Inl (TE_UnsupportedProtocolVersion (hello_protocol_version hello))
       else node_id_from_bytes (hello_node_id hello)))"

text \<open>The loop that collects the first frame; \<open>None\<close> while the stream has not said enough.\<close>

fun first_frame :: "stream_read list \<Rightarrow> bytes \<Rightarrow> (transport_error + wire_frame \<times> bytes) option" where
  "first_frame reads buffered =
    (case frame_decode buffered of
       Inl e \<Rightarrow> Some (Inl (TE_Wire e))
     | Inr (Some frame, rest) \<Rightarrow> Some (Inr (frame, rest))
     | Inr (None, buffered) \<Rightarrow>
         (case reads of
            [] \<Rightarrow> None
          | Rd_Err e # _ \<Rightarrow> Some (Inl (TE_Io e))
          | Rd_Eof # _ \<Rightarrow> Some (Inl TE_UnexpectedEndOfStream)
          | Rd_Bytes bs # reads \<Rightarrow> first_frame reads (buffered @ bs)))"

declare first_frame.simps [simp del]

definition exchange_hello ::
  "(link_hello \<Rightarrow> bytes) \<Rightarrow> (bytes \<Rightarrow> string + link_hello) \<Rightarrow> string + unit \<Rightarrow> stream_read list \<Rightarrow> node_id \<Rightarrow>
    (transport_error + node_id \<times> bytes) option" where
  "exchange_hello enc dec written reads local_node =
    (case rbind (hello_bytes enc local_node) (\<lambda>_. map_err TE_Io written) of
       Inl e \<Rightarrow> Some (Inl e)
     | Inr _ \<Rightarrow>
         map_option (\<lambda>r. rbind r (\<lambda>(frame, buffered). rbind (check_hello dec frame) (\<lambda>peer. Inr (peer, buffered))))
           (first_frame reads []))"

section \<open>The registry of links\<close>

record command_channel =
  ch_queue :: "link_command list"
  ch_open :: bool

record endpoint =
  ep_local_node :: node_id
  ep_allowed_peers :: "node_id btset"
  ep_next_link :: u64
  ep_links :: "(link_id, command_channel) btree"
  ep_link_count :: usize
  ep_shutdown :: bool

definition endpoint_bind :: "node_id \<Rightarrow> node_id list \<Rightarrow> endpoint" where
  "endpoint_bind local_node allowed_peers =
    \<lparr>ep_local_node = local_node, ep_allowed_peers = bs_of_list allowed_peers, ep_next_link = 1,
     ep_links = bt_empty, ep_link_count = 0, ep_shutdown = False\<rparr>"

definition endpoint_allow_peer :: "node_id \<Rightarrow> endpoint \<Rightarrow> endpoint" where
  "endpoint_allow_peer peer ep = ep\<lparr>ep_allowed_peers := bs_insert peer (ep_allowed_peers ep)\<rparr>"

definition put_links :: "(link_id, command_channel) btree \<Rightarrow> endpoint \<Rightarrow> endpoint" where
  "put_links links ep = ep\<lparr>ep_links := links, ep_link_count := bt_len links\<rparr>"

definition remove_link :: "link_id \<Rightarrow> endpoint \<Rightarrow> endpoint" where
  "remove_link link ep = put_links (bt_remove link (ep_links ep)) ep"

definition attach_peer ::
  "bool \<Rightarrow> node_id option \<Rightarrow> node_id \<Rightarrow> endpoint \<Rightarrow> (transport_error + link_id) \<times> link_event list \<times> endpoint" where
  "attach_peer events_alive expected_peer peer ep =
    (if (case expected_peer of None \<Rightarrow> False | Some expected \<Rightarrow> peer \<noteq> expected)
     then (Inl (TE_PeerMismatch (the expected_peer) peer), [], ep)
     else if \<not> bt_contains (ep_allowed_peers ep) peer then (Inl (TE_PeerNotAllowed peer), [], ep)
     else case checked_add (ep_next_link ep) 1 of
       None \<Rightarrow> (Inl TE_LinkIdExhausted, [], ep)
     | Some next_link \<Rightarrow>
         let link = ep_next_link ep;
             ep = put_links (bt_insert link \<lparr>ch_queue = [], ch_open = True\<rparr> (ep_links ep)) (ep\<lparr>ep_next_link := next_link\<rparr>)
         in if events_alive then (Inr link, [LE_Up link peer], ep)
            else (Inl (TE_LinkClosed link), [], remove_link link ep))"

definition attach_stream ::
  "(link_hello \<Rightarrow> bytes) \<Rightarrow> (bytes \<Rightarrow> string + link_hello) \<Rightarrow> string + unit \<Rightarrow> stream_read list \<Rightarrow> bool \<Rightarrow> node_id option \<Rightarrow>
    endpoint \<Rightarrow> ((transport_error + link_id \<times> bytes) \<times> link_event list \<times> endpoint) option" where
  "attach_stream enc dec written reads events_alive expected_peer ep =
    map_option (\<lambda>r. case r of
        Inl e \<Rightarrow> (Inl e, [], ep)
      | Inr (peer, buffered) \<Rightarrow>
          (case attach_peer events_alive expected_peer peer ep of (r, events, ep) \<Rightarrow>
            (rbind r (\<lambda>link. Inr (link, buffered)), events, ep)))
      (exchange_hello enc dec written reads (ep_local_node ep))"

definition connect_allowed :: "node_id \<Rightarrow> endpoint \<Rightarrow> transport_error + unit" where
  "connect_allowed expected_peer ep =
    (if bt_contains (ep_allowed_peers ep) expected_peer then Inr () else Inl (TE_PeerNotAllowed expected_peer))"

definition send_command :: "link_id \<Rightarrow> link_command \<Rightarrow> endpoint \<Rightarrow> (transport_error + unit) \<times> endpoint" where
  "send_command link command ep =
    (case bt_get (ep_links ep) link of
       None \<Rightarrow> (Inl (TE_UnknownLink link), ep)
     | Some ch \<Rightarrow>
         if ch_open ch
         then (Inr (), ep\<lparr>ep_links := bt_insert link (ch\<lparr>ch_queue := ch_queue ch @ [command]\<rparr>) (ep_links ep)\<rparr>)
         else (Inl (TE_LinkClosed link), ep))"

definition endpoint_send :: "link_id \<Rightarrow> wire_frame \<Rightarrow> endpoint \<Rightarrow> (transport_error + unit) \<times> endpoint" where
  "endpoint_send link frame ep = send_command link (LC_Send frame) ep"

definition endpoint_close :: "link_id \<Rightarrow> endpoint \<Rightarrow> (transport_error + unit) \<times> endpoint" where
  "endpoint_close link ep = send_command link LC_Close ep"

definition endpoint_shutdown :: "endpoint \<Rightarrow> endpoint" where
  "endpoint_shutdown ep = (put_links bt_empty ep)\<lparr>ep_shutdown := True\<rparr>"

section \<open>The worker of a link\<close>

lemma frame_decode_consumes: "frame_decode src = Inr (Some f, rest) \<Longrightarrow> length rest < length src"
  by (auto dest!: frame_decode_sound simp: frame_encode_Inr_iff frame_header_def)

text \<open>The inner loop: every complete frame of the buffer becomes an event; an undecodable buffer, or nobody
  listening, ends the connection.\<close>

function drain_frames :: "bool \<Rightarrow> link_id \<Rightarrow> bytes \<Rightarrow> link_event list \<times> bytes \<times> bool" where
  "drain_frames events_alive link buffered =
    (case frame_decode buffered of
       Inl _ \<Rightarrow> ([], buffered, False)
     | Inr (None, buffered) \<Rightarrow> ([], buffered, True)
     | Inr (Some frame, rest) \<Rightarrow>
         if \<not> events_alive then ([], rest, False)
         else (case drain_frames events_alive link rest of
             (events, buffered, running) \<Rightarrow> (LE_Frame link frame # events, buffered, running)))"
  by pat_completeness auto
termination
  by (relation "measure (\<lambda>(_, _, buffered). length buffered)") (auto simp: frame_decode_consumes)

declare drain_frames.simps [simp del]

record link_worker =
  lw_link :: link_id
  lw_buffered :: bytes
  lw_running :: bool

datatype worker_input =
    WI_Shutdown
  | WI_Command "link_command option"
  | WI_Read stream_read

definition worker_drain :: "bool \<Rightarrow> link_worker \<Rightarrow> link_event list \<times> link_worker" where
  "worker_drain events_alive w =
    (case drain_frames events_alive (lw_link w) (lw_buffered w) of
       (events, buffered, running) \<Rightarrow> (events, w\<lparr>lw_buffered := buffered, lw_running := running\<rparr>))"

definition worker_stop :: "link_worker \<Rightarrow> link_worker" where
  "worker_stop w = w\<lparr>lw_running := False\<rparr>"

text \<open>One arm of the \<open>select!\<close>: the bytes written, the events sent, and the worker.\<close>

fun worker_select ::
  "bool \<Rightarrow> bool \<Rightarrow> worker_input \<Rightarrow> link_worker \<Rightarrow> bytes \<times> link_event list \<times> link_worker" where
  "worker_select events_alive write_ok WI_Shutdown w = ([], [], worker_stop w)"
| "worker_select events_alive write_ok (WI_Command (Some (LC_Send frame))) w =
    (case frame_encode frame of
       Inl _ \<Rightarrow> ([], [], worker_stop w)
     | Inr encoded \<Rightarrow>
         if \<not> write_ok then ([], [], worker_stop w)
         else if \<not> events_alive then (encoded, [], worker_stop w)
         else (encoded, [LE_Sent (lw_link w) (wf_type frame) (wf_channel frame) (length (wf_payload frame))], w))"
| "worker_select events_alive write_ok (WI_Command (Some LC_Close)) w = ([], [], worker_stop w)"
| "worker_select events_alive write_ok (WI_Command None) w = ([], [], worker_stop w)"
| "worker_select events_alive write_ok (WI_Read (Rd_Bytes bs)) w =
    (if bs = [] then ([], [], worker_stop w) else ([], [], w\<lparr>lw_buffered := lw_buffered w @ bs\<rparr>))"
| "worker_select events_alive write_ok (WI_Read Rd_Eof) w = ([], [], worker_stop w)"
| "worker_select events_alive write_ok (WI_Read (Rd_Err e)) w = ([], [], worker_stop w)"

definition down_event :: "bool \<Rightarrow> link_worker \<Rightarrow> link_event list" where
  "down_event events_alive w = (if events_alive then [LE_Down (lw_link w)] else [])"

text \<open>The outer loop, from the point where it drains the buffer, over the inputs the worker picks; when it
  leaves the loop it reports the link down.\<close>

fun run_link :: "bool \<Rightarrow> bool \<Rightarrow> worker_input list \<Rightarrow> link_worker \<Rightarrow> bytes \<times> link_event list \<times> link_worker" where
  "run_link events_alive write_ok inputs w =
    (case worker_drain events_alive w of
       (events, w) \<Rightarrow>
         if \<not> lw_running w then ([], events @ down_event events_alive w, w)
         else (case inputs of
           [] \<Rightarrow> ([], events, w)
         | i # inputs \<Rightarrow>
             (case worker_select events_alive write_ok i w of
                (written, selected, w) \<Rightarrow>
                  if \<not> lw_running w then (written, events @ selected @ down_event events_alive w, w)
                  else (case run_link events_alive write_ok inputs w of
                    (more_written, more_events, w) \<Rightarrow> (written @ more_written, events @ selected @ more_events, w)))))"

declare run_link.simps [simp del]

text \<open>The task of a link: the loop, and once it has ended the removal from the registry.\<close>

definition link_task ::
  "bool \<Rightarrow> bool \<Rightarrow> worker_input list \<Rightarrow> link_worker \<Rightarrow> endpoint \<Rightarrow> bytes \<times> link_event list \<times> link_worker \<times> endpoint" where
  "link_task events_alive write_ok inputs w ep =
    (case run_link events_alive write_ok inputs w of
       (written, events, w) \<Rightarrow> (written, events, w, if lw_running w then ep else remove_link (lw_link w) ep))"

end
