(* ===== verification/RuntimeCodec.thy ===== *)
theory RuntimeCodec
  imports Forward PubSub Transport
begin

text \<open>
  Crate \<open>mb-runtime\<close>, translation between frames of a link and the events of the planes: control frames
  through protobuf messages, forwarded packets by channel and priority, and topic advertisements into
  the discovery index. The protobuf messages are those of \<open>control.proto\<close>; the functions that the
  library derives for them are the fields of a record, an argument of the codec.
\<close>

section \<open>Messages of \<open>control.proto\<close>\<close>

record proto_adjacency =
  pa_peer :: bytes
  pa_cost :: u32

record proto_topic_ad =
  pt_topic :: string
  pt_partition :: bytes
  pt_role :: u32
  pt_head_seq :: u64
  pt_tail_seq :: u64

record proto_lsa =
  pl_origin :: bytes
  pl_seq :: u64
  pl_ttl_sec :: u32
  pl_adjacencies :: "proto_adjacency list"
  pl_topics :: "proto_topic_ad list"
  pl_epoch :: u32

record proto_signed_lsa =
  pg_lsa_bytes :: bytes
  pg_signature :: bytes

record proto_digest_entry =
  pd_origin :: bytes
  pd_epoch :: u32
  pd_seq :: u64

record prost =
  enc_lsa :: "proto_lsa \<Rightarrow> bytes"
  dec_lsa :: "bytes \<Rightarrow> string + proto_lsa"
  enc_signed :: "proto_signed_lsa \<Rightarrow> bytes"
  dec_signed :: "bytes \<Rightarrow> string + proto_signed_lsa"
  enc_digest :: "proto_digest_entry list \<Rightarrow> bytes"
  dec_digest :: "bytes \<Rightarrow> string + proto_digest_entry list"
  enc_digest_req :: "bytes list \<Rightarrow> bytes"
  dec_digest_req :: "bytes \<Rightarrow> string + bytes list"

section \<open>Errors\<close>

datatype runtime_error =
    RE_EndpointNodeMismatch node_id node_id
  | RE_UnexpectedFrame frame_type channel
  | RE_Protobuf string
  | RE_InvalidNodeIdLength usize
  | RE_InvalidLinkCost u32
  | RE_InvalidLsaTtl u32
  | RE_InvalidTopicName
  | RE_InvalidTopicRole u32
  | RE_TopicNameTooLong usize
  | RE_TopicPartitionTooLong usize
  | RE_DuplicateTopicAd
  | RE_TooManyElements string usize usize
  | RE_SequenceExhausted
  | RE_ForwardPacket forward_packet_error
  | RE_RuntimeStopped
  | RE_SeqStore string
  | RE_Transport transport_error

definition ensure_limit :: "string \<Rightarrow> usize \<Rightarrow> usize \<Rightarrow> runtime_error + unit" where
  "ensure_limit field cnt limit = (if cnt > limit then Inl (RE_TooManyElements field cnt limit) else Inr ())"

definition decode_node_id :: "bytes \<Rightarrow> runtime_error + node_id" where
  "decode_node_id bs =
    (if length bs = NODE_ID_LEN then Inr (from_bytes bs) else Inl (RE_InvalidNodeIdLength (length bs)))"

definition validate_topic_ad :: "string \<Rightarrow> bytes \<Rightarrow> u32 \<Rightarrow> runtime_error + topic_roles" where
  "validate_topic_ad topic part raw_roles =
    (if topic = [] then Inl RE_InvalidTopicName
     else if length topic > MAX_TOPIC_NAME_LEN then Inl (RE_TopicNameTooLong (length topic))
     else if length part > MAX_TOPIC_PARTITION_LEN then Inl (RE_TopicPartitionTooLong (length part))
     else if unat raw_roles > 255 then Inl (RE_InvalidTopicRole raw_roles)
     else case roles_from_bits (ucast raw_roles) of
       None \<Rightarrow> Inl (RE_InvalidTopicRole raw_roles)
     | Some roles \<Rightarrow> Inr roles)"

section \<open>LSAs\<close>

definition proto_of_adjacency :: "adjacency \<Rightarrow> proto_adjacency" where
  "proto_of_adjacency a = \<lparr>pa_peer = as_bytes (adj_peer a), pa_cost = ucast (adj_cost a)\<rparr>"

definition proto_of_topic_ad :: "topic_ad \<Rightarrow> proto_topic_ad" where
  "proto_of_topic_ad ad =
    \<lparr>pt_topic = ta_topic ad, pt_partition = ta_partition ad, pt_role = ucast (ta_roles ad),
     pt_head_seq = ta_head_seq ad, pt_tail_seq = ta_tail_seq ad\<rparr>"

definition proto_of_lsa :: "lsa \<Rightarrow> proto_lsa" where
  "proto_of_lsa l =
    \<lparr>pl_origin = as_bytes (lsa_origin l), pl_seq = lsa_seq l, pl_ttl_sec = lsa_ttl_sec l,
     pl_adjacencies = map proto_of_adjacency (lsa_adjacencies l),
     pl_topics = map proto_of_topic_ad (lsa_topics l), pl_epoch = lsa_epoch l\<rparr>"

definition encode_lsa :: "prost \<Rightarrow> lsa \<Rightarrow> bytes" where
  "encode_lsa P l = enc_lsa P (proto_of_lsa l)"

definition decode_adjacency :: "proto_adjacency \<Rightarrow> runtime_error + adjacency" where
  "decode_adjacency a =
    rbind (decode_node_id (pa_peer a)) (\<lambda>peer.
    rbind (if unat (pa_cost a) > 65535 then Inl (RE_InvalidLinkCost (pa_cost a)) else Inr (ucast (pa_cost a))) (\<lambda>raw_cost.
    rbind (map_err (\<lambda>_. RE_InvalidLinkCost (pa_cost a)) (link_cost_new raw_cost)) (\<lambda>cost.
    Inr \<lparr>adj_peer = peer, adj_cost = cost\<rparr>)))"

definition decode_topic_ad :: "proto_topic_ad \<Rightarrow> runtime_error + topic_ad" where
  "decode_topic_ad ad =
    rbind (validate_topic_ad (pt_topic ad) (pt_partition ad) (pt_role ad)) (\<lambda>roles.
    Inr (TopicAd (pt_topic ad) (pt_partition ad) roles (pt_head_seq ad) (pt_tail_seq ad)))"

definition decode_lsa :: "proto_lsa \<Rightarrow> runtime_error + lsa" where
  "decode_lsa w =
    rbind (decode_node_id (pl_origin w)) (\<lambda>origin.
    if \<not> (1 \<le> pl_ttl_sec w \<and> pl_ttl_sec w \<le> MAX_LSA_TTL_SEC) then Inl (RE_InvalidLsaTtl (pl_ttl_sec w))
    else
      rbind (ensure_limit ''Lsa.adjacencies'' (length (pl_adjacencies w)) MAX_LSA_ADJACENCIES) (\<lambda>_.
      rbind (ensure_limit ''Lsa.topics'' (length (pl_topics w)) MAX_LSA_TOPIC_ADS) (\<lambda>_.
      rbind (rmap decode_adjacency (pl_adjacencies w)) (\<lambda>adjacencies.
      rbind (rmap decode_topic_ad (pl_topics w)) (\<lambda>topics.
      if bt_len (bs_of_list (map (\<lambda>ad. (ta_topic ad, ta_partition ad)) topics)) \<noteq> length topics then Inl RE_DuplicateTopicAd
      else Inr \<lparr>lsa_origin = origin, lsa_epoch = pl_epoch w, lsa_seq = pl_seq w, lsa_ttl_sec = pl_ttl_sec w,
                lsa_adjacencies = adjacencies, lsa_topics = topics\<rparr>)))))"

section \<open>Control frames\<close>

definition check_topic_ad :: "topic_ad \<Rightarrow> (string \<times> bytes) btset \<Rightarrow> runtime_error + (string \<times> bytes) btset" where
  "check_topic_ad ad unique_topics =
    rbind (validate_topic_ad (ta_topic ad) (ta_partition ad) (ucast (ta_roles ad))) (\<lambda>_.
    if bt_contains unique_topics (ta_topic ad, ta_partition ad) then Inl RE_DuplicateTopicAd
    else Inr (bs_insert (ta_topic ad, ta_partition ad) unique_topics))"

fun encode_control_frame :: "prost \<Rightarrow> control_frame \<Rightarrow> runtime_error + wire_frame" where
  "encode_control_frame P (CF_Lsa message) =
    (let l = msg_lsa message in
     if \<not> (1 \<le> lsa_ttl_sec l \<and> lsa_ttl_sec l \<le> MAX_LSA_TTL_SEC) then Inl (RE_InvalidLsaTtl (lsa_ttl_sec l))
     else
       rbind (ensure_limit ''Lsa.adjacencies'' (length (lsa_adjacencies l)) MAX_LSA_ADJACENCIES) (\<lambda>_.
       rbind (ensure_limit ''Lsa.topics'' (length (lsa_topics l)) MAX_LSA_TOPIC_ADS) (\<lambda>_.
       rbind (rfold check_topic_ad (lsa_topics l) bt_empty) (\<lambda>_.
       let lsa_bytes = (if msg_canonical_bytes message = [] then encode_lsa P l else msg_canonical_bytes message)
       in Inr (frame_control FT_Lsa (enc_signed P \<lparr>pg_lsa_bytes = lsa_bytes, pg_signature = msg_signature message\<rparr>))))))"
| "encode_control_frame P (CF_Digest entries) =
    rbind (ensure_limit ''Digest.entries'' (length entries) MAX_DIGEST_ENTRIES) (\<lambda>_.
    Inr (frame_control FT_Digest (enc_digest P
      (map (\<lambda>e. \<lparr>pd_origin = as_bytes (de_origin e), pd_epoch = de_epoch e, pd_seq = de_seq e\<rparr>) entries))))"
| "encode_control_frame P (CF_DigestReq origins) =
    rbind (ensure_limit ''DigestReq.origins'' (length origins) MAX_DIGEST_REQ_ORIGINS) (\<lambda>_.
    Inr (frame_control FT_DigestReq (enc_digest_req P (map as_bytes origins))))"

definition decode_digest_entry :: "proto_digest_entry \<Rightarrow> runtime_error + digest_entry" where
  "decode_digest_entry e =
    rbind (decode_node_id (pd_origin e)) (\<lambda>origin. Inr \<lparr>de_origin = origin, de_epoch = pd_epoch e, de_seq = pd_seq e\<rparr>)"

definition decode_control_frame :: "prost \<Rightarrow> wire_frame \<Rightarrow> runtime_error + control_frame" where
  "decode_control_frame P frame =
    (if wf_channel frame \<noteq> Ch_Control then Inl (RE_UnexpectedFrame (wf_type frame) (wf_channel frame))
     else case wf_type frame of
       FT_Lsa \<Rightarrow>
         rbind (map_err RE_Protobuf (dec_signed P (wf_payload frame))) (\<lambda>signed.
         rbind (map_err RE_Protobuf (dec_lsa P (pg_lsa_bytes signed))) (\<lambda>wire_lsa.
         rbind (decode_lsa wire_lsa) (\<lambda>l.
         Inr (CF_Lsa \<lparr>msg_lsa = l, msg_canonical_bytes = pg_lsa_bytes signed, msg_signature = pg_signature signed\<rparr>))))
     | FT_Digest \<Rightarrow>
         rbind (map_err RE_Protobuf (dec_digest P (wf_payload frame))) (\<lambda>entries.
         rbind (ensure_limit ''Digest.entries'' (length entries) MAX_DIGEST_ENTRIES) (\<lambda>_.
         rbind (rmap decode_digest_entry entries) (\<lambda>entries. Inr (CF_Digest entries))))
     | FT_DigestReq \<Rightarrow>
         rbind (map_err RE_Protobuf (dec_digest_req P (wf_payload frame))) (\<lambda>origins.
         rbind (ensure_limit ''DigestReq.origins'' (length origins) MAX_DIGEST_REQ_ORIGINS) (\<lambda>_.
         rbind (rmap decode_node_id origins) (\<lambda>origins. Inr (CF_DigestReq origins))))
     | _ \<Rightarrow> Inl (RE_UnexpectedFrame (wf_type frame) (wf_channel frame)))"

section \<open>Forwarded packets\<close>

fun channel_for_priority :: "priority \<Rightarrow> channel" where
  "channel_for_priority P0 = Ch_PubSubP0"
| "channel_for_priority P1 = Ch_PubSubP1"
| "channel_for_priority P2 = Ch_PubSubP2"
| "channel_for_priority P3 = Ch_PubSubP3"

definition decode_forward_frame :: "wire_frame \<Rightarrow> runtime_error + forward_packet" where
  "decode_forward_frame frame =
    (if wf_type frame \<noteq> FT_Forward then Inl (RE_UnexpectedFrame (wf_type frame) (wf_channel frame))
     else rbind (map_err RE_ForwardPacket (forward_decode (wf_payload frame))) (\<lambda>packet.
       if wf_channel frame \<noteq> channel_for_priority (h_priority (p_header packet))
       then Inl (RE_UnexpectedFrame FT_Forward (wf_channel frame))
       else Inr packet))"

section \<open>Discovery\<close>

definition ad_selector :: "topic_ad \<Rightarrow> topic_selector res" where
  "ad_selector ad =
    (if ta_partition ad = []
     then (case selector_all_partitions (ta_topic ad) of
             Inl _ \<Rightarrow> Inl (Expect ''validated LSA topic must remain valid for Pub/Sub'')
           | Inr selector \<Rightarrow> Inr selector)
     else (case topic_key_new (ta_topic ad) (ta_partition ad) of
             Inl _ \<Rightarrow> Inl (Expect ''validated LSA topic must remain valid for Pub/Sub'')
           | Inr topic \<Rightarrow> Inr (selector_exact topic)))"

definition index_topic_ad ::
  "discovered_topic_ad \<Rightarrow> (topic_selector, node_id btset) btree \<Rightarrow> (topic_selector, node_id btset) btree res" where
  "index_topic_ad d subscribers =
    (if \<not> roles_contains (ta_roles (dt_ad d)) ROLE_SUBSCRIBE then Inr subscribers
     else rbind (ad_selector (dt_ad d)) (\<lambda>selector.
       Inr (bt_upsert selector (bs_insert (dt_node d)) (bs_insert (dt_node d) bt_empty) subscribers)))"

definition discovery_from_topic_ads :: "discovered_topic_ad list \<Rightarrow> discovery_index res" where
  "discovery_from_topic_ads ads =
    rbind (rfold index_topic_ad ads bt_empty) (\<lambda>subscribers.
    Inr (fold (\<lambda>(selector, nodes). set_subscribers selector (bt_keys nodes)) (bt_entries subscribers) bt_empty))"

definition subscription_ads :: "topic_selector list \<Rightarrow> topic_ad list" where
  "subscription_ads selectors =
    map (\<lambda>selector. TopicAd (ts_name selector)
      (case ts_partition selector of None \<Rightarrow> [] | Some part \<Rightarrow> part) ROLE_SUBSCRIBE 0 0) selectors"

end
