(* ===== verification/SeqStore.thy ===== *)
theory SeqStore
  imports Types
begin

text \<open>
  Crate \<open>mb-runtime\<close>, the trait \<open>SeqStore\<close> that keeps the LSA sequence number of a node across restarts,
  and its two implementations: a number under a mutex, and a file that holds the number in decimal. The
  trait is the locale \<open>seq_store\<close>; both implementations interpret it. The file store works on an
  explicit file system, a map from paths to contents, together with the one operation of it that fails,
  if any. Contents and paths are ASCII texts, and a path ends in a file name.
\<close>

section \<open>Decimal numbers\<close>

definition digit_char :: "nat \<Rightarrow> char" where
  "digit_char d = char_of (48 + d)"

text \<open>The format specification \<open>{}\<close> of unsigned integers.\<close>

fun fmt_decimal :: "nat \<Rightarrow> string" where
  "fmt_decimal n = (if n < 10 then [digit_char n] else fmt_decimal (n div 10) @ [digit_char (n mod 10)])"

declare fmt_decimal.simps [simp del]

definition is_digit :: "char \<Rightarrow> bool" where
  "is_digit c \<longleftrightarrow> 48 \<le> (of_char c :: nat) \<and> (of_char c :: nat) \<le> 57"

definition is_whitespace :: "char \<Rightarrow> bool" where
  "is_whitespace c \<longleftrightarrow> 9 \<le> (of_char c :: nat) \<and> (of_char c :: nat) \<le> 13 \<or> (of_char c :: nat) = 32"

text \<open>\<open>str::trim\<close> and \<open>str::parse::<u64>\<close>.\<close>

definition trim :: "string \<Rightarrow> string" where
  "trim s = rev (dropWhile is_whitespace (rev (dropWhile is_whitespace s)))"

fun parse_digits :: "string \<Rightarrow> nat \<Rightarrow> string + nat" where
  "parse_digits [] n = Inr n"
| "parse_digits (c # cs) n =
    (if \<not> is_digit c then Inl ''invalid digit found in string''
     else let n = n * 10 + (of_char c - 48) in
       if n \<ge> 2 ^ 64 then Inl ''number too large to fit in target type'' else parse_digits cs n)"

definition parse_u64 :: "string \<Rightarrow> string + u64" where
  "parse_u64 s =
    (if s = [] then Inl ''cannot parse integer from empty string''
     else if s = ''+'' \<or> s = ''-'' then Inl ''invalid digit found in string''
     else rbind (parse_digits (if hd s = CHR ''+'' then tl s else s) 0) (\<lambda>n. Inr (of_nat n)))"

lemma of_digit_char: "d < 10 \<Longrightarrow> (of_char (digit_char d) :: nat) = 48 + d"
  by (simp add: digit_char_def)

lemma is_digit_char: "d < 10 \<Longrightarrow> is_digit (digit_char d)"
  by (simp add: is_digit_def of_digit_char)

lemma parse_digits_append: "parse_digits (s @ t) n = rbind (parse_digits s n) (parse_digits t)"
  by (induction s arbitrary: n) (simp_all add: Let_def)

lemma parse_fmt_decimal: "n < 2 ^ 64 \<Longrightarrow> parse_digits (fmt_decimal n) 0 = Inr n"
proof (induction n rule: fmt_decimal.induct)
  case (1 n)
  show ?case
  proof (cases "n < 10")
    case True
    then show ?thesis by (simp add: fmt_decimal.simps [of n] is_digit_char of_digit_char)
  next
    case False
    then have IH: "parse_digits (fmt_decimal (n div 10)) 0 = Inr (n div 10)" using 1 by simp
    have n: "n div 10 * 10 + n mod 10 = n" by simp
    show ?thesis
      using IH False 1(2) unfolding fmt_decimal.simps [of n]
      by (simp add: parse_digits_append is_digit_char of_digit_char n Let_def)
  qed
qed

lemma fmt_decimal_digits: "list_all is_digit (fmt_decimal n) \<and> fmt_decimal n \<noteq> []"
proof (induction n rule: fmt_decimal.induct)
  case (1 n)
  then show ?case by (cases "n < 10") (simp_all add: fmt_decimal.simps [of n] is_digit_char)
qed

lemma digit_not_space: "is_digit c \<Longrightarrow> \<not> is_whitespace c \<and> c \<noteq> CHR ''+'' \<and> c \<noteq> CHR ''-''"
  by (auto simp: is_digit_def is_whitespace_def)

lemma trim_digits:
  assumes "list_all is_digit s" and "s \<noteq> []" and "list_all is_whitespace t"
  shows "trim (s @ t) = s"
proof -
  have d: "dropWhile is_whitespace (s @ t) = s @ t"
    using assms(1,2) digit_not_space by (cases s) auto
  have "dropWhile is_whitespace (rev t) = []" using assms(3) by (simp add: list_all_iff)
  then have "dropWhile is_whitespace (rev (s @ t)) = dropWhile is_whitespace (rev s)"
    using assms(3) by (simp add: dropWhile_append list_all_iff)
  also have "\<dots> = rev s"
    using assms(1,2) digit_not_space by (cases s rule: rev_cases) (auto simp: list_all_iff)
  finally show ?thesis by (simp add: trim_def d)
qed

lemma parse_u64_fmt: "parse_u64 (trim (fmt_decimal (unat (n :: u64)) @ [CHR 0x0A])) = Inr n"
proof -
  let ?s = "fmt_decimal (unat n)"
  have d: "list_all is_digit ?s" "?s \<noteq> []" using fmt_decimal_digits by auto
  have t: "trim (?s @ [CHR 0x0A]) = ?s" by (rule trim_digits [OF d]) (simp add: is_whitespace_def)
  have "hd ?s \<noteq> CHR ''+''" "?s \<noteq> ''+''" "?s \<noteq> ''-''"
    using d digit_not_space by (cases ?s; fastforce)+
  moreover have "unat n < 2 ^ 64" using unat_lt2p [of n] by simp
  ultimately show ?thesis
    using d parse_fmt_decimal [of "unat n"] unfolding t parse_u64_def by simp
qed

section \<open>The contract\<close>

text \<open>A store that reports success holds the number it was given, which is not below the one it held; a
  store that reports a failure holds what it held before.\<close>

locale seq_store =
  fixes load :: "'st \<Rightarrow> string + u64"
    and persist :: "u64 \<Rightarrow> 'st \<Rightarrow> (string + unit) \<times> 'st"
    and ok :: "'st \<Rightarrow> bool"
  assumes persist_stores: "ok st \<Longrightarrow> persist n st = (Inr (), st') \<Longrightarrow> load st' = Inr n"
    and persist_fails: "ok st \<Longrightarrow> persist n st = (Inl e, st') \<Longrightarrow> load st' = load st"
    and persist_monotone: "ok st \<Longrightarrow> persist n st = (Inr (), st') \<Longrightarrow> \<exists>m. load st = Inr m \<and> m \<le> n"
    and persist_ok: "ok st \<Longrightarrow> persist n st = (r, st') \<Longrightarrow> ok st'"
begin

text \<open>Over any sequence of attempts the stored number never decreases.\<close>

fun persist_all :: "u64 list \<Rightarrow> 'st \<Rightarrow> 'st" where
  "persist_all [] st = st"
| "persist_all (n # ns) st = persist_all ns (snd (persist n st))"

lemma load_after: "ok st \<Longrightarrow> persist n st = (r, st') \<Longrightarrow> load st = Inr m \<Longrightarrow> \<exists>k. load st' = Inr k \<and> m \<le> k \<and> (k = m \<or> k = n)"
  using persist_stores [of st n st'] persist_fails [of st n _ st'] persist_monotone [of st n st']
  by (cases r) auto

lemma persist_all_monotone:
  "ok st \<Longrightarrow> load st = Inr m \<Longrightarrow> \<exists>k. load (persist_all ns st) = Inr k \<and> m \<le> k \<and> (k = m \<or> k \<in> set ns)"
proof (induction ns arbitrary: st m)
  case (Cons n ns)
  obtain r st' where p: "persist n st = (r, st')" by fastforce
  obtain k where k: "load st' = Inr k" "m \<le> k" "k = m \<or> k = n" using load_after [OF Cons.prems(1) p Cons.prems(2)] by blast
  obtain k' where "load (persist_all ns st') = Inr k'" "k \<le> k'" "k' = k \<or> k' \<in> set ns"
    using Cons.IH [OF persist_ok [OF Cons.prems(1) p] k(1)] by blast
  then show ?case using k(2,3) p by (auto intro: order_trans)
qed simp

end

section \<open>In memory\<close>

definition backward :: "u64 \<Rightarrow> u64 \<Rightarrow> string" where
  "backward previous seq =
    ''refusing to move persisted sequence backward from '' @ fmt_decimal (unat previous) @ '' to '' @ fmt_decimal (unat seq)"

record memory_seq_store =
  ms_seq :: u64
  ms_poisoned :: bool

definition with_seq :: "u64 \<Rightarrow> memory_seq_store" where
  "with_seq seq = \<lparr>ms_seq = seq, ms_poisoned = False\<rparr>"

definition memory_load :: "memory_seq_store \<Rightarrow> string + u64" where
  "memory_load st = (if ms_poisoned st then Inl ''in-memory sequence store lock is poisoned'' else Inr (ms_seq st))"

definition memory_persist :: "u64 \<Rightarrow> memory_seq_store \<Rightarrow> (string + unit) \<times> memory_seq_store" where
  "memory_persist seq st =
    (if ms_poisoned st then (Inl ''in-memory sequence store lock is poisoned'', st)
     else if seq < ms_seq st then (Inl (backward (ms_seq st) seq), st)
     else (Inr (), st\<lparr>ms_seq := seq\<rparr>))"

interpretation memory_store: seq_store memory_load memory_persist "\<lambda>_. True"
  by unfold_locales (auto simp: memory_load_def memory_persist_def split: if_splits)

section \<open>In a file\<close>

text \<open>Where the operating system fails, and with which error text; a failing write has written a prefix.\<close>

datatype io_fault =
    Fault_Read string
  | Fault_Create_Dir string
  | Fault_Open string
  | Fault_Write string nat
  | Fault_Sync string
  | Fault_Rename string

record file_seq_store =
  fs_path :: string
  fs_files :: "(string, string) btree"
  fs_fault :: "io_fault option"

text \<open>\<open>Path::parent\<close>, \<open>Path::file_name\<close> and \<open>Path::with_extension\<close>.\<close>

definition path_file_name :: "string \<Rightarrow> string" where
  "path_file_name p = rev (takeWhile (\<lambda>c. c \<noteq> CHR ''/'') (rev p))"

definition path_directory :: "string \<Rightarrow> string" where
  "path_directory p = rev (dropWhile (\<lambda>c. c \<noteq> CHR ''/'') (rev p))"

definition path_parent :: "string \<Rightarrow> string" where
  "path_parent p = butlast (path_directory p)"

definition file_stem :: "string \<Rightarrow> string" where
  "file_stem name =
    (let before = rev (drop 1 (dropWhile (\<lambda>c. c \<noteq> CHR ''.'') (rev name)))
     in if before = [] then name else before)"

definition with_extension :: "string \<Rightarrow> string \<Rightarrow> string" where
  "with_extension p extension = path_directory p @ file_stem (path_file_name p) @ ''.'' @ extension"

definition file_load :: "file_seq_store \<Rightarrow> string + u64" where
  "file_load st =
    (case fs_fault st of
       Some (Fault_Read error) \<Rightarrow> Inl (''failed to read '' @ fs_path st @ '': '' @ error)
     | _ \<Rightarrow>
         (case bt_get (fs_files st) (fs_path st) of
            None \<Rightarrow> Inr 0
          | Some contents \<Rightarrow>
              map_err (\<lambda>error. ''invalid sequence in '' @ fs_path st @ '': '' @ error) (parse_u64 (trim contents))))"

definition write_file :: "string \<Rightarrow> string \<Rightarrow> file_seq_store \<Rightarrow> file_seq_store" where
  "write_file p contents st = st\<lparr>fs_files := bt_insert p contents (fs_files st)\<rparr>"

definition rename_file :: "string \<Rightarrow> string \<Rightarrow> file_seq_store \<Rightarrow> file_seq_store" where
  "rename_file old new st =
    (case bt_get (fs_files st) old of
       None \<Rightarrow> st
     | Some contents \<Rightarrow>
         if old = new then st else st\<lparr>fs_files := bt_insert new contents (bt_remove old (fs_files st))\<rparr>)"

definition file_persist :: "u64 \<Rightarrow> file_seq_store \<Rightarrow> (string + unit) \<times> file_seq_store" where
  "file_persist seq st =
    (case file_load st of
       Inl error \<Rightarrow> (Inl error, st)
     | Inr previous \<Rightarrow>
         if seq < previous then (Inl (backward previous seq), st)
         else
           (let parent = path_parent (fs_path st);
                temporary = with_extension (fs_path st) ''tmp'';
                line = fmt_decimal (unat seq) @ [CHR 0x0A];
                opened = write_file temporary [] st;
                written = write_file temporary line st
            in case fs_fault st of
                 Some (Fault_Create_Dir error) \<Rightarrow>
                   if parent \<noteq> [] then (Inl (''failed to create '' @ parent @ '': '' @ error), st)
                   else (Inr (), rename_file temporary (fs_path st) written)
               | Some (Fault_Open error) \<Rightarrow> (Inl (''failed to open '' @ temporary @ '': '' @ error), st)
               | Some (Fault_Write error n) \<Rightarrow>
                   (Inl (''failed to write '' @ temporary @ '': '' @ error), write_file temporary (take n line) opened)
               | Some (Fault_Sync error) \<Rightarrow> (Inl (''failed to sync '' @ temporary @ '': '' @ error), written)
               | Some (Fault_Rename error) \<Rightarrow> (Inl (''failed to replace '' @ fs_path st @ '': '' @ error), written)
               | _ \<Rightarrow> (Inr (), rename_file temporary (fs_path st) written)))"

text \<open>The store is safe when its temporary file is another file.\<close>

definition own_temporary :: "file_seq_store \<Rightarrow> bool" where
  "own_temporary st \<longleftrightarrow> with_extension (fs_path st) ''tmp'' \<noteq> fs_path st"

lemma file_load_cong:
  "fs_path st' = fs_path st \<Longrightarrow> fs_fault st' = fs_fault st \<Longrightarrow>
    bt_get (fs_files st') (fs_path st) = bt_get (fs_files st) (fs_path st) \<Longrightarrow> file_load st' = file_load st"
  by (simp add: file_load_def split: option.split io_fault.split)

lemma file_load_other [simp]:
  "p \<noteq> fs_path st \<Longrightarrow> file_load (write_file p contents st) = file_load st"
  by (rule file_load_cong) (simp_all add: write_file_def)

lemma write_file_fields [simp]:
  "fs_path (write_file p contents st) = fs_path st" "fs_fault (write_file p contents st) = fs_fault st"
  by (simp_all add: write_file_def)

lemma rename_file_fields [simp]:
  "fs_path (rename_file old new st) = fs_path st" "fs_fault (rename_file old new st) = fs_fault st"
  by (simp_all add: rename_file_def split: option.split)

text \<open>What a completed replacement leaves in the file is the number that was written.\<close>

lemma file_load_replaced:
  assumes "\<forall>error. fs_fault st \<noteq> Some (Fault_Read error)"
  shows "file_load (rename_file p (fs_path st) (write_file p (fmt_decimal (unat seq) @ [CHR 0x0A]) st)) = Inr seq"
proof -
  let ?st = "rename_file p (fs_path st) (write_file p (fmt_decimal (unat seq) @ [CHR 0x0A]) st)"
  have "bt_get (fs_files ?st) (fs_path st) = Some (fmt_decimal (unat seq) @ [CHR 0x0A])"
    by (simp add: rename_file_def write_file_def)
  then show ?thesis
    using assms parse_u64_fmt [of seq] unfolding file_load_def rename_file_fields write_file_fields
    by (cases "fs_fault st"; cases "the (fs_fault st)") simp_all
qed

lemma file_load_no_read_fault: "file_load st = Inr m \<Longrightarrow> \<forall>error. fs_fault st \<noteq> Some (Fault_Read error)"
  by (auto simp: file_load_def)

lemma file_persist_cases:
  assumes "own_temporary st" and "file_persist seq st = (r, st')"
  shows "fs_path st' = fs_path st \<and>
    (case r of Inl _ \<Rightarrow> file_load st' = file_load st
     | Inr _ \<Rightarrow> file_load st' = Inr seq \<and> (\<exists>m. file_load st = Inr m \<and> m \<le> seq))"
proof (cases "file_load st")
  case (Inl error)
  then show ?thesis using assms(2) by (auto simp: file_persist_def)
next
  case (Inr m)
  show ?thesis
  proof (cases "seq < m")
    case False
    have tmp: "with_extension (fs_path st) ''tmp'' \<noteq> fs_path st" using assms(1) by (simp add: own_temporary_def)
    then show ?thesis
      using assms(2) Inr False file_load_replaced [OF file_load_no_read_fault [OF Inr]]
      by (auto simp: file_persist_def Let_def not_less split: option.splits io_fault.splits if_splits)
  qed (use assms(2) Inr in \<open>auto simp: file_persist_def\<close>)
qed

interpretation file_store: seq_store file_load file_persist own_temporary
proof unfold_locales
  fix st st' :: file_seq_store and n e r
  assume ok: "own_temporary st"
  show "file_persist n st = (Inr (), st') \<Longrightarrow> file_load st' = Inr n"
    and "file_persist n st = (Inl e, st') \<Longrightarrow> file_load st' = file_load st"
    and "file_persist n st = (Inr (), st') \<Longrightarrow> \<exists>m. file_load st = Inr m \<and> m \<le> n"
    and "file_persist n st = (r, st') \<Longrightarrow> own_temporary st'"
    using file_persist_cases [OF ok, of n _ st'] ok by (auto simp: own_temporary_def)
qed

end
