(* ===== verification/Diagnostics.thy ===== *)
theory Diagnostics
  imports Forward SeqStore
begin

text \<open>
  Crate \<open>mb-runtime\<close>, the diagnostic log of the driver: its entries, their texts, and the bounded queue of the
  most recent ones. Texts are UTF-8; \<open>{:?}\<close> prints the derived \<open>Debug\<close> form.
\<close>

section \<open>Texts\<close>

definition middle_dot :: string where "middle_dot = '' '' @ [CHR 0xC2, CHR 0xB7] @ '' ''"
definition right_arrow :: string where "right_arrow = '' '' @ [CHR 0xE2, CHR 0x86, CHR 0x92] @ '' ''"

fun debug_list :: "('a \<Rightarrow> string) \<Rightarrow> 'a list \<Rightarrow> string" where
  "debug_list f [] = []"
| "debug_list f [x] = f x"
| "debug_list f (x # xs) = f x @ '', '' @ debug_list f xs"

definition debug_node_id :: "node_id \<Rightarrow> string" where
  "debug_node_id n = ''NodeId(['' @ debug_list (\<lambda>b. fmt_decimal (unat b)) (as_bytes n) @ ''])''"

definition debug_peer :: "node_id option \<Rightarrow> string" where
  "debug_peer peer = (case peer of None \<Rightarrow> ''None'' | Some n \<Rightarrow> ''Some('' @ debug_node_id n @ '')'')"

fun debug_priority :: "priority \<Rightarrow> string" where
  "debug_priority P0 = ''P0''"
| "debug_priority P1 = ''P1''"
| "debug_priority P2 = ''P2''"
| "debug_priority P3 = ''P3''"

fun debug_packet_type :: "packet_type \<Rightarrow> string" where
  "debug_packet_type Unicast = ''Unicast''"
| "debug_packet_type Multicast = ''Multicast''"
| "debug_packet_type CircuitData = ''CircuitData''"
| "debug_packet_type CircuitControl = ''CircuitControl''"

fun debug_multicast_error :: "multicast_payload_error \<Rightarrow> string" where
  "debug_multicast_error (MP_HeaderTooShort len) = ''HeaderTooShort('' @ fmt_decimal len @ '')''"
| "debug_multicast_error MP_EmptyDestinations = ''EmptyDestinations''"
| "debug_multicast_error (MP_TooManyDestinations n) = ''TooManyDestinations('' @ fmt_decimal n @ '')''"
| "debug_multicast_error (MP_DuplicateDestination n) = ''DuplicateDestination('' @ debug_node_id n @ '')''"
| "debug_multicast_error (MP_DestinationListTruncated expected actual) =
    ''DestinationListTruncated { expected: '' @ fmt_decimal expected @ '', actual: '' @ fmt_decimal actual @ '' }''"
| "debug_multicast_error (MP_PayloadTooLarge len) = ''PayloadTooLarge('' @ fmt_decimal len @ '')''"

fun debug_drop_reason :: "drop_reason \<Rightarrow> string" where
  "debug_drop_reason TtlExceeded = ''TtlExceeded''"
| "debug_drop_reason NoRoute = ''NoRoute''"
| "debug_drop_reason LoopDetected = ''LoopDetected''"
| "debug_drop_reason DR_LinkDown = ''LinkDown''"
| "debug_drop_reason RouteWaitExpired = ''RouteWaitExpired''"
| "debug_drop_reason (InvalidMulticast e) = ''InvalidMulticast('' @ debug_multicast_error e @ '')''"
| "debug_drop_reason (UnsupportedPacketType t) = ''UnsupportedPacketType('' @ debug_packet_type t @ '')''"
| "debug_drop_reason (QueueFull p) = ''QueueFull('' @ debug_priority p @ '')''"

definition packet_summary :: "forward_packet \<Rightarrow> string" where
  "packet_summary packet =
    (let h = p_header packet in
     debug_priority (h_priority h) @ middle_dot @ ''flow '' @ fmt_decimal (unat (h_flow_id h)) @ middle_dot @
     node_id_fmt (h_source h) @ right_arrow @ node_id_fmt (h_destination h) @ middle_dot @
     fmt_decimal (length (p_payload packet)) @ '' bytes'')"

fun control_frame_summary :: "control_frame \<Rightarrow> string \<times> string" where
  "control_frame_summary (CF_Lsa message) =
    (let l = msg_lsa message in
     (''LSA_SEND'', ''origin '' @ node_id_fmt (lsa_origin l) @ middle_dot @ ''epoch '' @ fmt_decimal (unat (lsa_epoch l)) @
       middle_dot @ ''seq '' @ fmt_decimal (unat (lsa_seq l)) @ middle_dot @
       fmt_decimal (length (lsa_adjacencies l)) @ '' adjacencies''))"
| "control_frame_summary (CF_Digest entries) = (''DIGEST_SEND'', fmt_decimal (length entries) @ '' LSDB entries'')"
| "control_frame_summary (CF_DigestReq origins) = (''DIGEST_REQ_SEND'', fmt_decimal (length origins) @ '' requested origins'')"

definition link_text :: "link_id \<Rightarrow> string" where
  "link_text link = ''link '' @ fmt_decimal (unat link) @ middle_dot"

text \<open>What the log says of an action of the forwarder; arming a timer is not logged.\<close>

fun forward_action_summary :: "forward_action \<Rightarrow> (string \<times> string \<times> link_id option) option" where
  "forward_action_summary (FA_Send link packet) = Some (''PACKET_SEND'', link_text link @ packet_summary packet, Some link)"
| "forward_action_summary (FA_DeliverLocal packet) = Some (''PACKET_DELIVER'', packet_summary packet, None)"
| "forward_action_summary (FA_Drop reason packet) =
    Some (''PACKET_DROP'', debug_drop_reason reason @ middle_dot @ packet_summary packet, None)"
| "forward_action_summary (FA_Backpressure link packet) =
    Some (''BACKPRESSURE'', link_text link @ packet_summary packet, Some link)"
| "forward_action_summary (FA_SetTimer _ _) = None"

section \<open>The log\<close>

definition RECENT_EVENT_LIMIT :: usize where "RECENT_EVENT_LIMIT = 256"

record runtime_event =
  ev_sequence :: u64
  ev_at :: mono_time
  ev_kind :: string
  ev_detail :: string
  ev_link :: "link_id option"

record event_log =
  lg_recent :: "runtime_event list"
  lg_next_sequence :: u64

definition event_log_new :: event_log where
  "event_log_new = \<lparr>lg_recent = [], lg_next_sequence = 0\<rparr>"

definition push_runtime_event ::
  "mono_time \<Rightarrow> string \<Rightarrow> string \<Rightarrow> link_id option \<Rightarrow> event_log \<Rightarrow> event_log" where
  "push_runtime_event at kind detail link lg =
    (let events = (if length (lg_recent lg) = RECENT_EVENT_LIMIT then tl (lg_recent lg) else lg_recent lg)
     in \<lparr>lg_recent = events @ [\<lparr>ev_sequence = lg_next_sequence lg, ev_at = at, ev_kind = kind, ev_detail = detail, ev_link = link\<rparr>],
         lg_next_sequence = lg_next_sequence lg + 1\<rparr>)"

text \<open>At most 256 entries, numbered consecutively up to the next number, modulo \<open>2\<^sup>64\<close>.\<close>

definition log_inv :: "event_log \<Rightarrow> bool" where
  "log_inv lg \<longleftrightarrow> length (lg_recent lg) \<le> RECENT_EVENT_LIMIT \<and>
    map ev_sequence (lg_recent lg) =
      map (\<lambda>i. lg_next_sequence lg - of_nat (length (lg_recent lg)) + of_nat i) [0..<length (lg_recent lg)]"

lemma log_inv_new [simp]: "log_inv event_log_new"
  by (simp add: log_inv_def event_log_new_def)

lemma map_upt_shift: "map f [1..<Suc n] = map (\<lambda>i. f (Suc i)) [0..<n]"
  by (simp add: map_Suc_upt [symmetric] comp_def del: upt_Suc)

lemma log_inv_push [intro]: "log_inv lg \<Longrightarrow> log_inv (push_runtime_event at kind detail link lg)"
proof -
  assume inv: "log_inv lg"
  let ?n = "length (lg_recent lg)"
  show ?thesis
  proof (cases "?n = RECENT_EVENT_LIMIT")
    case False
    then show ?thesis using inv by (simp add: log_inv_def push_runtime_event_def Let_def)
  next
    case True
    then obtain e es where es: "lg_recent lg = e # es" by (cases "lg_recent lg") (auto simp: RECENT_EVENT_LIMIT_def)
    have "map ev_sequence (tl (lg_recent lg)) = tl (map ev_sequence (lg_recent lg))" by (simp add: es)
    also have "\<dots> = tl (map (\<lambda>i. lg_next_sequence lg - of_nat ?n + of_nat i) [0..<Suc (length es)])"
      using inv by (simp add: log_inv_def es)
    also have "\<dots> = map (\<lambda>i. lg_next_sequence lg - of_nat ?n + of_nat i) [1..<Suc (length es)]"
      by (simp add: map_tl [symmetric] tl_upt del: upt_Suc)
    also have "\<dots> = map (\<lambda>i. lg_next_sequence lg - of_nat (length es) + of_nat i) [0..<length es]"
      unfolding map_upt_shift by (simp add: es)
    finally have tl: "map ev_sequence es = map (\<lambda>i. lg_next_sequence lg - of_nat (length es) + of_nat i) [0..<length es]"
      by (simp add: es)
    have limit: "RECENT_EVENT_LIMIT = Suc (length es)" using True es by simp
    show ?thesis unfolding log_inv_def push_runtime_event_def Let_def es limit using tl by simp
  qed
qed

end
