(* ===== verification/ErrorText.thy ===== *)
theory ErrorText
  imports RuntimeCodec Diagnostics
begin

text \<open>
  The texts of the errors: the \<open>Display\<close> implementations of \<open>mb-wire\<close>, \<open>mb-pubsub\<close>, \<open>mb-transport\<close> and
  \<open>mb-runtime\<close>, with the formats of the standard library they use. An administrator reads them in the
  answers of a node, see \<open>NodeApi\<close>.
\<close>

section \<open>Hexadecimal numbers\<close>

fun hex_digits :: "nat \<Rightarrow> string" where
  "hex_digits n = (if n < 16 then [hex_digit n] else hex_digits (n div 16) @ [hex_digit (n mod 16)])"

declare hex_digits.simps [simp del]

text \<open>\<open>{:#0Wx}\<close>: the prefix counts for the width \<open>W\<close>, zeros fill it up; \<open>{:#x}\<close> is the width zero.\<close>

definition fmt_hex :: "nat \<Rightarrow> nat \<Rightarrow> string" where
  "fmt_hex width n = ''0x'' @ replicate (width - 2 - length (hex_digits n)) (CHR ''0'') @ hex_digits n"

section \<open>Crate \<open>mb-wire\<close>\<close>

fun multicast_error_text :: "multicast_payload_error \<Rightarrow> string" where
  "multicast_error_text (MP_HeaderTooShort len) =
    ''multicast payload is '' @ fmt_decimal len @ '' bytes, shorter than the '' @ fmt_decimal MULTICAST_COUNT_LEN @ '' byte count''"
| "multicast_error_text MP_EmptyDestinations = ''multicast destination list is empty''"
| "multicast_error_text (MP_TooManyDestinations n) =
    ''multicast destination count '' @ fmt_decimal n @ '' exceeds the '' @ fmt_decimal MAX_MULTICAST_DESTINATIONS @ '' destination limit''"
| "multicast_error_text (MP_DuplicateDestination destination) =
    ''multicast destination '' @ node_id_fmt destination @ '' is duplicated''"
| "multicast_error_text (MP_DestinationListTruncated expected actual) =
    ''multicast destination list needs '' @ fmt_decimal expected @ '' bytes but only '' @ fmt_decimal actual @ '' are available''"
| "multicast_error_text (MP_PayloadTooLarge len) =
    ''multicast payload length '' @ fmt_decimal len @ '' exceeds the '' @ fmt_decimal MAX_FORWARD_PAYLOAD_LEN @ '' byte limit''"

fun forward_packet_error_text :: "forward_packet_error \<Rightarrow> string" where
  "forward_packet_error_text (FP_HeaderTooShort len) =
    ''forward packet is '' @ fmt_decimal len @ '' bytes, shorter than the '' @ fmt_decimal FORWARD_HEADER_LEN @ '' byte header''"
| "forward_packet_error_text (FP_UnsupportedVersion v) = ''unsupported forward packet version '' @ fmt_decimal (unat v)"
| "forward_packet_error_text (FP_UnknownPacketType t) = ''unknown forward packet type '' @ fmt_decimal (unat t)"
| "forward_packet_error_text (FP_UnknownPriority p) = ''unknown forward packet priority '' @ fmt_decimal (unat p)"
| "forward_packet_error_text (FP_UnsupportedFlags flags) = ''unsupported forward packet flags '' @ fmt_hex 10 (unat flags)"
| "forward_packet_error_text (FP_InvalidMulticast e) = ''invalid multicast payload: '' @ multicast_error_text e"
| "forward_packet_error_text (FP_UnexpectedMulticastDestinations n) =
    ''non-multicast forward packet contains '' @ fmt_decimal n @ '' multicast destinations''"
| "forward_packet_error_text (FP_PayloadTooLarge len) =
    ''forward packet payload length '' @ fmt_decimal len @ '' exceeds the '' @ fmt_decimal MAX_FORWARD_PAYLOAD_LEN @ '' byte limit''"

fun frame_error_text :: "frame_error \<Rightarrow> string" where
  "frame_error_text (FE_UnsupportedVersion v) = ''unsupported frame version '' @ fmt_decimal (unat v)"
| "frame_error_text (FE_UnknownFrameType t) = ''unknown frame type '' @ fmt_decimal (unat t)"
| "frame_error_text (FE_UnknownChannel c) = ''unknown channel '' @ fmt_decimal (unat c)"
| "frame_error_text (FE_UnsupportedFlags flags) = ''unsupported frame flags '' @ fmt_hex 4 (unat flags)"
| "frame_error_text (FE_NonZeroReserved r) = ''reserved frame byte must be zero, got '' @ fmt_hex 4 (unat r)"
| "frame_error_text (FE_PayloadTooLarge len) =
    ''frame payload length '' @ fmt_decimal len @ '' exceeds the '' @ fmt_decimal MAX_PAYLOAD_LEN @ '' byte limit''"

section \<open>Crate \<open>mb-pubsub\<close>\<close>

fun topic_error_text :: "topic_error \<Rightarrow> string" where
  "topic_error_text EmptyName = ''topic name must not be empty''"
| "topic_error_text (NameTooLong len) =
    ''topic name length '' @ fmt_decimal len @ '' exceeds the '' @ fmt_decimal TOPIC_NAME_LIMIT @ '' byte limit''"
| "topic_error_text (PartitionTooLong len) =
    ''topic partition length '' @ fmt_decimal len @ '' exceeds the '' @ fmt_decimal MAX_PARTITION_LEN @ '' byte limit''"

fun envelope_error_text :: "envelope_error \<Rightarrow> string" where
  "envelope_error_text NotPubSub = ''payload is not a mesh-bus Pub/Sub envelope''"
| "envelope_error_text (Protobuf e) = ''Pub/Sub envelope protobuf is invalid: '' @ e"
| "envelope_error_text (InvalidOriginLength len) = ''Pub/Sub origin must be 32 bytes, got '' @ fmt_decimal len"
| "envelope_error_text InvalidSequence = ''Pub/Sub sequence must be non-zero''"
| "envelope_error_text (InvalidTopic e) = ''invalid Pub/Sub topic: '' @ topic_error_text e"

section \<open>Crate \<open>mb-transport\<close>\<close>

fun transport_error_text :: "transport_error \<Rightarrow> string" where
  "transport_error_text (TE_Io e) = ''TCP I/O failed: '' @ e"
| "transport_error_text (TE_Wire e) = ''wire frame is invalid: '' @ frame_error_text e"
| "transport_error_text (TE_Protobuf e) = ''LinkHello protobuf is invalid: '' @ e"
| "transport_error_text TE_UnexpectedEndOfStream = ''TCP stream ended before LinkHello arrived''"
| "transport_error_text TE_ExpectedLinkHello = ''the first TCP frame must be LinkHello''"
| "transport_error_text (TE_UnsupportedProtocolVersion v) = ''peer uses unsupported protocol version '' @ fmt_decimal (unat v)"
| "transport_error_text (TE_InvalidNodeIdLength len) = ''peer NodeId must be 32 bytes, got '' @ fmt_decimal len"
| "transport_error_text (TE_PeerMismatch expected actual) =
    ''expected peer '' @ node_id_fmt expected @ '', got '' @ node_id_fmt actual"
| "transport_error_text (TE_PeerNotAllowed peer) = ''peer '' @ node_id_fmt peer @ '' is not in the static allowlist''"
| "transport_error_text TE_LinkIdExhausted = ''local LinkId space is exhausted''"
| "transport_error_text (TE_UnknownLink link) = ''unknown link '' @ fmt_decimal (unat link)"
| "transport_error_text (TE_LinkClosed link) = ''link '' @ fmt_decimal (unat link) @ '' is closed''"

section \<open>Crate \<open>mb-runtime\<close>\<close>

fun debug_frame_type :: "frame_type \<Rightarrow> string" where
  "debug_frame_type FT_LinkHello = ''LinkHello''"
| "debug_frame_type FT_Lsa = ''Lsa''"
| "debug_frame_type FT_Digest = ''Digest''"
| "debug_frame_type FT_DigestReq = ''DigestReq''"
| "debug_frame_type FT_Forward = ''Forward''"
| "debug_frame_type FT_Circuit = ''Circuit''"
| "debug_frame_type FT_Credit = ''Credit''"
| "debug_frame_type FT_Ping = ''Ping''"

fun debug_channel :: "channel \<Rightarrow> string" where
  "debug_channel Ch_Control = ''Control''"
| "debug_channel Ch_Rpc = ''Rpc''"
| "debug_channel Ch_PubSubP0 = ''PubSubP0''"
| "debug_channel Ch_PubSubP1 = ''PubSubP1''"
| "debug_channel Ch_PubSubP2 = ''PubSubP2''"
| "debug_channel Ch_PubSubP3 = ''PubSubP3''"
| "debug_channel Ch_Tunnel = ''Tunnel''"

fun runtime_error_text :: "runtime_error \<Rightarrow> string" where
  "runtime_error_text (RE_EndpointNodeMismatch endpoint configured) =
    ''endpoint belongs to node '' @ node_id_fmt endpoint @ '', but runtime is configured for '' @ node_id_fmt configured"
| "runtime_error_text (RE_UnexpectedFrame frame_type channel) =
    ''unexpected runtime frame type '' @ debug_frame_type frame_type @ '' on channel '' @ debug_channel channel"
| "runtime_error_text (RE_Protobuf e) = ''control protobuf is invalid: '' @ e"
| "runtime_error_text (RE_InvalidNodeIdLength len) = ''control-plane NodeId must be 32 bytes, got '' @ fmt_decimal len"
| "runtime_error_text (RE_InvalidLinkCost cost) = ''invalid link cost '' @ fmt_decimal (unat cost)"
| "runtime_error_text (RE_InvalidLsaTtl ttl) = ''invalid LSA ttl_sec '' @ fmt_decimal (unat ttl)"
| "runtime_error_text RE_InvalidTopicName = ''LSA topic name must not be empty''"
| "runtime_error_text (RE_InvalidTopicRole role) = ''invalid LSA topic role bits '' @ fmt_hex 0 (unat role)"
| "runtime_error_text (RE_TopicNameTooLong len) =
    ''LSA topic name length '' @ fmt_decimal len @ '' exceeds the '' @ fmt_decimal MAX_TOPIC_NAME_LEN @ '' byte limit''"
| "runtime_error_text (RE_TopicPartitionTooLong len) =
    ''LSA topic partition length '' @ fmt_decimal len @ '' exceeds the '' @ fmt_decimal MAX_TOPIC_PARTITION_LEN @ '' byte limit''"
| "runtime_error_text RE_DuplicateTopicAd = ''LSA contains duplicate topic and partition advertisements''"
| "runtime_error_text (RE_TooManyElements field cnt limit) =
    field @ '' contains '' @ fmt_decimal cnt @ '' elements, limit is '' @ fmt_decimal limit"
| "runtime_error_text RE_SequenceExhausted = ''LSA sequence is exhausted''"
| "runtime_error_text (RE_ForwardPacket e) = ''forward packet is invalid: '' @ forward_packet_error_text e"
| "runtime_error_text RE_RuntimeStopped = ''runtime has stopped''"
| "runtime_error_text (RE_SeqStore e) = ''sequence persistence failed: '' @ e"
| "runtime_error_text (RE_Transport e) = ''transport operation failed: '' @ transport_error_text e"

end
