(* ===== verification/Spf.thy ===== *)
theory Spf
  imports ControlTypes
begin

text \<open>
  Crate \<open>mb-control\<close>, route computation: the bidirectional graph of the LSDB, the label-correcting
  shortest-path loop of \<open>shortest_paths\<close> with its three maps and its heap, and the choice of the
  local link towards the first hop. The loop is shown to terminate on every database, and its
  result is characterised by walks of the graph.
\<close>

section \<open>The graph\<close>

type_synonym graph = "(node_id, adjacency list) btree"

definition accepts_edge :: "(node_id, lsdb_entry) btree \<Rightarrow> node_id \<Rightarrow> adjacency \<Rightarrow> bool" where
  "accepts_edge lsdb origin edge =
    (case bt_get lsdb (adj_peer edge) of
       None \<Rightarrow> False
     | Some peer_entry \<Rightarrow>
         (case entry_active peer_entry of
            None \<Rightarrow> False
          | Some peer_active \<Rightarrow>
              list_ex (\<lambda>reverse. adj_peer reverse = origin) (lsa_adjacencies (msg_lsa (al_message peer_active)))))"

definition bidirectional_graph :: "(node_id, lsdb_entry) btree \<Rightarrow> graph" where
  "bidirectional_graph lsdb =
    fold (\<lambda>(origin, entry) graph.
            case entry_active entry of
              None \<Rightarrow> graph
            | Some active \<Rightarrow>
                bt_insert origin
                  (filter (accepts_edge lsdb origin) (lsa_adjacencies (msg_lsa (al_message active)))) graph)
      (bt_entries lsdb) bt_empty"

section \<open>The loop\<close>

record spf_state =
  sp_distance :: "(node_id, u32) btree"
  sp_path_hops :: "(node_id, u8) btree"
  sp_first_peer :: "(node_id, node_id) btree"
  sp_pending :: "(u32 \<times> node_id) list"

definition index_map :: "string \<Rightarrow> ('k::linorder, 'v) btree \<Rightarrow> 'k \<Rightarrow> 'v res" where
  "index_map what m k = (case bt_get m k of None \<Rightarrow> Inl (Index_Missing what) | Some v \<Rightarrow> Inr v)"

definition should_replace :: "u32 \<Rightarrow> node_id \<Rightarrow> node_id \<Rightarrow> spf_state \<Rightarrow> bool" where
  "should_replace candidate_cost candidate_first peer st =
    (case bt_get (sp_distance st) peer of
       None \<Rightarrow> True
     | Some current_cost \<Rightarrow>
         if candidate_cost < current_cost then True
         else if candidate_cost = current_cost
           then (case bt_get (sp_first_peer st) peer of
                   None \<Rightarrow> False
                 | Some current_first \<Rightarrow> candidate_first < current_first)
         else False)"

definition set_label :: "node_id \<Rightarrow> u32 \<Rightarrow> u8 \<Rightarrow> node_id \<Rightarrow> spf_state \<Rightarrow> spf_state" where
  "set_label peer cost hops first st =
    st\<lparr>sp_distance := bt_insert peer cost (sp_distance st),
       sp_path_hops := bt_insert peer hops (sp_path_hops st),
       sp_first_peer := bt_insert peer first (sp_first_peer st),
       sp_pending := heap_push (cost, peer) (sp_pending st)\<rparr>"

definition relax_edge :: "node_id \<Rightarrow> u32 \<Rightarrow> node_id \<Rightarrow> adjacency \<Rightarrow> spf_state \<Rightarrow> spf_state res" where
  "relax_edge me known_cost node edge st =
    (let candidate_cost = sat_add known_cost (ucast (adj_cost edge)) in
     rbind (index_map ''path_hops'' (sp_path_hops st) node) (\<lambda>hops.
     let candidate_hops = sat_add hops 1 in
     rbind (if node = me then Inr (adj_peer edge) else index_map ''first_peer'' (sp_first_peer st) node)
       (\<lambda>candidate_first.
     if should_replace candidate_cost candidate_first (adj_peer edge) st
     then Inr (set_label (adj_peer edge) candidate_cost candidate_hops candidate_first st)
     else Inr st)))"

definition relax_edges :: "node_id \<Rightarrow> u32 \<Rightarrow> node_id \<Rightarrow> adjacency list \<Rightarrow> spf_state \<Rightarrow> spf_state res" where
  "relax_edges me known_cost node edges st = rfold (relax_edge me known_cost node) edges st"

text \<open>The rank of a label: it falls whenever a label is replaced, and replacing a label is the only
  reason for the heap to grow.\<close>

definition label_rank :: "u32 option \<Rightarrow> node_id option \<Rightarrow> nat" where
  "label_rank d f =
    (case d of None \<Rightarrow> 2 ^ 288
     | Some c \<Rightarrow> unat c * 2 ^ 256 + (case f of None \<Rightarrow> 0 | Some x \<Rightarrow> unat x))"

definition spf_measure :: "spf_state \<Rightarrow> nat" where
  "spf_measure st = (\<Sum>n\<in>UNIV. label_rank (bt_get (sp_distance st) n) (bt_get (sp_first_peer st) n))"

lemma unat_node_less: "unat (x :: node_id) < 2 ^ 256"
  using unat_lt2p [of x] by simp

lemma label_rank_first: "f < f' \<Longrightarrow> label_rank (Some c) (Some f) < label_rank (Some c) (Some f')"
  by (simp add: label_rank_def word_less_nat_alt)

lemma label_rank_Some_bound: "label_rank (Some c) f < (unat c + 1) * 2 ^ 256"
  using unat_node_less by (auto simp: label_rank_def split: option.splits)

lemma label_rank_cost: "c < c' \<Longrightarrow> label_rank (Some c) f < label_rank (Some c') f'"
proof -
  assume "c < c'"
  then have "(unat c + 1) * 2 ^ 256 \<le> unat c' * 2 ^ 256"
    by (intro mult_le_mono1) (simp add: word_less_nat_alt)
  moreover have "unat c' * 2 ^ 256 \<le> label_rank (Some c') f'" by (simp add: label_rank_def)
  ultimately show ?thesis using label_rank_Some_bound [of c f] by linarith
qed

lemma label_rank_None: "label_rank (Some c) f < label_rank None f'"
proof -
  have "(unat c + 1) * 2 ^ 256 \<le> (2 ^ 32 :: nat) * 2 ^ 256"
    using unat_lt2p [of c] by (intro mult_le_mono1) simp
  also have "\<dots> = label_rank None f'" by (simp add: label_rank_def)
  finally show ?thesis using label_rank_Some_bound [of c f] by linarith
qed

lemma should_replace_rank:
  assumes "should_replace c f p st"
  shows "label_rank (Some c) (Some f) < label_rank (bt_get (sp_distance st) p) (bt_get (sp_first_peer st) p)"
  using assms
  by (auto simp: should_replace_def label_rank_None label_rank_cost label_rank_first
      split: option.splits if_splits)

lemma set_label_measure:
  assumes "should_replace c f p st"
  shows "spf_measure (set_label p c h f st) < spf_measure st"
  unfolding spf_measure_def
proof (rule sum_strict_mono_ex1)
  show "\<forall>n\<in>UNIV. label_rank (bt_get (sp_distance (set_label p c h f st)) n) (bt_get (sp_first_peer (set_label p c h f st)) n)
      \<le> label_rank (bt_get (sp_distance st) n) (bt_get (sp_first_peer st) n)"
    using should_replace_rank [OF assms] by (auto simp: set_label_def)
  show "\<exists>n\<in>UNIV. label_rank (bt_get (sp_distance (set_label p c h f st)) n) (bt_get (sp_first_peer (set_label p c h f st)) n)
      < label_rank (bt_get (sp_distance st) n) (bt_get (sp_first_peer st) n)"
    using should_replace_rank [OF assms] by (intro bexI [of _ p]) (auto simp: set_label_def)
qed simp

lemma relax_edge_measure:
  "relax_edge me c n e st = Inr st' \<Longrightarrow> st' = st \<or> spf_measure st' < spf_measure st"
  by (auto simp: relax_edge_def Let_def rbind_Inr_iff set_label_measure split: if_splits)

lemma relax_edges_measure:
  "relax_edges me c n es st = Inr st' \<Longrightarrow> st' = st \<or> spf_measure st' < spf_measure st"
proof (induction es arbitrary: st)
  case (Cons e es)
  then obtain st1 where "relax_edge me c n e st = Inr st1" "relax_edges me c n es st1 = Inr st'"
    by (auto simp: relax_edges_def rbind_Inr_iff)
  then show ?case using relax_edge_measure Cons.IH by fastforce
qed (simp add: relax_edges_def)

function spf_loop :: "node_id \<Rightarrow> graph \<Rightarrow> spf_state \<Rightarrow> spf_state res" where
  "spf_loop me graph st =
    (case heap_pop (sp_pending st) of
       None \<Rightarrow> Inr st
     | Some ((known_cost, node), rest) \<Rightarrow>
         let st = st\<lparr>sp_pending := rest\<rparr> in
         if bt_get (sp_distance st) node \<noteq> Some known_cost then spf_loop me graph st
         else (case bt_get graph node of
                 None \<Rightarrow> spf_loop me graph st
               | Some edges \<Rightarrow>
                   (case relax_edges me known_cost node edges st of
                      Inl p \<Rightarrow> Inl p
                    | Inr st \<Rightarrow> spf_loop me graph st)))"
  by pat_completeness auto

lemma spf_measure_pending [simp]: "spf_measure (st\<lparr>sp_pending := q\<rparr>) = spf_measure st"
  by (simp add: spf_measure_def)

termination spf_loop
  by (relation "measures [\<lambda>(me, g, st). spf_measure st, \<lambda>(me, g, st). length (sp_pending st)]")
    (auto dest!: heap_pop_length relax_edges_measure)

declare spf_loop.simps [simp del]

definition best_link_to :: "(link_id, local_adjacency) btree \<Rightarrow> node_id \<Rightarrow> link_id option" where
  "best_link_to adjacencies peer =
    (case filter (\<lambda>(link, adjacency). la_peer adjacency = peer) (bt_entries adjacencies) of
       [] \<Rightarrow> None
     | c # cs \<Rightarrow> Some (snd (fold min (map (\<lambda>(link, adjacency). (la_cost adjacency, link)) cs)
                                     (case c of (link, adjacency) \<Rightarrow> (la_cost adjacency, link)))))"

definition spf_start :: "node_id \<Rightarrow> spf_state" where
  "spf_start me =
    \<lparr>sp_distance = bt_insert me 0 bt_empty, sp_path_hops = bt_insert me 0 bt_empty,
     sp_first_peer = bt_empty, sp_pending = heap_push (0, me) []\<rparr>"

definition collect_route ::
  "node_id \<Rightarrow> (link_id, local_adjacency) btree \<Rightarrow> spf_state \<Rightarrow> node_id \<times> u32 \<Rightarrow> (node_id \<times> route) option res" where
  "collect_route me adjacencies st = (\<lambda>(destination, cost).
    if destination = me then Inr None
    else rbind (index_map ''first_peer'' (sp_first_peer st) destination) (\<lambda>peer.
      case best_link_to adjacencies peer of
        None \<Rightarrow> Inr None
      | Some link \<Rightarrow>
          rbind (index_map ''path_hops'' (sp_path_hops st) destination) (\<lambda>hops.
          Inr (Some (destination, \<lparr>rt_next_hop = link, rt_cost = cost, rt_hops = hops\<rparr>)))))"

definition shortest_paths ::
  "node_id \<Rightarrow> (node_id, lsdb_entry) btree \<Rightarrow> (link_id, local_adjacency) btree \<Rightarrow> (node_id, route) btree res" where
  "shortest_paths me lsdb adjacencies =
    rbind (spf_loop me (bidirectional_graph lsdb) (spf_start me)) (\<lambda>st.
    rbind (rmap (collect_route me adjacencies st) (bt_entries (sp_distance st))) (\<lambda>routes.
    Inr (bt_collect (List.map_filter id routes))))"

section \<open>Walks\<close>

definition edges_of :: "graph \<Rightarrow> node_id \<Rightarrow> adjacency list" where
  "edges_of g u = (case bt_get g u of None \<Rightarrow> [] | Some es \<Rightarrow> es)"

text \<open>\<open>walk g s v c h\<close>: some walk of \<open>h\<close> edges and total cost \<open>c\<close> leads from \<open>s\<close> to \<open>v\<close>.
  \<open>first_walk g s f v c h\<close>: the same for a walk that leaves \<open>s\<close> once, to its peer \<open>f\<close>.\<close>

inductive walk :: "graph \<Rightarrow> node_id \<Rightarrow> node_id \<Rightarrow> nat \<Rightarrow> nat \<Rightarrow> bool" for g s where
  walk_start: "walk g s s 0 0"
| walk_step: "walk g s u c h \<Longrightarrow> e \<in> set (edges_of g u) \<Longrightarrow> walk g s (adj_peer e) (c + unat (adj_cost e)) (Suc h)"

inductive first_walk :: "graph \<Rightarrow> node_id \<Rightarrow> node_id \<Rightarrow> node_id \<Rightarrow> nat \<Rightarrow> nat \<Rightarrow> bool" for g s where
  first_start: "e \<in> set (edges_of g s) \<Longrightarrow> first_walk g s (adj_peer e) (adj_peer e) (unat (adj_cost e)) 1"
| first_step: "first_walk g s f u c h \<Longrightarrow> u \<noteq> s \<Longrightarrow> e \<in> set (edges_of g u) \<Longrightarrow>
    first_walk g s f (adj_peer e) (c + unat (adj_cost e)) (Suc h)"

lemma walk_edge_trans:
  assumes "walk g p v c h" and "e \<in> set (edges_of g s)" and "p = adj_peer e"
  shows "walk g s v (unat (adj_cost e) + c) (Suc h)"
  using assms(1)
proof (induction rule: walk.induct)
  case walk_start
  show ?case using walk_step [OF walk.walk_start [of g s] assms(2)] assms(3) by simp
next
  case (walk_step u c h e')
  then show ?case using walk.walk_step [of g s u _ _ e'] by (fastforce simp: ac_simps)
qed

lemma first_walk_walk: "first_walk g s f v c h \<Longrightarrow> walk g s v c h"
proof (induction rule: first_walk.induct)
  case (first_start e)
  then show ?case using walk.walk_step [OF walk.walk_start] by fastforce
qed (rule walk.walk_step)

text \<open>The first edge of a walk and the rest of it.\<close>

lemma first_walk_split:
  assumes "first_walk g s f v c h"
  shows "\<exists>e \<in> set (edges_of g s). adj_peer e = f \<and> unat (adj_cost e) \<le> c
    \<and> walk g f v (c - unat (adj_cost e)) (h - 1)"
  using assms
proof (induction rule: first_walk.induct)
  case (first_start e)
  then show ?case using walk.walk_start [of g "adj_peer e"] by fastforce
next
  case (first_step f u c h e)
  then obtain e0 where e0: "e0 \<in> set (edges_of g s)" "adj_peer e0 = f" "unat (adj_cost e0) \<le> c"
    and w: "walk g f u (c - unat (adj_cost e0)) (h - 1)" by blast
  have "h \<noteq> 0" using first_step.hyps(1) by (cases rule: first_walk.cases) auto
  then have "walk g f (adj_peer e) (c + unat (adj_cost e) - unat (adj_cost e0)) (Suc h - 1)"
    using walk.walk_step [OF w first_step.hyps(3)] e0(3) by simp
  then show ?case using e0 by (intro bexI [of _ e0]) auto
qed

section \<open>The invariant of the loop\<close>

definition labels_ok :: "graph \<Rightarrow> node_id \<Rightarrow> spf_state \<Rightarrow> bool" where
  "labels_ok g me st \<longleftrightarrow>
    bt_get (sp_distance st) me = Some 0 \<and> bt_get (sp_path_hops st) me = Some 0 \<and>
    bt_get (sp_first_peer st) me = None \<and>
    (\<forall>v c. v \<noteq> me \<longrightarrow> bt_get (sp_distance st) v = Some c \<longrightarrow>
      (\<exists>f h wc wh. bt_get (sp_first_peer st) v = Some f \<and> bt_get (sp_path_hops st) v = Some h \<and>
         first_walk g me f v wc wh \<and> unat c = min wc (2 ^ 32 - 1) \<and> unat h = min wh 255))"

definition relaxed :: "node_id \<Rightarrow> spf_state \<Rightarrow> node_id \<Rightarrow> u32 \<Rightarrow> adjacency \<Rightarrow> bool" where
  "relaxed me st u c e \<longleftrightarrow>
    \<not> should_replace (sat_add c (ucast (adj_cost e)))
        (if u = me then adj_peer e else the (bt_get (sp_first_peer st) u)) (adj_peer e) st"

definition settled :: "graph \<Rightarrow> node_id \<Rightarrow> node_id set \<Rightarrow> spf_state \<Rightarrow> bool" where
  "settled g me X st \<longleftrightarrow>
    (\<forall>u c. bt_get (sp_distance st) u = Some c \<longrightarrow> u \<notin> X \<longrightarrow>
      (c, u) \<in> set (sp_pending st) \<or> (\<forall>e \<in> set (edges_of g u). relaxed me st u c e))"

lemma set_label_get [simp]:
  "bt_get (sp_distance (set_label p c h f st)) v = (if v = p then Some c else bt_get (sp_distance st) v)"
  "bt_get (sp_path_hops (set_label p c h f st)) v = (if v = p then Some h else bt_get (sp_path_hops st) v)"
  "bt_get (sp_first_peer (set_label p c h f st)) v = (if v = p then Some f else bt_get (sp_first_peer st) v)"
  "set (sp_pending (set_label p c h f st)) = insert (c, p) (set (sp_pending st))"
  by (simp_all add: set_label_def)

lemma should_replace_mono:
  assumes "should_replace c f p st" and "\<not> should_replace c' f' p' st"
  shows "\<not> should_replace c' f' p' (set_label p c h f st)"
  using assms by (auto simp: should_replace_def split: option.splits if_splits)

lemma should_replace_me: "labels_ok g me st \<Longrightarrow> \<not> should_replace c f me st"
  by (simp add: labels_ok_def should_replace_def)

lemma should_replace_self: "\<not> should_replace c f p (set_label p c h f st)"
  by (simp add: should_replace_def)

lemma should_replace_loop:
  assumes "bt_get (sp_distance st) p = Some c" and "bt_get (sp_first_peer st) p = Some f"
  shows "\<not> should_replace (sat_add c w) f p st"
  using assms sat_add_ge1 [of c w] by (auto simp: should_replace_def)

lemma unat_sat_add_cost:
  "unat c = min wc (2 ^ 32 - 1) \<Longrightarrow>
    unat (sat_add c (ucast (w :: u16)) :: u32) = min (wc + unat w) (2 ^ 32 - 1)"
proof -
  have "take_bit 32 (unat w) = unat w" using unat_lt2p [of w] by (simp add: take_bit_nat_eq_self)
  then show "unat c = min wc (2 ^ 32 - 1) \<Longrightarrow> ?thesis" by (simp add: unat_sat_add unsigned_ucast_eq)
qed

lemma unat_sat_add_hops: "unat h = min wh 255 \<Longrightarrow> unat (sat_add h 1 :: u8) = min (Suc wh) 255"
  by (simp add: unat_sat_add)

definition candidate_first :: "node_id \<Rightarrow> spf_state \<Rightarrow> node_id \<Rightarrow> adjacency \<Rightarrow> node_id" where
  "candidate_first me st n e = (if n = me then adj_peer e else the (bt_get (sp_first_peer st) n))"

lemma candidate_first_set_label:
  "p \<noteq> n \<Longrightarrow> candidate_first me (set_label p c h f st) n e = candidate_first me st n e"
  by (simp add: candidate_first_def)

lemma relaxed_candidate:
  "relaxed me st u c e \<longleftrightarrow>
    \<not> should_replace (sat_add c (ucast (adj_cost e))) (candidate_first me st u e) (adj_peer e) st"
  by (simp add: relaxed_def candidate_first_def)

lemma relaxed_set_label:
  "should_replace c f p st \<Longrightarrow> u \<noteq> p \<Longrightarrow> relaxed me st u d e \<Longrightarrow> relaxed me (set_label p c h f st) u d e"
  unfolding relaxed_candidate using should_replace_mono candidate_first_set_label by metis

lemma should_replace_pending [simp]:
  "should_replace c f p (st\<lparr>sp_pending := q\<rparr>) = should_replace c f p st"
  unfolding should_replace_def by (simp split: option.split)

lemma relaxed_pending [simp]: "relaxed me (st\<lparr>sp_pending := q\<rparr>) u c e = relaxed me st u c e"
  unfolding relaxed_def by simp

lemma labels_ok_set_label:
  assumes ok: "labels_ok g me st" and n: "bt_get (sp_distance st) n = Some c"
    and e: "e \<in> set (edges_of g n)" and p: "adj_peer e \<noteq> me"
    and h: "bt_get (sp_path_hops st) n = Some h"
  shows "labels_ok g me (set_label (adj_peer e) (sat_add c (ucast (adj_cost e))) (sat_add h 1)
    (candidate_first me st n e) st)"
proof -
  obtain wc wh where w: "first_walk g me (candidate_first me st n e) (adj_peer e) (wc + unat (adj_cost e)) (Suc wh)"
    and c: "unat c = min wc (2 ^ 32 - 1)" and hh: "unat h = min wh 255"
  proof (cases "n = me")
    case True
    then have "c = 0" "h = 0" using ok n h by (auto simp: labels_ok_def)
    then show thesis using that [of 0 0] e True first_start [of e g me]
      by (simp add: candidate_first_def)
  next
    case False
    then obtain f wc wh where "bt_get (sp_first_peer st) n = Some f" "first_walk g me f n wc wh"
      "unat c = min wc (2 ^ 32 - 1)" "unat h = min wh 255"
      using ok n h unfolding labels_ok_def by (metis option.inject)
    then show thesis using that [of wc wh] False first_step [of g me f n wc wh e] e
      by (simp add: candidate_first_def)
  qed
  show ?thesis
    using ok p w unat_sat_add_cost [OF c, of "adj_cost e"] unat_sat_add_hops [OF hh]
    unfolding labels_ok_def by fastforce
qed

lemma settled_set_label:
  assumes "settled g me X st" and "should_replace c f p st"
  shows "settled g me X (set_label p c h f st)"
  unfolding settled_def
proof (intro allI impI)
  fix u d
  assume d: "bt_get (sp_distance (set_label p c h f st)) u = Some d" and u: "u \<notin> X"
  show "(d, u) \<in> set (sp_pending (set_label p c h f st)) \<or>
    (\<forall>e \<in> set (edges_of g u). relaxed me (set_label p c h f st) u d e)"
  proof (cases "u = p")
    case False
    then show ?thesis
      using d u assms(1) relaxed_set_label [OF assms(2) False] unfolding settled_def by simp blast
  qed (use d in simp)
qed

text \<open>Relaxing one edge of a labelled node: it does not panic, keeps the invariant and the label of
  the node itself, relaxes the edge and undoes no relaxation.\<close>

lemma relax_edge_step:
  assumes ok: "labels_ok g me st" and n: "bt_get (sp_distance st) n = Some c"
    and e: "e \<in> set (edges_of g n)" and X: "settled g me X st"
  shows "\<exists>st'. relax_edge me c n e st = Inr st' \<and> labels_ok g me st' \<and> settled g me X st' \<and>
    bt_get (sp_distance st') n = Some c \<and> relaxed me st' n c e \<and>
    (\<forall>e'. relaxed me st n c e' \<longrightarrow> relaxed me st' n c e')"
proof -
  let ?c = "sat_add c (ucast (adj_cost e))" and ?f = "candidate_first me st n e"
  obtain h where h: "bt_get (sp_path_hops st) n = Some h"
    using ok n unfolding labels_ok_def by (cases "n = me") auto
  have f: "n \<noteq> me \<Longrightarrow> bt_get (sp_first_peer st) n = Some ?f"
    using ok n unfolding labels_ok_def candidate_first_def by fastforce
  have run: "relax_edge me c n e st =
      Inr (if should_replace ?c ?f (adj_peer e) st then set_label (adj_peer e) ?c (sat_add h 1) ?f st else st)"
    using h f
    by (cases "n = me"; cases "bt_get (sp_first_peer st) n")
      (auto simp: relax_edge_def index_map_def candidate_first_def)
  show ?thesis
  proof (cases "should_replace ?c ?f (adj_peer e) st")
    case True
    have p: "adj_peer e \<noteq> me" "adj_peer e \<noteq> n"
      using True should_replace_me [OF ok] should_replace_loop [OF n] f by metis+
    have "relaxed me (set_label (adj_peer e) ?c (sat_add h 1) ?f st) n c e"
      using p should_replace_self by (simp add: relaxed_candidate candidate_first_set_label)
    then show ?thesis
      using True run labels_ok_set_label [OF ok n e p(1) h] settled_set_label [OF X True] n p
        relaxed_set_label [OF True]
      by auto
  qed (use run ok n X in \<open>simp add: relaxed_candidate\<close>)
qed

lemma relax_edges_step:
  assumes "labels_ok g me st" and "bt_get (sp_distance st) n = Some c"
    and "set es \<subseteq> set (edges_of g n)" and "settled g me X st"
  shows "\<exists>st'. relax_edges me c n es st = Inr st' \<and> labels_ok g me st' \<and> settled g me X st' \<and>
    bt_get (sp_distance st') n = Some c \<and> (\<forall>e \<in> set es. relaxed me st' n c e) \<and>
    (\<forall>e'. relaxed me st n c e' \<longrightarrow> relaxed me st' n c e')"
  using assms
proof (induction es arbitrary: st)
  case (Cons e es)
  then obtain st1 where st1: "relax_edge me c n e st = Inr st1" "labels_ok g me st1" "settled g me X st1"
    "bt_get (sp_distance st1) n = Some c" "relaxed me st1 n c e"
    "\<forall>e'. relaxed me st n c e' \<longrightarrow> relaxed me st1 n c e'"
    using relax_edge_step [of g me st n c e X] by auto
  with Cons.IH [of st1] Cons.prems(3) show ?case by (auto simp: relax_edges_def)
qed (simp add: relax_edges_def)

lemma spf_loop_ok:
  assumes "labels_ok g me st" and "settled g me {} st"
  shows "\<exists>st'. spf_loop me g st = Inr st' \<and> labels_ok g me st' \<and> settled g me {} st' \<and> sp_pending st' = []"
  using assms
proof (induction me g st rule: spf_loop.induct)
  case (1 me g st)
  show ?case
  proof (cases "heap_pop (sp_pending st)")
    case None
    then show ?thesis using 1(4,5) by (subst spf_loop.simps) simp
  next
    case (Some r)
    then obtain c n q where pop: "heap_pop (sp_pending st) = Some ((c, n), q)" by (cases r) auto
    let ?st = "st\<lparr>sp_pending := q\<rparr>"
    have ok: "labels_ok g me ?st" using 1(4) by (simp add: labels_ok_def)
    have most: "settled g me {n} ?st"
      using 1(5) heap_pop_set [OF pop] by (auto simp: settled_def)
    show ?thesis
    proof (cases "bt_get (sp_distance st) n = Some c")
      case False
      then have "settled g me {} ?st"
        using 1(5) heap_pop_set [OF pop] unfolding settled_def by simp blast
      then show ?thesis
        using 1(1) [OF pop refl refl refl] ok False by (subst spf_loop.simps) (simp add: pop)
    next
      case True
      show ?thesis
      proof (cases "bt_get g n")
        case None
        then have "edges_of g n = []" by (simp add: edges_of_def)
        then have "settled g me {} ?st" using most unfolding settled_def by force
        then show ?thesis
          using 1(2) [OF pop refl refl refl] ok True None by (subst spf_loop.simps) (simp add: pop)
      next
        case (Some es)
        have "bt_get (sp_distance ?st) n = Some c" using True by simp
        from relax_edges_step [OF ok this _ most, of es] Some
        obtain st' where st': "relax_edges me c n es ?st = Inr st'" "labels_ok g me st'"
          "settled g me {n} st'" "bt_get (sp_distance st') n = Some c"
          "\<forall>e \<in> set es. relaxed me st' n c e"
          by (auto simp: edges_of_def)
        then have "settled g me {} st'" using Some unfolding settled_def edges_of_def by force
        then show ?thesis
          using 1(3) [OF pop refl refl refl _ Some st'(1)] st'(1,2) True Some
          by (subst spf_loop.simps) (simp add: pop)
      qed
    qed
  qed
qed

section \<open>What the loop computes\<close>

lemma bidirectional_graph_get:
  "bt_get (bidirectional_graph lsdb) origin =
    map_option (\<lambda>a. filter (accepts_edge lsdb origin) (lsa_adjacencies (msg_lsa (al_message a))))
      (Option.bind (bt_get lsdb origin) entry_active)"
proof -
  let ?F = "\<lambda>origin entry. map_option
    (\<lambda>a. filter (accepts_edge lsdb origin) (lsa_adjacencies (msg_lsa (al_message a)))) (entry_active entry)"
  have "bidirectional_graph lsdb =
    fold (\<lambda>(k, v) m. case ?F k v of None \<Rightarrow> m | Some x \<Rightarrow> bt_insert k x m) (bt_entries lsdb) bt_empty"
    unfolding bidirectional_graph_def by (intro fold_cong) (auto split: option.splits)
  also have "bt_get \<dots> origin = Option.bind (bt_get lsdb origin) (?F origin)"
    by (subst bt_get_fold_entries) (auto simp: bt_map_of_entries split: option.splits)
  finally show ?thesis by (cases "bt_get lsdb origin") simp_all
qed

lemma edges_of_graph_iff:
  "e \<in> set (edges_of (bidirectional_graph lsdb) u) \<longleftrightarrow>
    (\<exists>x a y b. bt_get lsdb u = Some x \<and> entry_active x = Some a \<and>
       e \<in> set (lsa_adjacencies (msg_lsa (al_message a))) \<and>
       bt_get lsdb (adj_peer e) = Some y \<and> entry_active y = Some b \<and>
       (\<exists>back \<in> set (lsa_adjacencies (msg_lsa (al_message b))). adj_peer back = u))"
proof (cases "Option.bind (bt_get lsdb u) entry_active")
  case None
  then have "edges_of (bidirectional_graph lsdb) u = []" by (simp add: edges_of_def bidirectional_graph_get)
  then show ?thesis using None by auto
next
  case (Some a)
  then obtain x where "bt_get lsdb u = Some x" "entry_active x = Some a" by (auto simp: bind_eq_Some_conv)
  then show ?thesis
    by (auto simp: edges_of_def bidirectional_graph_get accepts_edge_def list_ex_iff split: option.splits)
qed

lemma spf_start_ok: "labels_ok g me (spf_start me)" "settled g me {} (spf_start me)"
  by (auto simp: labels_ok_def settled_def spf_start_def)

lemma spf_loop_result:
  obtains st where "spf_loop me g (spf_start me) = Inr st" "labels_ok g me st" "settled g me {} st"
    "sp_pending st = []"
  using spf_loop_ok [OF spf_start_ok] by blast

lemma settled_label:
  assumes "settled g me {} st" and "sp_pending st = []"
    and "bt_get (sp_distance st) u = Some c" and "e \<in> set (edges_of g u)"
  shows "\<exists>d. bt_get (sp_distance st) (adj_peer e) = Some d \<and> d \<le> sat_add c (ucast (adj_cost e)) \<and>
    (\<forall>f. d = sat_add c (ucast (adj_cost e)) \<longrightarrow> bt_get (sp_first_peer st) (adj_peer e) = Some f \<longrightarrow>
      f \<le> candidate_first me st u e)"
proof -
  have "relaxed me st u c e" using assms unfolding settled_def by auto
  then show ?thesis
    by (auto simp: relaxed_candidate should_replace_def split: option.splits if_splits)
qed

text \<open>No walk is cheaper than the label of its end.\<close>

lemma label_le_walk:
  assumes ok: "labels_ok g me st" and st: "settled g me {} st" "sp_pending st = []"
    and "walk g me v c h"
  shows "\<exists>d. bt_get (sp_distance st) v = Some d \<and> unat d \<le> c"
  using assms(4)
proof (induction rule: walk.induct)
  case walk_start
  then show ?case using ok by (simp add: labels_ok_def)
next
  case (walk_step u c h e)
  then obtain d where d: "bt_get (sp_distance st) u = Some d" "unat d \<le> c" by blast
  obtain d' where "bt_get (sp_distance st) (adj_peer e) = Some d'" "d' \<le> sat_add d (ucast (adj_cost e))"
    using settled_label [OF st d(1) walk_step.hyps(2)] by blast
  moreover have "unat (sat_add d (ucast (adj_cost e)) :: u32) \<le> unat d + unat (adj_cost e)"
    using unat_sat_add_cost [of d "unat d" "adj_cost e"] unat_le_max [of d] by simp
  ultimately show ?case using d(2) by (force simp: word_le_nat_alt)
qed

text \<open>Among the cheapest walks the label keeps the least first hop.\<close>

lemma label_first_least:
  assumes ok: "labels_ok g me st" and st: "settled g me {} st" "sp_pending st = []"
    and "first_walk g me f v c h"
  shows "v \<noteq> me \<longrightarrow> c < 2 ^ 32 - 1 \<longrightarrow> bt_get (sp_distance st) v = Some d \<longrightarrow> unat d = c \<longrightarrow>
    (\<exists>f0. bt_get (sp_first_peer st) v = Some f0 \<and> f0 \<le> f)"
  using assms(4)
proof (induction arbitrary: d rule: first_walk.induct)
  case (first_start e)
  have me: "bt_get (sp_distance st) me = Some 0" using ok by (simp add: labels_ok_def)
  show ?case
  proof (intro impI)
    assume v: "adj_peer e \<noteq> me" and d: "bt_get (sp_distance st) (adj_peer e) = Some d" "unat d = unat (adj_cost e)"
    from ok v d(1) obtain f0 where f0: "bt_get (sp_first_peer st) (adj_peer e) = Some f0"
      unfolding labels_ok_def by blast
    have "d = sat_add 0 (ucast (adj_cost e))"
      using d(2) unat_sat_add_cost [of 0 0 "adj_cost e"] unat_lt2p [of "adj_cost e"]
      by (simp add: word_unat_eq_iff)
    then show "\<exists>f0. bt_get (sp_first_peer st) (adj_peer e) = Some f0 \<and> f0 \<le> adj_peer e"
      using settled_label [OF st me first_start] d(1) f0 by (auto simp: candidate_first_def)
  qed
next
  case (first_step f u c h e)
  show ?case
  proof (intro impI)
    assume v: "adj_peer e \<noteq> me" and d: "bt_get (sp_distance st) (adj_peer e) = Some d"
      and c: "c + unat (adj_cost e) < 2 ^ 32 - 1" "unat d = c + unat (adj_cost e)"
    obtain du where du: "bt_get (sp_distance st) u = Some du" "unat du \<le> c"
      using label_le_walk [OF ok st first_walk_walk [OF first_step.hyps(1)]] by blast
    have add: "unat (sat_add du (ucast (adj_cost e)) :: u32) = unat du + unat (adj_cost e)"
      using unat_sat_add_cost [of du "unat du" "adj_cost e"] du(2) c(1) by simp
    from settled_label [OF st du(1) first_step.hyps(3)] d
    have "d \<le> sat_add du (ucast (adj_cost e))" by auto
    then have eq: "unat du = c" using add c(2) du(2) by (simp add: word_le_nat_alt)
    then have "d = sat_add du (ucast (adj_cost e))"
      using add c(2) by (simp add: word_unat_eq_iff)
    moreover obtain f1 where f1: "bt_get (sp_first_peer st) u = Some f1" "f1 \<le> f"
      using first_step.IH [of du] first_step.hyps(2) c(1) du(1) eq by auto
    moreover obtain f0 where "bt_get (sp_first_peer st) (adj_peer e) = Some f0"
      using ok v d unfolding labels_ok_def by blast
    ultimately show "\<exists>f0. bt_get (sp_first_peer st) (adj_peer e) = Some f0 \<and> f0 \<le> f"
      using settled_label [OF st du(1) first_step.hyps(3)] d first_step.hyps(2)
      by (auto simp: candidate_first_def)
  qed
qed

section \<open>Route tables\<close>

lemma best_link_to_Min:
  "best_link_to adjs p =
    (let K = (\<lambda>(l, a). (la_cost a, l)) ` set (filter (\<lambda>(l, a). la_peer a = p) (bt_entries adjs))
     in if K = {} then None else Some (snd (Min K)))"
  by (cases "filter (\<lambda>(l, a). la_peer a = p) (bt_entries adjs)")
    (simp_all add: best_link_to_def fold_min_Min del: set_filter)

lemma best_link_to_Some:
  "best_link_to adjs p = Some l \<longleftrightarrow>
    (\<exists>a. bt_get adjs l = Some a \<and> la_peer a = p \<and>
      (\<forall>l' a'. bt_get adjs l' = Some a' \<longrightarrow> la_peer a' = p \<longrightarrow> (la_cost a, l) \<le> (la_cost a', l')))"
  (is "?L \<longleftrightarrow> ?R")
proof -
  define K where "K = (\<lambda>(l, a). (la_cost a, l)) ` set (filter (\<lambda>(l, a). la_peer a = p) (bt_entries adjs))"
  have K: "x \<in> K \<longleftrightarrow> (\<exists>l a. x = (la_cost a, l) \<and> bt_get adjs l = Some a \<and> la_peer a = p)" for x
    by (force simp: K_def bt_entries_iff)
  have fin: "finite K" by (simp add: K_def)
  have "?L \<longleftrightarrow> K \<noteq> {} \<and> snd (Min K) = l"
    unfolding best_link_to_Min K_def [symmetric] by (auto simp: Let_def)
  also have "\<dots> \<longleftrightarrow> (\<exists>a. (la_cost a, l) \<in> K \<and> (\<forall>x \<in> K. (la_cost a, l) \<le> x) \<and> bt_get adjs l = Some a)"
  proof
    assume l: "K \<noteq> {} \<and> snd (Min K) = l"
    then have "Min K \<in> K" using fin by simp
    then obtain a where "Min K = (la_cost a, l)" "bt_get adjs l = Some a" using K l by auto
    then show "\<exists>a. (la_cost a, l) \<in> K \<and> (\<forall>x \<in> K. (la_cost a, l) \<le> x) \<and> bt_get adjs l = Some a"
      using fin \<open>Min K \<in> K\<close> by (metis Min_le)
  next
    assume "\<exists>a. (la_cost a, l) \<in> K \<and> (\<forall>x \<in> K. (la_cost a, l) \<le> x) \<and> bt_get adjs l = Some a"
    then obtain a where "(la_cost a, l) \<in> K" "\<forall>x \<in> K. (la_cost a, l) \<le> x"
      "bt_get adjs l = Some a" by blast
    then show "K \<noteq> {} \<and> snd (Min K) = l" using fin Min_eqI [of K "(la_cost a, l)"] by auto
  qed
  also have "\<dots> \<longleftrightarrow> ?R" unfolding Ball_def K by (force simp del: less_eq_prod_simp)
  finally show ?thesis .
qed

lemma best_link_to_None:
  "best_link_to adjs p = None \<longleftrightarrow> (\<forall>l a. bt_get adjs l = Some a \<longrightarrow> la_peer a \<noteq> p)"
  by (auto simp: best_link_to_Min Let_def bt_entries_iff)

lemma shortest_paths_get:
  obtains st routes where "shortest_paths me lsdb adjs = Inr routes"
    "labels_ok (bidirectional_graph lsdb) me st" "settled (bidirectional_graph lsdb) me {} st"
    "sp_pending st = []"
    "\<And>v r. bt_get routes v = Some r \<longleftrightarrow> v \<noteq> me \<and> bt_get (sp_distance st) v = Some (rt_cost r) \<and>
      bt_get (sp_path_hops st) v = Some (rt_hops r) \<and>
      (\<exists>f. bt_get (sp_first_peer st) v = Some f \<and> best_link_to adjs f = Some (rt_next_hop r))"
proof -
  obtain st where st: "spf_loop me (bidirectional_graph lsdb) (spf_start me) = Inr st"
    "labels_ok (bidirectional_graph lsdb) me st" "settled (bidirectional_graph lsdb) me {} st"
    "sp_pending st = []" using spf_loop_result by blast
  define F where "F = (\<lambda>(v, c). if v = me then None else map_option
    (\<lambda>l. (v, \<lparr>rt_next_hop = l, rt_cost = c, rt_hops = the (bt_get (sp_path_hops st) v)\<rparr>))
    (best_link_to adjs (the (bt_get (sp_first_peer st) v))))"
  have lab: "\<exists>f h. bt_get (sp_first_peer st) v = Some f \<and> bt_get (sp_path_hops st) v = Some h"
    if "v \<noteq> me" "bt_get (sp_distance st) v = Some c" for v c
    using st(2) that unfolding labels_ok_def by blast
  have "rmap (collect_route me adjs st) (bt_entries (sp_distance st)) = Inr (map F (bt_entries (sp_distance st)))"
  proof (rule rmap_Inr, clarify)
    fix v c assume "(v, c) \<in> set (bt_entries (sp_distance st))"
    then have "bt_get (sp_distance st) v = Some c" by (simp add: bt_entries_iff)
    with lab show "collect_route me adjs st (v, c) = Inr (F (v, c))"
      by (cases "v = me") (fastforce simp: collect_route_def F_def index_map_def split: option.splits)+
  qed
  then have run: "shortest_paths me lsdb adjs =
      Inr (bt_collect (List.map_filter id (map F (bt_entries (sp_distance st)))))"
    by (simp add: shortest_paths_def st(1))
  have mem: "(v, r) \<in> set (List.map_filter id (map F (bt_entries (sp_distance st)))) \<longleftrightarrow>
      (\<exists>c. bt_get (sp_distance st) v = Some c \<and> F (v, c) = Some (v, r))" for v r
  proof -
    have F: "F (v', c) = Some (v, r) \<Longrightarrow> v' = v" for v' c by (auto simp: F_def split: if_splits)
    show ?thesis
      unfolding map_filter_set set_map by (auto simp: bt_entries_iff [symmetric] image_iff) (metis F)+
  qed
  have "bt_get (bt_collect (List.map_filter id (map F (bt_entries (sp_distance st))))) v = Some r \<longleftrightarrow>
      (\<exists>c. bt_get (sp_distance st) v = Some c \<and> F (v, c) = Some (v, r))" for v r
    by (subst bt_get_collect_functional) (auto simp: mem)
  moreover have "(\<exists>c. bt_get (sp_distance st) v = Some c \<and> F (v, c) = Some (v, r)) \<longleftrightarrow>
      v \<noteq> me \<and> bt_get (sp_distance st) v = Some (rt_cost r) \<and>
      bt_get (sp_path_hops st) v = Some (rt_hops r) \<and>
      (\<exists>f. bt_get (sp_first_peer st) v = Some f \<and> best_link_to adjs f = Some (rt_next_hop r))" for v r
    using lab [of v] by (cases r; cases "v = me"; cases "bt_get (sp_distance st) v") (auto simp: F_def)
  ultimately show thesis using that [OF run st(2-4)] by simp
qed

definition spf_done :: "node_id \<Rightarrow> (node_id, lsdb_entry) btree \<Rightarrow> spf_state \<Rightarrow> bool" where
  "spf_done me lsdb st \<longleftrightarrow> labels_ok (bidirectional_graph lsdb) me st \<and>
    settled (bidirectional_graph lsdb) me {} st \<and> sp_pending st = []"

lemma spf_done_walk:
  "spf_done me lsdb st \<Longrightarrow> walk (bidirectional_graph lsdb) me v c h \<Longrightarrow>
    \<exists>d. bt_get (sp_distance st) v = Some d \<and> unat d \<le> c"
  using label_le_walk by (auto simp: spf_done_def)

definition reads_labels ::
  "node_id \<Rightarrow> (link_id, local_adjacency) btree \<Rightarrow> spf_state \<Rightarrow> (node_id, route) btree \<Rightarrow> bool" where
  "reads_labels me adjs st routes \<longleftrightarrow>
    (\<forall>v r. bt_get routes v = Some r \<longleftrightarrow> v \<noteq> me \<and> bt_get (sp_distance st) v = Some (rt_cost r) \<and>
      bt_get (sp_path_hops st) v = Some (rt_hops r) \<and>
      (\<exists>f. bt_get (sp_first_peer st) v = Some f \<and> best_link_to adjs f = Some (rt_next_hop r)))"

lemma shortest_paths_total:
  "\<exists>routes st. shortest_paths me lsdb adjs = Inr routes \<and> spf_done me lsdb st \<and> reads_labels me adjs st routes"
proof (rule shortest_paths_get [of me lsdb adjs], goal_cases)
  case (1 routes st)
  then show ?case unfolding spf_done_def reads_labels_def by blast
qed

lemma shortest_paths_labels:
  "shortest_paths me lsdb adjs = Inr routes \<Longrightarrow> \<exists>st. spf_done me lsdb st \<and> reads_labels me adjs st routes"
  using shortest_paths_total [of me lsdb adjs] by auto

text \<open>The route the graph \<open>g\<close> prescribes from \<open>me\<close> to \<open>v\<close>: a walk of least cost, and among those of
  least cost the least first hop.\<close>

definition best_route :: "graph \<Rightarrow> node_id \<Rightarrow> node_id \<Rightarrow> node_id \<Rightarrow> nat \<Rightarrow> nat \<Rightarrow> bool" where
  "best_route g me v f c h \<longleftrightarrow>
    first_walk g me f v c h \<and> (\<forall>c' h'. walk g me v c' h' \<longrightarrow> c \<le> c') \<and>
    (\<forall>f' h'. first_walk g me f' v c h' \<longrightarrow> f \<le> f')"

text \<open>Every peer the graph gives \<open>me\<close> is reached by a local link.\<close>

definition links_cover :: "graph \<Rightarrow> node_id \<Rightarrow> (link_id, local_adjacency) btree \<Rightarrow> bool" where
  "links_cover g me adjs \<longleftrightarrow> list_all (\<lambda>e. best_link_to adjs (adj_peer e) \<noteq> None) (edges_of g me)"

lemma links_cover_first:
  "links_cover g me adjs \<Longrightarrow> first_walk g me f v c h \<Longrightarrow> best_link_to adjs f \<noteq> None"
  using first_walk_split [of g me f v c h] by (auto simp: links_cover_def list_all_iff)

lemma shortest_paths_route:
  assumes "shortest_paths me lsdb adjs = Inr routes" and "bt_get routes v = Some r"
    and "unat (rt_cost r) < 2 ^ 32 - 1"
  shows "v \<noteq> me \<and> (\<exists>f h. best_route (bidirectional_graph lsdb) me v f (unat (rt_cost r)) h \<and>
    unat (rt_hops r) = min h 255 \<and> best_link_to adjs f = Some (rt_next_hop r))"
proof -
  let ?g = "bidirectional_graph lsdb"
  obtain st where st: "spf_done me lsdb st" and get: "reads_labels me adjs st routes"
    using shortest_paths_labels [OF assms(1)] by blast
  have v: "v \<noteq> me" "bt_get (sp_distance st) v = Some (rt_cost r)" using get assms(2) by (auto simp: reads_labels_def)
  obtain f where f: "bt_get (sp_first_peer st) v = Some f" "best_link_to adjs f = Some (rt_next_hop r)"
    and h: "bt_get (sp_path_hops st) v = Some (rt_hops r)" using get assms(2) by (auto simp: reads_labels_def)
  have ok: "labels_ok ?g me st" using st by (simp add: spf_done_def)
  from ok v f(1) h obtain wc wh where w: "first_walk ?g me f v wc wh"
    "unat (rt_cost r) = min wc (2 ^ 32 - 1)" "unat (rt_hops r) = min wh 255"
    unfolding labels_ok_def by (metis option.inject)
  from w(2) assms(3) have wc: "wc = unat (rt_cost r)" by (simp add: min_def split: if_splits)
  have "unat (rt_cost r) \<le> c'" if "walk ?g me v c' h'" for c' h'
    using spf_done_walk [OF st that] v(2) by auto
  moreover have "f \<le> f'" if "first_walk ?g me f' v (unat (rt_cost r)) h'" for f' h'
    using label_first_least [OF ok _ _ that] st v f(1) assms(3) by (auto simp: spf_done_def)
  ultimately show ?thesis using v f w wc unfolding best_route_def by blast
qed

lemma shortest_paths_domain:
  assumes "links_cover (bidirectional_graph lsdb) me adjs"
  shows "\<exists>routes. shortest_paths me lsdb adjs = Inr routes \<and>
    (\<forall>v. bt_get routes v \<noteq> None \<longleftrightarrow> v \<noteq> me \<and> (\<exists>c h. walk (bidirectional_graph lsdb) me v c h))"
proof -
  let ?g = "bidirectional_graph lsdb"
  obtain routes where run: "shortest_paths me lsdb adjs = Inr routes" using shortest_paths_total by blast
  obtain st where st: "spf_done me lsdb st" and get: "reads_labels me adjs st routes"
    using shortest_paths_labels [OF run] by blast
  have ok: "labels_ok ?g me st" using st by (simp add: spf_done_def)
  have "bt_get routes v \<noteq> None \<longleftrightarrow> v \<noteq> me \<and> (\<exists>c h. walk ?g me v c h)" for v
  proof
    assume "bt_get routes v \<noteq> None"
    then obtain r where "bt_get routes v = Some r" by blast
    then have v: "v \<noteq> me" "bt_get (sp_distance st) v = Some (rt_cost r)"
      using get by (auto simp: reads_labels_def)
    then obtain f wc wh where "first_walk ?g me f v wc wh" using ok unfolding labels_ok_def by blast
    then show "v \<noteq> me \<and> (\<exists>c h. walk ?g me v c h)" using v(1) first_walk_walk by blast
  next
    assume v: "v \<noteq> me \<and> (\<exists>c h. walk ?g me v c h)"
    then obtain d where d: "bt_get (sp_distance st) v = Some d" using spf_done_walk [OF st] by blast
    with v ok obtain f h wc wh where
      l: "bt_get (sp_first_peer st) v = Some f" "bt_get (sp_path_hops st) v = Some h" "first_walk ?g me f v wc wh"
      unfolding labels_ok_def by blast
    then obtain l where "best_link_to adjs f = Some l" using links_cover_first [OF assms] by blast
    then have "bt_get routes v = Some \<lparr>rt_next_hop = l, rt_cost = d, rt_hops = h\<rparr>"
      using get d l v by (simp add: reads_labels_def)
    then show "bt_get routes v \<noteq> None" by simp
  qed
  then show ?thesis using run by blast
qed

lemma shortest_paths_cost_le:
  assumes "shortest_paths me lsdb adjs = Inr routes" and "bt_get routes v = Some r"
    and "walk (bidirectional_graph lsdb) me v c h"
  shows "unat (rt_cost r) \<le> c"
proof -
  obtain st where st: "spf_done me lsdb st" and get: "reads_labels me adjs st routes"
    using shortest_paths_labels [OF assms(1)] by blast
  then show ?thesis using spf_done_walk [OF st assms(3)] assms(2) by (auto simp: reads_labels_def)
qed

section \<open>Properties\<close>

text \<open>A line of three nodes, with an edge to a fourth node that does not advertise it back.\<close>

definition sample_lsdb_entry :: "node_id \<Rightarrow> adjacency list \<Rightarrow> lsdb_entry" where
  "sample_lsdb_entry origin adjs =
    \<lparr>le_version = (0, 1), le_state = LS_Active
      \<lparr>al_message = unsecured_sign
         \<lparr>lsa_origin = origin, lsa_epoch = 0, lsa_seq = 1, lsa_ttl_sec = 300, lsa_adjacencies = adjs, lsa_topics = []\<rparr>,
       al_received_at = 0, al_expires_at = 300000\<rparr>\<rparr>"

definition line_lsdb :: "(node_id, lsdb_entry) btree" where
  "line_lsdb = bt_collect
    [(1, sample_lsdb_entry 1 [\<lparr>adj_peer = 2, adj_cost = 5\<rparr>, \<lparr>adj_peer = 4, adj_cost = 1\<rparr>]),
     (2, sample_lsdb_entry 2 [\<lparr>adj_peer = 1, adj_cost = 5\<rparr>, \<lparr>adj_peer = 3, adj_cost = 7\<rparr>]),
     (3, sample_lsdb_entry 3 [\<lparr>adj_peer = 2, adj_cost = 7\<rparr>]),
     (4, sample_lsdb_entry 4 [])]"

definition line_links :: "link_id \<Rightarrow> node_id list \<Rightarrow> (link_id, local_adjacency) btree" where
  "line_links base peers =
    bt_collect (map (\<lambda>p. (base + ucast p, \<lparr>la_peer = p, la_cost = 5\<rparr>)) peers)"

text \<open>
C10: The graph of the LSDB is bidirectional. \<open>bidirectional_graph\<close> gives a node exactly those edges
of its active LSA whose peer has an active LSA that lists the node back; origins without an active
LSA have no edges.
\<close>

theorem graph_mutual:
  "e \<in> set (edges_of (bidirectional_graph lsdb) u) \<longleftrightarrow>
    (\<exists>x a y b. bt_get lsdb u = Some x \<and> entry_active x = Some a \<and>
       e \<in> set (lsa_adjacencies (msg_lsa (al_message a))) \<and>
       bt_get lsdb (adj_peer e) = Some y \<and> entry_active y = Some b \<and>
       (\<exists>back \<in> set (lsa_adjacencies (msg_lsa (al_message b))). adj_peer back = u))"
  by (rule edges_of_graph_iff)

text \<open>
C16: The shortest-path computation always returns: the loop ends on every database without a failing
map access. When every peer of the local LSA is reached by a local link, the table has a route to a
node exactly when the node is another one that some walk of the bidirectional graph reaches.
\<close>

theorem routes_iff_reachable:
  assumes "links_cover (bidirectional_graph lsdb) me adjs"
  shows "\<exists>routes. shortest_paths me lsdb adjs = Inr routes \<and>
    (\<forall>v. bt_get routes v \<noteq> None \<longleftrightarrow> v \<noteq> me \<and> (\<exists>c h. walk (bidirectional_graph lsdb) me v c h))"
  using assms by (rule shortest_paths_domain)

theorem routes_iff_reachable_witness:
  "links_cover (bidirectional_graph line_lsdb) 1 (line_links 10 [2]) \<and>
   (\<exists>routes. shortest_paths 1 line_lsdb (line_links 10 [2]) = Inr routes \<and>
    (\<forall>v. bt_get routes v \<noteq> None \<longleftrightarrow> v \<noteq> 1 \<and> (\<exists>c h. walk (bidirectional_graph line_lsdb) 1 v c h)))"
proof -
  have "links_cover (bidirectional_graph line_lsdb) 1 (line_links 10 [2])" by code_simp
  then show ?thesis using routes_iff_reachable [of line_lsdb 1 "line_links 10 [2]"] by blast
qed

text \<open>
C4: A route is a best route. Its cost is that of a walk of the bidirectional graph, no walk to the
destination is cheaper, its first hop is the least among the walks of that cost, its hop count is
that of such a walk (at most 255), and its next hop is the local link to that first hop with the
least cost and, among those, the least link number.
\<close>

theorem routes_optimal:
  assumes "shortest_paths me lsdb adjs = Inr routes" and "bt_get routes v = Some r"
    and "unat (rt_cost r) < 2 ^ 32 - 1"
  shows "v \<noteq> me \<and> (\<exists>f h a. best_route (bidirectional_graph lsdb) me v f (unat (rt_cost r)) h \<and>
    unat (rt_hops r) = min h 255 \<and> bt_get adjs (rt_next_hop r) = Some a \<and> la_peer a = f \<and>
    (\<forall>l' a'. bt_get adjs l' = Some a' \<longrightarrow> la_peer a' = f \<longrightarrow> (la_cost a, rt_next_hop r) \<le> (la_cost a', l')))"
  using shortest_paths_route [OF assms] unfolding best_link_to_Some by blast

theorem routes_optimal_witness:
  "\<exists>routes r. shortest_paths 1 line_lsdb (line_links 10 [2]) = Inr routes \<and> bt_get routes 3 = Some r \<and>
    unat (rt_cost r) = 12 \<and> (3 :: node_id) \<noteq> 1 \<and>
    (\<exists>f h a. best_route (bidirectional_graph line_lsdb) 1 3 f 12 h \<and>
      unat (rt_hops r) = min h 255 \<and> bt_get (line_links 10 [2]) (rt_next_hop r) = Some a \<and> la_peer a = f)"
proof -
  let ?run = "shortest_paths 1 line_lsdb (line_links 10 [2])"
  let ?r = "\<lparr>rt_next_hop = 12, rt_cost = 12, rt_hops = 2\<rparr>"
  have "\<not> isl ?run \<and> bt_get (projr ?run) 3 = Some ?r" by code_simp
  then have run: "?run = Inr (projr ?run)" and get: "bt_get (projr ?run) 3 = Some ?r" by simp_all
  show ?thesis
    using routes_optimal [OF run get] run get by (intro exI [of _ "projr ?run"] exI [of _ ?r]) auto
qed

text \<open>
C9: Next hops do not loop. When two nodes compute their routes from the same database, link costs
are positive (as \<open>LinkCost\<close> makes them), and the local links of the second reach its advertised
peers, then a node that sends towards a destination through a peer hands the packet to a peer whose
own route to the destination is strictly cheaper.
\<close>

theorem next_hops_loop_free:
  assumes "shortest_paths a lsdb adjs_a = Inr routes_a" and "bt_get routes_a d = Some r"
    and "unat (rt_cost r) < 2 ^ 32 - 1"
    and "bt_get adjs_a (rt_next_hop r) = Some l" and "la_peer l \<noteq> d"
    and "\<forall>e \<in> set (edges_of (bidirectional_graph lsdb) a). adj_cost e \<noteq> 0"
    and "links_cover (bidirectional_graph lsdb) (la_peer l) adjs_b"
    and "shortest_paths (la_peer l) lsdb adjs_b = Inr routes_b"
  shows "\<exists>r'. bt_get routes_b d = Some r' \<and> rt_cost r' < rt_cost r"
proof -
  let ?g = "bidirectional_graph lsdb"
  obtain f h where f: "best_link_to adjs_a f = Some (rt_next_hop r)" "first_walk ?g a f d (unat (rt_cost r)) h"
    using shortest_paths_route [OF assms(1-3)] unfolding best_route_def by blast
  then have fb: "f = la_peer l" using assms(4) by (auto simp: best_link_to_Some)
  obtain e where e: "e \<in> set (edges_of ?g a)" "unat (adj_cost e) \<le> unat (rt_cost r)"
    and w: "walk ?g f d (unat (rt_cost r) - unat (adj_cost e)) (h - 1)"
    using first_walk_split [OF f(2)] by blast
  obtain r' where r': "bt_get routes_b d = Some r'"
    using shortest_paths_domain [OF assms(7)] assms(5,8) w fb by auto
  moreover have "unat (rt_cost r') \<le> unat (rt_cost r) - unat (adj_cost e)"
    using shortest_paths_cost_le [OF assms(8) r'] w fb by simp
  moreover have "unat (adj_cost e) > 0" using assms(6) e(1) by (simp add: unat_gt_0)
  ultimately show ?thesis using e(2) by (auto simp: word_less_nat_alt)
qed

theorem next_hops_loop_free_witness:
  "\<exists>routes_a r routes_b r'. shortest_paths 1 line_lsdb (line_links 10 [2]) = Inr routes_a \<and>
    shortest_paths 2 line_lsdb (line_links 20 [1, 3]) = Inr routes_b \<and>
    bt_get routes_a 3 = Some r \<and> bt_get routes_b 3 = Some r' \<and> rt_cost r' < rt_cost r"
proof -
  let ?a = "shortest_paths 1 line_lsdb (line_links 10 [2])"
  let ?b = "shortest_paths 2 line_lsdb (line_links 20 [1, 3])"
  let ?r = "\<lparr>rt_next_hop = 12, rt_cost = 12, rt_hops = 2\<rparr>"
  let ?l = "\<lparr>la_peer = 2, la_cost = 5\<rparr>"
  have "\<not> isl ?a \<and> bt_get (projr ?a) 3 = Some ?r" by code_simp
  then have a: "?a = Inr (projr ?a)" and r: "bt_get (projr ?a) 3 = Some ?r" by simp_all
  have "\<not> isl ?b" by code_simp
  then have b: "shortest_paths (la_peer ?l) line_lsdb (line_links 20 [1, 3]) = Inr (projr ?b)" by simp
  have l: "bt_get (line_links 10 [2]) (rt_next_hop ?r) = Some ?l" by code_simp
  have pos: "\<forall>e \<in> set (edges_of (bidirectional_graph line_lsdb) 1). adj_cost e \<noteq> 0" by code_simp
  have cover: "links_cover (bidirectional_graph line_lsdb) (la_peer ?l) (line_links 20 [1, 3])" by code_simp
  have "\<exists>r'. bt_get (projr ?b) 3 = Some r' \<and> rt_cost r' < rt_cost ?r"
    using next_hops_loop_free [OF a r _ l _ pos cover b] by simp
  then obtain r' where "bt_get (projr ?b) 3 = Some r'" "rt_cost r' < rt_cost ?r" by blast
  then show ?thesis
    using a r b
    by (intro exI [of _ "projr ?a"] exI [of _ ?r] exI [of _ "projr ?b"] exI [of _ r']) simp
qed

end
