(* ===== verification/Control.thy ===== *)
theory Control
  imports Spf
begin

text \<open>
  Crate \<open>mb-control\<close>, the machine \<open>ControlPlane\<close>: origination, flooding, digest reconciliation,
  expiry and refresh of LSAs, and the holding-down of route computation. Every method is a function
  of the state that returns the actions in the order the code pushes them; \<open>control_handle\<close> is the
  implementation of \<open>Component::handle\<close>.
\<close>

section \<open>Operations\<close>

definition lsa_version :: "lsa \<Rightarrow> version" where
  "lsa_version l = (lsa_epoch l, lsa_seq l)"

definition ttl_ms :: "lsa \<Rightarrow> u64" where
  "ttl_ms l = sat_mul (ucast (lsa_ttl_sec l)) 1000"

definition valid_topic_ad :: "topic_ad \<Rightarrow> bool" where
  "valid_topic_ad ad \<longleftrightarrow>
    ta_topic ad \<noteq> [] \<and> length (ta_topic ad) \<le> MAX_TOPIC_NAME_LEN \<and>
    length (ta_partition ad) \<le> MAX_TOPIC_PARTITION_LEN \<and> roles_from_bits (ta_roles ad) \<noteq> None"

definition valid_topic_ads :: "topic_ad list \<Rightarrow> bool" where
  "valid_topic_ads ads \<longleftrightarrow>
    length ads \<le> MAX_LSA_TOPIC_ADS \<and> list_all valid_topic_ad ads \<and>
    bt_len (bs_of_list (map (\<lambda>ad. (ta_topic ad, ta_partition ad)) ads)) = length ads"

definition valid_lsa :: "lsa \<Rightarrow> bool" where
  "valid_lsa l \<longleftrightarrow>
    1 \<le> lsa_ttl_sec l \<and> lsa_ttl_sec l \<le> MAX_LSA_TTL_SEC \<and>
    length (lsa_adjacencies l) \<le> MAX_LSA_ADJACENCIES \<and> valid_topic_ads (lsa_topics l)"

definition is_newer :: "lsa \<Rightarrow> control_plane \<Rightarrow> bool" where
  "is_newer candidate s =
    (case bt_get (cp_lsdb s) (lsa_origin candidate) of
       None \<Rightarrow> True
     | Some current \<Rightarrow> lsa_version candidate > le_version current)"

definition digest :: "control_plane \<Rightarrow> digest_entry list" where
  "digest s =
    map (\<lambda>(origin, entry). \<lparr>de_origin = origin, de_epoch = fst (le_version entry), de_seq = snd (le_version entry)\<rparr>)
      (bt_entries (cp_lsdb s))"

definition send_digest :: "link_id \<Rightarrow> control_plane \<Rightarrow> control_action" where
  "send_digest link s = CA_Send link (CF_Digest (digest s))"

definition send_lsa :: "link_id \<Rightarrow> lsa_message \<Rightarrow> control_action" where
  "send_lsa link message = CA_Send link (CF_Lsa message)"

definition next_digest_timer :: "mono_time \<Rightarrow> link_id \<Rightarrow> control_action" where
  "next_digest_timer now link = CA_SetTimer (CT_Digest link) (sat_add now DIGEST_INTERVAL_MS)"

definition next_refresh_timer :: "mono_time \<Rightarrow> lsa \<Rightarrow> control_action" where
  "next_refresh_timer now l =
    CA_SetTimer (CT_LsaRefresh (lsa_epoch l) (lsa_seq l)) (sat_add now (ttl_ms l div 5))"

definition flood :: "lsa_message \<Rightarrow> link_id option \<Rightarrow> control_plane \<Rightarrow> control_action list" where
  "flood message except s =
    map (\<lambda>link. CA_Send link (CF_Lsa message))
      (filter (\<lambda>link. Some link \<noteq> except) (bt_keys (cp_adjacencies s)))"

definition install :: "lsa_message \<Rightarrow> mono_time \<Rightarrow> control_plane \<Rightarrow> (control_action \<times> control_plane) option" where
  "install message now s =
    (if \<not> bt_contains (cp_lsdb s) (lsa_origin (msg_lsa message)) \<and> bt_len (cp_lsdb s) \<ge> MAX_LSDB_ENTRIES
     then None
     else
       (let expires_at = sat_add now (ttl_ms (msg_lsa message));
            origin = lsa_origin (msg_lsa message);
            (epoch, seq) = lsa_version (msg_lsa message)
        in Some
          (CA_SetTimer (CT_LsaExpire origin epoch seq) expires_at,
           s\<lparr>cp_lsdb := bt_insert origin
              \<lparr>le_version = (epoch, seq),
               le_state = LS_Active \<lparr>al_message = message, al_received_at = now, al_expires_at = expires_at\<rparr>\<rparr>
              (cp_lsdb s)\<rparr>)))"

definition mark_spf_dirty :: "mono_time \<Rightarrow> control_plane \<Rightarrow> (control_action list \<times> control_plane) res" where
  "mark_spf_dirty now s =
    (let was_quiet = (case cp_last_lsdb_change_at s of
           None \<Rightarrow> False
         | Some last_change \<Rightarrow> sat_sub now last_change \<ge> SPF_QUIET_RESET_MS);
         s = s\<lparr>cp_last_lsdb_change_at := Some now\<rparr>;
         s = (if was_quiet then s\<lparr>cp_spf_hold_ms := SPF_INITIAL_HOLD_MS\<rparr> else s)
     in if cp_pending_spf s \<noteq> None \<and> \<not> was_quiet then Inr ([], s)
        else
          rbind (expect ''SPF timer generation exhausted'' (checked_add (cp_spf_generation s) 1)) (\<lambda>generation.
          let at = sat_add now (cp_spf_hold_ms s) in
          Inr ([CA_SetTimer (CT_SpfHold generation) at],
               s\<lparr>cp_spf_generation := generation,
                 cp_pending_spf := Some \<lparr>ps_generation = generation, ps_at = at\<rparr>\<rparr>)))"

definition best_by_peer :: "control_plane \<Rightarrow> (node_id, link_cost) btree" where
  "best_by_peer s =
    fold (\<lambda>adjacency. bt_upsert (la_peer adjacency) (\<lambda>cost. min cost (la_cost adjacency)) (la_cost adjacency))
      (bt_values (cp_adjacencies s)) bt_empty"

definition own_lsa :: "control_plane \<Rightarrow> lsa" where
  "own_lsa s =
    \<lparr>lsa_origin = cp_me s, lsa_epoch = cp_epoch s, lsa_seq = cp_my_seq s, lsa_ttl_sec = DEFAULT_LSA_TTL_SEC,
     lsa_adjacencies = map (\<lambda>(peer, cost). \<lparr>adj_peer = peer, adj_cost = cost\<rparr>) (bt_entries (best_by_peer s)),
     lsa_topics = cp_local_topic_ads s\<rparr>"

definition originate_lsa :: "mono_time \<Rightarrow> control_plane \<Rightarrow> (control_action list \<times> control_plane) res" where
  "originate_lsa now s =
    rbind (expect ''local LSA sequence exhausted'' (checked_add (cp_my_seq s) 1)) (\<lambda>my_seq.
    let s = s\<lparr>cp_my_seq := my_seq\<rparr>;
        message = cp_signer s (own_lsa s)
    in rbind (expect ''local LSA must fit in the reserved LSDB entry'' (install message now s)) (\<lambda>(expiry, s).
       let actions = [CA_PersistSeq (cp_my_seq s)] @ flood message None s @
                     [expiry, next_refresh_timer now (msg_lsa message)]
       in rbind (mark_spf_dirty now s) (\<lambda>(dirty, s).
       Inr (actions @ dirty, s))))"

text \<open>The reply to an LSA that is not newer than the stored one: the stored active LSA, if it is newer.\<close>

definition reply_newer :: "link_id \<Rightarrow> node_id \<Rightarrow> version \<Rightarrow> control_plane \<Rightarrow> control_action list" where
  "reply_newer incoming origin version s =
    (case bt_get (cp_lsdb s) origin of
       None \<Rightarrow> []
     | Some entry \<Rightarrow>
         if le_version entry > version
         then (case entry_active entry of None \<Rightarrow> [] | Some active \<Rightarrow> [send_lsa incoming (al_message active)])
         else [])"

definition receive_lsa ::
  "mono_time \<Rightarrow> link_id \<Rightarrow> lsa_message \<Rightarrow> control_plane \<Rightarrow> (control_action list \<times> control_plane) res" where
  "receive_lsa now incoming message s =
    (if \<not> bt_contains (cp_adjacencies s) incoming \<or> \<not> valid_lsa (msg_lsa message) \<or> \<not> cp_verifier s message
     then Inr ([], s)
     else if lsa_origin (msg_lsa message) = cp_me s
     then Inr (reply_newer incoming (cp_me s) (lsa_version (msg_lsa message)) s, s)
     else if \<not> is_newer (msg_lsa message) s
     then Inr (reply_newer incoming (lsa_origin (msg_lsa message)) (lsa_version (msg_lsa message)) s, s)
     else (case install message now s of
             None \<Rightarrow> Inr ([], s)
           | Some (expiry, s) \<Rightarrow>
               let actions = flood message (Some incoming) s @ [expiry] in
               rbind (mark_spf_dirty now s) (\<lambda>(dirty, s). Inr (actions @ dirty, s))))"

definition remote_versions :: "digest_entry list \<Rightarrow> (node_id, version) btree" where
  "remote_versions entries =
    fold (\<lambda>entry. bt_upsert (de_origin entry) (\<lambda>version. max version (digest_entry_version entry))
                    (digest_entry_version entry)) entries bt_empty"

definition compare_origin ::
  "link_id \<Rightarrow> (node_id, version) btree \<Rightarrow> control_plane \<Rightarrow> node_id \<Rightarrow>
    node_id list \<times> control_action list \<Rightarrow> (node_id list \<times> control_action list) res" where
  "compare_origin incoming remote s origin = (\<lambda>(requested, actions).
    let local = bt_get (cp_lsdb s) origin;
        local_version = map_option le_version local;
        remote_version = bt_get remote origin
    in rbind (compare_versions local_version remote_version) (\<lambda>relation.
       if (relation = RemoteOnly \<or> relation = RemoteNewer) \<and> origin \<noteq> cp_me s
       then Inr (requested @ [origin], actions)
       else if relation = LocalOnly \<or> relation = LocalNewer
       then (case Option.bind local entry_active of
               None \<Rightarrow> Inr (requested, actions)
             | Some active \<Rightarrow> Inr (requested, actions @ [send_lsa incoming (al_message active)]))
       else Inr (requested, actions)))"

definition receive_digest :: "link_id \<Rightarrow> digest_entry list \<Rightarrow> control_plane \<Rightarrow> control_action list res" where
  "receive_digest incoming entries s =
    (if \<not> bt_contains (cp_adjacencies s) incoming \<or> length entries > MAX_DIGEST_ENTRIES then Inr []
     else
       (let remote = remote_versions entries;
            origins = bs_of_list (bt_keys (cp_lsdb s) @ bt_keys remote)
        in rbind (rfold (compare_origin incoming remote s) (bt_keys origins) ([], [])) (\<lambda>(requested, actions).
           Inr (if requested \<noteq> [] then actions @ [CA_Send incoming (CF_DigestReq requested)] else actions))))"

definition receive_digest_req :: "link_id \<Rightarrow> node_id list \<Rightarrow> control_plane \<Rightarrow> control_action list" where
  "receive_digest_req incoming origins s =
    (if \<not> bt_contains (cp_adjacencies s) incoming \<or> length origins > MAX_DIGEST_REQ_ORIGINS then []
     else List.map_filter
       (\<lambda>origin. map_option (\<lambda>active. send_lsa incoming (al_message active))
                   (Option.bind (bt_get (cp_lsdb s) origin) entry_active))
       (bt_keys (bs_of_list origins)))"

definition handle_digest_timer :: "mono_time \<Rightarrow> link_id \<Rightarrow> control_plane \<Rightarrow> control_action list" where
  "handle_digest_timer now link s =
    (if \<not> bt_contains (cp_adjacencies s) link then []
     else [send_digest link s, next_digest_timer now link])"

definition handle_refresh_timer ::
  "mono_time \<Rightarrow> u32 \<Rightarrow> u64 \<Rightarrow> control_plane \<Rightarrow> (control_action list \<times> control_plane) res" where
  "handle_refresh_timer now epoch seq s =
    (let is_current = (case bt_get (cp_lsdb s) (cp_me s) of
           None \<Rightarrow> False
         | Some entry \<Rightarrow> le_version entry = (epoch, seq) \<and> entry_active entry \<noteq> None)
     in if is_current then originate_lsa now s else Inr ([], s))"

definition handle_expire_timer ::
  "mono_time \<Rightarrow> node_id \<Rightarrow> u32 \<Rightarrow> u64 \<Rightarrow> control_plane \<Rightarrow> (control_action list \<times> control_plane) res" where
  "handle_expire_timer now origin epoch seq s =
    (case bt_get (cp_lsdb s) origin of
       None \<Rightarrow> Inr ([], s)
     | Some entry \<Rightarrow>
         if le_version entry \<noteq> (epoch, seq) then Inr ([], s)
         else (case entry_active entry of
                 None \<Rightarrow> Inr ([], s)
               | Some active \<Rightarrow>
                   if now < al_expires_at active
                   then Inr ([CA_SetTimer (CT_LsaExpire origin epoch seq) (al_expires_at active)], s)
                   else mark_spf_dirty now
                     (s\<lparr>cp_lsdb := bt_insert origin (entry\<lparr>le_state := LS_Tombstone\<rparr>) (cp_lsdb s)\<rparr>)))"

definition recompute_routes :: "control_plane \<Rightarrow> (control_action list \<times> control_plane) res" where
  "recompute_routes s =
    rbind (shortest_paths (cp_me s) (cp_lsdb s) (cp_adjacencies s)) (\<lambda>routes.
    if routes = tbl_routes (cp_routes s) then Inr ([], s)
    else (case checked_add (tbl_version (cp_routes s)) 1 of
            None \<Rightarrow> Inl (Overflow ''route table version'')
          | Some version \<Rightarrow>
              let table = \<lparr>tbl_version = version, tbl_routes = routes\<rparr> in
              Inr ([CA_PublishRoutes table], s\<lparr>cp_routes := table\<rparr>)))"

definition discovered_topic_ads :: "control_plane \<Rightarrow> discovered_topic_ad list" where
  "discovered_topic_ads s =
    sort (concat (map
      (\<lambda>(node, entry). case entry_active entry of
         None \<Rightarrow> []
       | Some active \<Rightarrow> map (DiscoveredTopicAd node) (lsa_topics (msg_lsa (al_message active))))
      (bt_entries (cp_lsdb s))))"

definition recompute_topic_ads :: "control_plane \<Rightarrow> control_action list \<times> control_plane" where
  "recompute_topic_ads s =
    (let discovered = discovered_topic_ads s in
     if discovered = cp_published_topic_ads s then ([], s)
     else ([CA_PublishTopicAds discovered], s\<lparr>cp_published_topic_ads := discovered\<rparr>))"

definition handle_spf_timer :: "mono_time \<Rightarrow> u64 \<Rightarrow> control_plane \<Rightarrow> (control_action list \<times> control_plane) res" where
  "handle_spf_timer now generation s =
    (case cp_pending_spf s of
       None \<Rightarrow> Inr ([], s)
     | Some pending \<Rightarrow>
         if ps_generation pending \<noteq> generation then Inr ([], s)
         else if now < ps_at pending
         then Inr ([CA_SetTimer (CT_SpfHold generation) (ps_at pending)], s)
         else
           (let s = s\<lparr>cp_pending_spf := None, cp_spf_hold_ms := min (sat_mul (cp_spf_hold_ms s) 2) SPF_MAX_HOLD_MS\<rparr>
            in rbind (recompute_routes s) (\<lambda>(actions, s).
               let (ads, s) = recompute_topic_ads s in
               Inr (actions @ ads, s))))"

section \<open>The event handler\<close>

fun control_handle :: "(control_plane, control_event, control_action) handler" where
  "control_handle now (CE_LinkUp link peer cost) s =
    rbind (originate_lsa now
             (s\<lparr>cp_adjacencies := bt_insert link \<lparr>la_peer = peer, la_cost = cost\<rparr> (cp_adjacencies s)\<rparr>)) (\<lambda>(actions, s).
    Inr (actions @ [send_digest link s, next_digest_timer now link], s))"
| "control_handle now (CE_LinkDown link) s =
    (if \<not> bt_contains (cp_adjacencies s) link then Inr ([], s)
     else originate_lsa now (s\<lparr>cp_adjacencies := bt_remove link (cp_adjacencies s)\<rparr>))"
| "control_handle now (CE_LocalTopicAdsChanged ads) s =
    (let ads = sort ads in
     if \<not> valid_topic_ads ads \<or> ads = cp_local_topic_ads s then Inr ([], s)
     else originate_lsa now (s\<lparr>cp_local_topic_ads := ads\<rparr>))"
| "control_handle now (CE_Frame link (CF_Lsa message)) s = receive_lsa now link message s"
| "control_handle now (CE_Frame link (CF_Digest entries)) s =
    rbind (receive_digest link entries s) (\<lambda>actions. Inr (actions, s))"
| "control_handle now (CE_Frame link (CF_DigestReq origins)) s = Inr (receive_digest_req link origins s, s)"
| "control_handle now (CE_Timer (CT_Digest link)) s = Inr (handle_digest_timer now link s, s)"
| "control_handle now (CE_Timer (CT_SpfHold generation)) s = handle_spf_timer now generation s"
| "control_handle now (CE_Timer (CT_LsaRefresh epoch seq)) s = handle_refresh_timer now epoch seq s"
| "control_handle now (CE_Timer (CT_LsaExpire origin epoch seq)) s = handle_expire_timer now origin epoch seq s"

section \<open>Authentication\<close>

text \<open>What the control plane relies on of its signer and verifier: signing wraps the LSA unchanged,
  and the verifier accepts what the signer signed. The unsecured pair satisfies it.\<close>

locale lsa_auth =
  fixes sign :: lsa_signer and verify :: lsa_verifier
  assumes sign_lsa: "msg_lsa (sign l) = l"
    and verify_sign: "verify (sign l)"
begin

lemma sign_inj: "sign l = sign l' \<longleftrightarrow> l = l'"
  using sign_lsa by metis

lemma sign_version: "lsa_version (msg_lsa (sign l)) = lsa_version l"
  by (simp add: sign_lsa)

end

interpretation unsecured: lsa_auth unsecured_sign unsecured_verify
  by unfold_locales (simp_all add: unsecured_sign_def unsecured_verify_def)

section \<open>The invariant\<close>

definition entry_ok :: "node_id \<Rightarrow> lsdb_entry \<Rightarrow> bool" where
  "entry_ok origin e \<longleftrightarrow>
    (case entry_active e of
       None \<Rightarrow> True
     | Some a \<Rightarrow>
         lsa_origin (msg_lsa (al_message a)) = origin \<and> le_version e = lsa_version (msg_lsa (al_message a)) \<and>
         al_expires_at a = sat_add (al_received_at a) (ttl_ms (msg_lsa (al_message a))) \<and>
         1 \<le> lsa_ttl_sec (msg_lsa (al_message a)) \<and> lsa_ttl_sec (msg_lsa (al_message a)) \<le> MAX_LSA_TTL_SEC)"

text \<open>The own entry carries the last sequence number and, while active, the current adjacencies and
  topic advertisements. Before the first origination the database is empty and there is no
  adjacency, so that no frame of a peer can fill it up first.\<close>

definition own_ok :: "control_plane \<Rightarrow> bool" where
  "own_ok s \<longleftrightarrow>
    (case bt_get (cp_lsdb s) (cp_me s) of
       None \<Rightarrow> cp_lsdb s = bt_empty \<and> cp_adjacencies s = bt_empty \<and> cp_local_topic_ads s = []
     | Some e \<Rightarrow> le_version e = (cp_epoch s, cp_my_seq s) \<and>
         (\<forall>a. entry_active e = Some a \<longrightarrow> msg_lsa (al_message a) = own_lsa s))"

definition lsdb_inv :: "control_plane \<Rightarrow> bool" where
  "lsdb_inv s \<longleftrightarrow>
    lsa_auth (cp_signer s) (cp_verifier s) \<and> bt_len (cp_lsdb s) \<le> MAX_LSDB_ENTRIES \<and>
    (\<forall>origin e. bt_get (cp_lsdb s) origin = Some e \<longrightarrow> entry_ok origin e) \<and> own_ok s \<and>
    sorted (cp_local_topic_ads s) \<and> valid_topic_ads (cp_local_topic_ads s)"

text \<open>Route computation: the hold time stays in its range, a pending computation is the one of the
  last generation, and while none is pending the published routes and advertisements are those of
  the present database.\<close>

definition routes_current :: "control_plane \<Rightarrow> bool" where
  "routes_current s \<longleftrightarrow>
    shortest_paths (cp_me s) (cp_lsdb s) (cp_adjacencies s) = Inr (tbl_routes (cp_routes s)) \<and>
    cp_published_topic_ads s = discovered_topic_ads s"

definition spf_inv :: "control_plane \<Rightarrow> bool" where
  "spf_inv s \<longleftrightarrow>
    SPF_INITIAL_HOLD_MS \<le> cp_spf_hold_ms s \<and> cp_spf_hold_ms s \<le> SPF_MAX_HOLD_MS \<and>
    (case cp_pending_spf s of
       None \<Rightarrow> routes_current s
     | Some p \<Rightarrow> ps_generation p = cp_spf_generation s)"

definition control_inv :: "control_plane \<Rightarrow> bool" where
  "control_inv s \<longleftrightarrow> lsdb_inv s \<and> spf_inv s"

text \<open>The three 64-bit counters whose exhaustion is the only panic of the machine.\<close>

definition counters_left :: "control_plane \<Rightarrow> bool" where
  "counters_left s \<longleftrightarrow> cp_my_seq s \<noteq> - 1 \<and> cp_spf_generation s \<noteq> - 1 \<and> tbl_version (cp_routes s) \<noteq> - 1"

lemma own_lsa_frame [simp]:
  "own_lsa (s\<lparr>cp_last_lsdb_change_at := l\<rparr>) = own_lsa s"
  "own_lsa (s\<lparr>cp_spf_hold_ms := h\<rparr>) = own_lsa s"
  "own_lsa (s\<lparr>cp_spf_generation := g\<rparr>) = own_lsa s"
  "own_lsa (s\<lparr>cp_pending_spf := p\<rparr>) = own_lsa s"
  "own_lsa (s\<lparr>cp_routes := r\<rparr>) = own_lsa s"
  "own_lsa (s\<lparr>cp_published_topic_ads := ads\<rparr>) = own_lsa s"
  "own_lsa (s\<lparr>cp_lsdb := db\<rparr>) = own_lsa s"
  by (simp_all add: own_lsa_def best_by_peer_def)

lemma lsdb_inv_frame [simp]:
  "lsdb_inv (s\<lparr>cp_last_lsdb_change_at := l\<rparr>) = lsdb_inv s"
  "lsdb_inv (s\<lparr>cp_spf_hold_ms := h\<rparr>) = lsdb_inv s"
  "lsdb_inv (s\<lparr>cp_spf_generation := g\<rparr>) = lsdb_inv s"
  "lsdb_inv (s\<lparr>cp_pending_spf := p\<rparr>) = lsdb_inv s"
  "lsdb_inv (s\<lparr>cp_routes := r\<rparr>) = lsdb_inv s"
  "lsdb_inv (s\<lparr>cp_published_topic_ads := ads\<rparr>) = lsdb_inv s"
  by (simp_all add: lsdb_inv_def own_ok_def split: option.split)

definition spf_fields_only :: "control_plane \<Rightarrow> control_plane \<Rightarrow> bool" where
  "spf_fields_only s s' \<longleftrightarrow>
    s' = s\<lparr>cp_last_lsdb_change_at := cp_last_lsdb_change_at s', cp_spf_hold_ms := cp_spf_hold_ms s',
          cp_spf_generation := cp_spf_generation s', cp_pending_spf := cp_pending_spf s'\<rparr>"

lemma spf_fields_only_eqs:
  assumes "spf_fields_only s s'"
  shows "cp_me s' = cp_me s" "cp_epoch s' = cp_epoch s" "cp_my_seq s' = cp_my_seq s"
    "cp_adjacencies s' = cp_adjacencies s" "cp_local_topic_ads s' = cp_local_topic_ads s"
    "cp_lsdb s' = cp_lsdb s" "cp_routes s' = cp_routes s"
    "cp_published_topic_ads s' = cp_published_topic_ads s" "cp_signer s' = cp_signer s"
    "cp_verifier s' = cp_verifier s" "lsdb_inv s' = lsdb_inv s"
  by (subst assms [unfolded spf_fields_only_def], simp)+

lemma mark_spf_dirty_ok:
  assumes "cp_spf_generation s \<noteq> - 1" and "SPF_INITIAL_HOLD_MS \<le> cp_spf_hold_ms s"
    and "cp_spf_hold_ms s \<le> SPF_MAX_HOLD_MS"
    and "cp_pending_spf s \<noteq> None \<Longrightarrow> ps_generation (the (cp_pending_spf s)) = cp_spf_generation s"
  shows "\<exists>as s'. mark_spf_dirty now s = Inr (as, s') \<and> spf_fields_only s s' \<and> spf_inv s' \<and> cp_pending_spf s' \<noteq> None"
  using assms checked_add_one [OF assms(1)]
  by (auto simp: mark_spf_dirty_def Let_def spf_fields_only_def spf_inv_def control_consts)

section \<open>Every handler keeps the invariant\<close>

definition spf_ready :: "control_plane \<Rightarrow> bool" where
  "spf_ready s \<longleftrightarrow>
    cp_spf_generation s \<noteq> - 1 \<and> SPF_INITIAL_HOLD_MS \<le> cp_spf_hold_ms s \<and> cp_spf_hold_ms s \<le> SPF_MAX_HOLD_MS \<and>
    (\<forall>p. cp_pending_spf s = Some p \<longrightarrow> ps_generation p = cp_spf_generation s)"

lemma mark_spf_dirty_step:
  assumes "spf_ready s" and "lsdb_inv s"
  obtains dirty s' where "mark_spf_dirty now s = Inr (dirty, s')" "spf_fields_only s s'" "control_inv s'"
    "cp_pending_spf s' \<noteq> None"
proof -
  obtain dirty s' where "mark_spf_dirty now s = Inr (dirty, s')" "spf_fields_only s s'" "spf_inv s'"
    "cp_pending_spf s' \<noteq> None"
    using mark_spf_dirty_ok [of s now] assms(1) unfolding spf_ready_def by force
  then show thesis using that assms(2) by (simp add: control_inv_def spf_fields_only_eqs)
qed

lemma spf_ready_frame [simp]:
  "spf_ready (s\<lparr>cp_adjacencies := x1\<rparr>) = spf_ready s" "spf_ready (s\<lparr>cp_local_topic_ads := x2\<rparr>) = spf_ready s"
  "spf_ready (s\<lparr>cp_lsdb := x3\<rparr>) = spf_ready s" "spf_ready (s\<lparr>cp_my_seq := x4\<rparr>) = spf_ready s"
  by (simp_all add: spf_ready_def)

lemma control_inv_ready: "control_inv s \<Longrightarrow> counters_left s \<Longrightarrow> spf_ready s"
  by (auto simp: control_inv_def spf_inv_def counters_left_def spf_ready_def split: option.splits)

text \<open>What an origination needs: everything but agreement of the own entry with the adjacencies.\<close>

definition originate_pre :: "control_plane \<Rightarrow> bool" where
  "originate_pre s \<longleftrightarrow>
    lsa_auth (cp_signer s) (cp_verifier s) \<and> bt_len (cp_lsdb s) \<le> MAX_LSDB_ENTRIES \<and>
    (\<forall>origin e. bt_get (cp_lsdb s) origin = Some e \<longrightarrow> entry_ok origin e) \<and>
    (bt_get (cp_lsdb s) (cp_me s) \<noteq> None \<or> cp_lsdb s = bt_empty) \<and>
    sorted (cp_local_topic_ads s) \<and> valid_topic_ads (cp_local_topic_ads s) \<and> spf_ready s"

lemma lsdb_inv_pre: "lsdb_inv s \<Longrightarrow> spf_ready s \<Longrightarrow> originate_pre s"
  by (auto simp: lsdb_inv_def originate_pre_def own_ok_def split: option.splits)

lemma originate_pre_frame [simp]:
  "originate_pre (s\<lparr>cp_adjacencies := x1\<rparr>) = originate_pre s"
  by (simp add: originate_pre_def)

definition fresh_entry :: "mono_time \<Rightarrow> lsa_message \<Rightarrow> lsdb_entry" where
  "fresh_entry now message =
    \<lparr>le_version = lsa_version (msg_lsa message),
     le_state = LS_Active \<lparr>al_message = message, al_received_at = now,
                           al_expires_at = sat_add now (ttl_ms (msg_lsa message))\<rparr>\<rparr>"

lemma entry_active_fresh [simp]:
  "entry_active (fresh_entry now message) =
    Some \<lparr>al_message = message, al_received_at = now, al_expires_at = sat_add now (ttl_ms (msg_lsa message))\<rparr>"
  by (simp add: fresh_entry_def)

lemma fresh_entry_version [simp]: "le_version (fresh_entry now message) = lsa_version (msg_lsa message)"
  by (simp add: fresh_entry_def)

lemma install_eq:
  "install message now s =
    (if bt_get (cp_lsdb s) (lsa_origin (msg_lsa message)) = None \<and> bt_len (cp_lsdb s) \<ge> MAX_LSDB_ENTRIES then None
     else Some
       (CA_SetTimer (CT_LsaExpire (lsa_origin (msg_lsa message)) (lsa_epoch (msg_lsa message)) (lsa_seq (msg_lsa message)))
          (sat_add now (ttl_ms (msg_lsa message))),
        s\<lparr>cp_lsdb := bt_insert (lsa_origin (msg_lsa message)) (fresh_entry now message) (cp_lsdb s)\<rparr>))"
  by (simp add: install_def Let_def bt_contains_def fresh_entry_def lsa_version_def)

definition own_entry :: "mono_time \<Rightarrow> control_plane \<Rightarrow> lsdb_entry" where
  "own_entry now s = fresh_entry now (cp_signer s (own_lsa s))"

lemma ttl_ms_default: "lsa_ttl_sec l = DEFAULT_LSA_TTL_SEC \<Longrightarrow> ttl_ms l = 300000"
  by (simp add: ttl_ms_def control_consts sat_mul_def)

lemma own_lsa_fields [simp]:
  "lsa_origin (own_lsa s) = cp_me s" "lsa_epoch (own_lsa s) = cp_epoch s" "lsa_seq (own_lsa s) = cp_my_seq s"
  "lsa_ttl_sec (own_lsa s) = DEFAULT_LSA_TTL_SEC" "lsa_topics (own_lsa s) = cp_local_topic_ads s"
  "lsa_version (own_lsa s) = (cp_epoch s, cp_my_seq s)"
  by (simp_all add: own_lsa_def lsa_version_def)

lemma own_entry_ok: "lsa_auth (cp_signer s) v \<Longrightarrow> entry_ok (cp_me s) (own_entry now s)"
  by (simp add: entry_ok_def own_entry_def lsa_auth.sign_lsa [of _ v] control_consts)

lemma originate_lsdb_inv:
  assumes "originate_pre s"
  shows "lsdb_inv (s\<lparr>cp_lsdb := bt_insert (cp_me s) (own_entry now s) (cp_lsdb s)\<rparr>)"
proof -
  have "lsa_auth (cp_signer s) (cp_verifier s)" using assms by (simp add: originate_pre_def)
  then have "own_ok (s\<lparr>cp_lsdb := bt_insert (cp_me s) (own_entry now s) (cp_lsdb s)\<rparr>)"
    "entry_ok (cp_me s) (own_entry now s)"
    using own_entry_ok by (auto simp: own_ok_def own_entry_def lsa_auth.sign_lsa)
  then show ?thesis
    using assms by (auto simp: lsdb_inv_def originate_pre_def bt_len_insert control_consts)
qed

lemma originate_lsa_eq:
  assumes pre: "originate_pre s" and seq: "cp_my_seq s \<noteq> - 1"
  defines "t \<equiv> s\<lparr>cp_my_seq := cp_my_seq s + 1\<rparr>"
  obtains dirty s' where
    "originate_lsa now s = Inr ([CA_PersistSeq (cp_my_seq s + 1)] @ flood (cp_signer s (own_lsa t)) None s @
       [CA_SetTimer (CT_LsaExpire (cp_me s) (cp_epoch s) (cp_my_seq s + 1)) (sat_add now 300000),
        CA_SetTimer (CT_LsaRefresh (cp_epoch s) (cp_my_seq s + 1)) (sat_add now 60000)] @ dirty, s')"
    "spf_fields_only (t\<lparr>cp_lsdb := bt_insert (cp_me s) (own_entry now t) (cp_lsdb s)\<rparr>) s'"
    "control_inv s'" "cp_pending_spf s' \<noteq> None"
proof -
  let ?t = "t\<lparr>cp_lsdb := bt_insert (cp_me s) (own_entry now t) (cp_lsdb s)\<rparr>"
  have auth: "lsa_auth (cp_signer s) (cp_verifier s)"
    and me: "bt_get (cp_lsdb s) (cp_me s) \<noteq> None \<or> cp_lsdb s = bt_empty"
    using pre by (auto simp: originate_pre_def)
  have "lsdb_inv ?t" and "spf_ready ?t"
    using originate_lsdb_inv [of t now] pre by (simp_all add: t_def originate_pre_def)
  then obtain dirty s' where d: "mark_spf_dirty now ?t = Inr (dirty, s')" "spf_fields_only ?t s'" "control_inv s'"
    "cp_pending_spf s' \<noteq> None" using mark_spf_dirty_step by blast
  have "install (cp_signer s (own_lsa t)) now t =
      Some (CA_SetTimer (CT_LsaExpire (cp_me s) (cp_epoch s) (cp_my_seq s + 1)) (sat_add now 300000), ?t)"
    using me by (auto simp: install_eq t_def lsa_auth.sign_lsa [OF auth] ttl_ms_default own_entry_def
        control_consts)
  moreover have "flood m None ?t = flood m None s" for m by (simp add: flood_def t_def)
  moreover have "next_refresh_timer now (msg_lsa (cp_signer s (own_lsa t))) =
      CA_SetTimer (CT_LsaRefresh (cp_epoch s) (cp_my_seq s + 1)) (sat_add now 60000)"
    by (simp add: next_refresh_timer_def lsa_auth.sign_lsa [OF auth] ttl_ms_default t_def)
  ultimately have "originate_lsa now s = Inr ([CA_PersistSeq (cp_my_seq s + 1)] @ flood (cp_signer s (own_lsa t)) None s @
       [CA_SetTimer (CT_LsaExpire (cp_me s) (cp_epoch s) (cp_my_seq s + 1)) (sat_add now 300000),
        CA_SetTimer (CT_LsaRefresh (cp_epoch s) (cp_my_seq s + 1)) (sat_add now 60000)] @ dirty, s')"
    using d(1) checked_add_one [OF seq] unfolding originate_lsa_def Let_def
    by (simp add: t_def [symmetric]) (simp add: t_def)
  then show thesis using that d(2-4) by blast
qed

lemma received_entry_inv:
  assumes "lsdb_inv s" and "valid_lsa (msg_lsa m)" and "lsa_origin (msg_lsa m) \<noteq> cp_me s"
    and "bt_contains (cp_adjacencies s) l"
    and "bt_get (cp_lsdb s) (lsa_origin (msg_lsa m)) = None \<Longrightarrow> bt_len (cp_lsdb s) < MAX_LSDB_ENTRIES"
  shows "lsdb_inv (s\<lparr>cp_lsdb := bt_insert (lsa_origin (msg_lsa m)) (fresh_entry now m) (cp_lsdb s)\<rparr>)"
proof -
  have "entry_ok (lsa_origin (msg_lsa m)) (fresh_entry now m)"
    using assms(2) by (simp add: entry_ok_def valid_lsa_def)
  moreover have "own_ok (s\<lparr>cp_lsdb := bt_insert (lsa_origin (msg_lsa m)) (fresh_entry now m) (cp_lsdb s)\<rparr>)"
    using assms(1,3,4) by (auto simp: lsdb_inv_def own_ok_def bt_contains_def split: option.splits)
  ultimately show ?thesis
    using assms(1,5) by (auto simp: lsdb_inv_def bt_len_insert)
qed

lemma tombstone_inv:
  assumes "lsdb_inv s" and "bt_get (cp_lsdb s) origin = Some e"
  shows "lsdb_inv (s\<lparr>cp_lsdb := bt_insert origin (e\<lparr>le_state := LS_Tombstone\<rparr>) (cp_lsdb s)\<rparr>)"
  using assms by (auto simp: lsdb_inv_def own_ok_def bt_len_insert entry_ok_def split: option.splits)

lemma receive_lsa_inv:
  assumes inv: "control_inv s" and c: "counters_left s"
  shows "\<exists>as s'. receive_lsa now l m s = Inr (as, s') \<and> control_inv s'"
proof (cases "bt_contains (cp_adjacencies s) l \<and> valid_lsa (msg_lsa m) \<and> cp_verifier s m \<and>
    lsa_origin (msg_lsa m) \<noteq> cp_me s \<and> is_newer (msg_lsa m) s")
  case True
  let ?t = "s\<lparr>cp_lsdb := bt_insert (lsa_origin (msg_lsa m)) (fresh_entry now m) (cp_lsdb s)\<rparr>"
  show ?thesis
  proof (cases "install m now s")
    case None
    then show ?thesis using True inv by (simp add: receive_lsa_def)
  next
    case (Some r)
    have "spf_ready ?t" using control_inv_ready [OF inv c] by simp
    moreover have "lsdb_inv ?t"
      using received_entry_inv [of s m l now] Some True inv
      by (auto simp: control_inv_def install_eq not_le split: if_splits)
    ultimately obtain d s' where "mark_spf_dirty now ?t = Inr (d, s')" "control_inv s'"
      using mark_spf_dirty_step by blast
    then show ?thesis using True Some by (auto simp: receive_lsa_def install_eq split: if_splits)
  qed
qed (use inv in \<open>auto simp: receive_lsa_def\<close>)

lemma handle_expire_inv:
  assumes inv: "control_inv s" and c: "counters_left s"
  shows "\<exists>as s'. handle_expire_timer now origin ep seq s = Inr (as, s') \<and> control_inv s'"
proof (cases "bt_get (cp_lsdb s) origin")
  case (Some e)
  let ?t = "s\<lparr>cp_lsdb := bt_insert origin (e\<lparr>le_state := LS_Tombstone\<rparr>) (cp_lsdb s)\<rparr>"
  obtain d s' where "mark_spf_dirty now ?t = Inr (d, s')" "control_inv s'"
    using mark_spf_dirty_step [of ?t now thesis] tombstone_inv [OF _ Some] control_inv_ready [OF inv c] inv
    by (auto simp: control_inv_def)
  then show ?thesis using Some inv by (auto simp: handle_expire_timer_def split: option.splits)
qed (use inv in \<open>simp add: handle_expire_timer_def\<close>)

lemma recompute_routes_ok:
  assumes "tbl_version (cp_routes s) \<noteq> - 1"
  shows "\<exists>as r. recompute_routes s = Inr (as, s\<lparr>cp_routes := r\<rparr>) \<and>
    shortest_paths (cp_me s) (cp_lsdb s) (cp_adjacencies s) = Inr (tbl_routes r) \<and>
    (if r = cp_routes s then as = []
     else as = [CA_PublishRoutes r] \<and> tbl_routes r \<noteq> tbl_routes (cp_routes s) \<and>
          tbl_version r = tbl_version (cp_routes s) + 1)"
proof -
  obtain routes where run: "shortest_paths (cp_me s) (cp_lsdb s) (cp_adjacencies s) = Inr routes"
    using shortest_paths_total by blast
  show ?thesis
  proof (cases "routes = tbl_routes (cp_routes s)")
    case True
    then show ?thesis using run by (intro exI [of _ "[]"] exI [of _ "cp_routes s"]) (simp add: recompute_routes_def)
  next
    case False
    let ?r = "\<lparr>tbl_version = tbl_version (cp_routes s) + 1, tbl_routes = routes\<rparr>"
    have "?r \<noteq> cp_routes s" using False by (metis route_table.select_convs(2))
    then show ?thesis
      using run False checked_add_one [OF assms]
      by (intro exI [of _ "[CA_PublishRoutes ?r]"] exI [of _ ?r]) (simp add: recompute_routes_def Let_def)
  qed
qed

lemma routes_current_frame [simp]:
  "routes_current (s\<lparr>cp_pending_spf := p\<rparr>) = routes_current s"
  "routes_current (s\<lparr>cp_spf_hold_ms := h\<rparr>) = routes_current s"
  by (simp_all add: routes_current_def discovered_topic_ads_def)

lemma recompute_topic_ads_eq:
  "recompute_topic_ads s =
    (if discovered_topic_ads s = cp_published_topic_ads s then [] else [CA_PublishTopicAds (discovered_topic_ads s)],
     s\<lparr>cp_published_topic_ads := discovered_topic_ads s\<rparr>)"
  by (simp add: recompute_topic_ads_def Let_def)

lemma discovered_topic_ads_frame [simp]:
  "discovered_topic_ads (s\<lparr>cp_pending_spf := p\<rparr>) = discovered_topic_ads s"
  "discovered_topic_ads (s\<lparr>cp_spf_hold_ms := h\<rparr>) = discovered_topic_ads s"
  "discovered_topic_ads (s\<lparr>cp_routes := r\<rparr>) = discovered_topic_ads s"
  "discovered_topic_ads (s\<lparr>cp_published_topic_ads := a\<rparr>) = discovered_topic_ads s"
  by (simp_all add: discovered_topic_ads_def)

lemma hold_doubles:
  assumes "SPF_INITIAL_HOLD_MS \<le> h" and "h \<le> SPF_MAX_HOLD_MS"
  shows "SPF_INITIAL_HOLD_MS \<le> min (sat_mul h 2) SPF_MAX_HOLD_MS" "min (sat_mul h 2) SPF_MAX_HOLD_MS \<le> SPF_MAX_HOLD_MS"
  using assms by (auto simp: control_consts word_le_nat_alt unat_sat_mul min_def)

text \<open>The hold timer of the pending generation, once due: the routes and advertisements of the
  present database are published if they differ from the published ones.\<close>

lemma handle_spf_timer_due:
  assumes p: "cp_pending_spf s = Some p" "ps_generation p = g" "ps_at p \<le> now"
    and v: "tbl_version (cp_routes s) \<noteq> - 1"
  shows "\<exists>as r. handle_spf_timer now g s =
    Inr (as @ (if discovered_topic_ads s = cp_published_topic_ads s then [] else [CA_PublishTopicAds (discovered_topic_ads s)]),
       s\<lparr>cp_pending_spf := None, cp_spf_hold_ms := min (sat_mul (cp_spf_hold_ms s) 2) SPF_MAX_HOLD_MS,
         cp_routes := r, cp_published_topic_ads := discovered_topic_ads s\<rparr>) \<and>
    shortest_paths (cp_me s) (cp_lsdb s) (cp_adjacencies s) = Inr (tbl_routes r) \<and>
    (if r = cp_routes s then as = []
     else as = [CA_PublishRoutes r] \<and> tbl_routes r \<noteq> tbl_routes (cp_routes s) \<and>
          tbl_version r = tbl_version (cp_routes s) + 1)"
proof -
  let ?s = "s\<lparr>cp_pending_spf := None, cp_spf_hold_ms := min (sat_mul (cp_spf_hold_ms s) 2) SPF_MAX_HOLD_MS\<rparr>"
  obtain as r where r: "recompute_routes ?s = Inr (as, ?s\<lparr>cp_routes := r\<rparr>)"
    "shortest_paths (cp_me s) (cp_lsdb s) (cp_adjacencies s) = Inr (tbl_routes r)"
    "if r = cp_routes s then as = []
     else as = [CA_PublishRoutes r] \<and> tbl_routes r \<noteq> tbl_routes (cp_routes s) \<and>
          tbl_version r = tbl_version (cp_routes s) + 1"
    using recompute_routes_ok [of ?s] v by (auto cong: if_cong)
  have "handle_spf_timer now g s =
    Inr (as @ (if discovered_topic_ads s = cp_published_topic_ads s then [] else [CA_PublishTopicAds (discovered_topic_ads s)]),
       s\<lparr>cp_pending_spf := None, cp_spf_hold_ms := min (sat_mul (cp_spf_hold_ms s) 2) SPF_MAX_HOLD_MS,
         cp_routes := r, cp_published_topic_ads := discovered_topic_ads s\<rparr>)"
    using p(1,2) r(1) leD [OF p(3)] by (simp add: handle_spf_timer_def Let_def recompute_topic_ads_eq)
  then show ?thesis using r(2,3) by blast
qed

lemma handle_spf_inv:
  assumes inv: "control_inv s" and c: "counters_left s"
  shows "\<exists>as s'. handle_spf_timer now g s = Inr (as, s') \<and> control_inv s'"
proof (cases "\<exists>p. cp_pending_spf s = Some p \<and> ps_generation p = g \<and> ps_at p \<le> now")
  case True
  then obtain p where p: "cp_pending_spf s = Some p" "ps_generation p = g" "ps_at p \<le> now" by blast
  obtain as r where run: "handle_spf_timer now g s = Inr (as,
      s\<lparr>cp_pending_spf := None, cp_spf_hold_ms := min (sat_mul (cp_spf_hold_ms s) 2) SPF_MAX_HOLD_MS,
        cp_routes := r, cp_published_topic_ads := discovered_topic_ads s\<rparr>)"
    and r: "shortest_paths (cp_me s) (cp_lsdb s) (cp_adjacencies s) = Inr (tbl_routes r)"
    using handle_spf_timer_due [OF p] c unfolding counters_left_def by blast
  have "control_inv (s\<lparr>cp_pending_spf := None, cp_spf_hold_ms := min (sat_mul (cp_spf_hold_ms s) 2) SPF_MAX_HOLD_MS,
        cp_routes := r, cp_published_topic_ads := discovered_topic_ads s\<rparr>)"
    using inv r hold_doubles [of "cp_spf_hold_ms s"]
    by (simp add: control_inv_def spf_inv_def routes_current_def)
  then show ?thesis using run by blast
qed (use inv in \<open>auto simp: handle_spf_timer_def not_less split: option.splits\<close>)

section \<open>Digest reconciliation\<close>

definition wants_origin :: "(node_id, version) btree \<Rightarrow> control_plane \<Rightarrow> node_id \<Rightarrow> bool" where
  "wants_origin remote s origin \<longleftrightarrow> origin \<noteq> cp_me s \<and>
    (case bt_get remote origin of
       None \<Rightarrow> False
     | Some v \<Rightarrow> (case bt_get (cp_lsdb s) origin of None \<Rightarrow> True | Some e \<Rightarrow> v > le_version e))"

definition offers_origin :: "link_id \<Rightarrow> (node_id, version) btree \<Rightarrow> control_plane \<Rightarrow> node_id \<Rightarrow> control_action list" where
  "offers_origin incoming remote s origin =
    (case bt_get (cp_lsdb s) origin of
       None \<Rightarrow> []
     | Some e \<Rightarrow>
         if (case bt_get remote origin of None \<Rightarrow> True | Some v \<Rightarrow> le_version e > v)
         then (case entry_active e of None \<Rightarrow> [] | Some a \<Rightarrow> [send_lsa incoming (al_message a)])
         else [])"

lemma compare_origin_eq:
  assumes "bt_get (cp_lsdb s) origin \<noteq> None \<or> bt_get remote origin \<noteq> None"
  shows "compare_origin l remote s origin (req, as) =
    Inr (req @ filter (wants_origin remote s) [origin], as @ offers_origin l remote s origin)"
  using assms
  by (cases "bt_get (cp_lsdb s) origin"; cases "bt_get remote origin")
    (auto simp: compare_origin_def Let_def wants_origin_def offers_origin_def split: option.splits)

lemma rfold_compare_origin:
  assumes "\<forall>origin \<in> set origins. bt_get (cp_lsdb s) origin \<noteq> None \<or> bt_get remote origin \<noteq> None"
  shows "rfold (compare_origin l remote s) origins (req, as) =
    Inr (req @ filter (wants_origin remote s) origins, as @ concat (map (offers_origin l remote s) origins))"
  using assms
proof (induction origins arbitrary: req as)
  case (Cons origin origins)
  then have "bt_get (cp_lsdb s) origin \<noteq> None \<or> bt_get remote origin \<noteq> None" by simp
  from compare_origin_eq [OF this] show ?case using Cons by simp
qed simp

lemma receive_digest_eq:
  assumes "bt_contains (cp_adjacencies s) l" and "length entries \<le> MAX_DIGEST_ENTRIES"
  defines "remote \<equiv> remote_versions entries"
  defines "origins \<equiv> bt_keys (bs_of_list (bt_keys (cp_lsdb s) @ bt_keys remote))"
  shows "receive_digest l entries s =
    Inr (concat (map (offers_origin l remote s) origins) @
      (let req = filter (wants_origin remote s) origins in if req = [] then [] else [CA_Send l (CF_DigestReq req)]))"
proof -
  have "\<forall>origin \<in> set origins. bt_get (cp_lsdb s) origin \<noteq> None \<or> bt_get remote origin \<noteq> None"
    by (auto simp: origins_def bt_keys_iff)
  from rfold_compare_origin [OF this] show ?thesis
    using assms(1,2) by (simp add: receive_digest_def Let_def flip: remote_def origins_def)
qed

lemma receive_digest_total: "\<exists>as. receive_digest l entries s = Inr as"
proof (cases "bt_contains (cp_adjacencies s) l \<and> length entries \<le> MAX_DIGEST_ENTRIES")
  case True
  then show ?thesis using receive_digest_eq [of s l entries] by blast
qed (auto simp: receive_digest_def)

section \<open>The component\<close>

lemma originate_inv:
  assumes "originate_pre s" and "cp_my_seq s \<noteq> - 1"
  shows "\<exists>as s'. originate_lsa now s = Inr (as, s') \<and> control_inv s'"
  using originate_lsa_eq [OF assms] by metis

lemma control_step:
  assumes inv: "control_inv s" and c: "counters_left s"
  shows "\<exists>as s'. control_handle now e s = Inr (as, s') \<and> control_inv s'"
proof -
  have seq: "cp_my_seq s \<noteq> - 1" using c by (simp add: counters_left_def)
  have pre: "originate_pre s"
    using lsdb_inv_pre control_inv_ready [OF inv c] inv by (simp add: control_inv_def)
  have ads: "originate_pre (s\<lparr>cp_local_topic_ads := sort a\<rparr>)" if "valid_topic_ads (sort a)" for a
    using pre that by (simp add: originate_pre_def)
  have "\<exists>as s'. originate_lsa now (s\<lparr>cp_adjacencies := x\<rparr>) = Inr (as, s') \<and> control_inv s'" for x
    using originate_inv [of "s\<lparr>cp_adjacencies := x\<rparr>"] pre seq by simp
  note adjs = this
  show ?thesis
  proof (cases e)
    case (CE_LinkUp l peer cost)
    then show ?thesis using adjs [of "bt_insert l \<lparr>la_peer = peer, la_cost = cost\<rparr> (cp_adjacencies s)"] by auto
  next
    case (CE_LinkDown l)
    then show ?thesis using adjs [of "bt_remove l (cp_adjacencies s)"] inv by auto
  next
    case (CE_LocalTopicAdsChanged a)
    then show ?thesis
      using originate_inv [OF ads, of a now] seq inv by (auto simp: Let_def)
  next
    case (CE_Frame l f)
    show ?thesis
    proof (cases f)
      case (CF_Digest ds)
      then show ?thesis using CE_Frame receive_digest_total [of l ds s] inv by auto
    qed (use CE_Frame receive_lsa_inv [OF inv c] inv in auto)
  next
    case (CE_Timer t)
    then show ?thesis
      using handle_spf_inv [OF inv c] handle_expire_inv [OF inv c] originate_inv [OF pre seq] inv
      by (cases t) (auto simp: handle_refresh_timer_def Let_def split: option.splits)
  qed
qed

lemma shortest_paths_empty: "shortest_paths me bt_empty bt_empty = Inr bt_empty"
proof -
  obtain routes where run: "shortest_paths me bt_empty bt_empty = Inr routes"
    and dom: "\<forall>v. bt_get routes v \<noteq> None \<longleftrightarrow> v \<noteq> me \<and> (\<exists>c h. walk (bidirectional_graph bt_empty) me v c h)"
    using shortest_paths_domain [of bt_empty me bt_empty]
    by (auto simp: links_cover_def edges_of_def bidirectional_graph_get)
  have "walk (bidirectional_graph bt_empty) me v c h \<Longrightarrow> v = me" for v c h
    by (induction rule: walk.induct) (simp_all add: edges_of_def bidirectional_graph_get)
  then have "bt_get routes v = None" for v using dom by blast
  then have "routes = bt_empty" by (intro bt_eqI) simp
  then show ?thesis using run by simp
qed

lemma with_auth_inv:
  assumes "lsa_auth signer verifier"
  shows "control_inv (with_auth_and_seq me epoch last_seq signer verifier)"
  using assms
  by (simp add: control_inv_def lsdb_inv_def spf_inv_def with_auth_and_seq_def own_ok_def routes_current_def
      shortest_paths_empty discovered_topic_ads_def route_table_default_def valid_topic_ads_def bs_of_list_def
      control_consts)

interpretation control: component control_handle control_inv "\<lambda>s e. counters_left s"
  by unfold_locales (rule control_step)

end
