(* ===== verification/Runtime.thy ===== *)
theory Runtime
  imports RuntimeCodec Diagnostics Control
begin

text \<open>
  Crate \<open>mb-runtime\<close>, the driver: one loop that takes link events, application requests and due timers and
  feeds them to the control plane, the forwarder and the publish/subscribe component, whose actions it
  carries out on the endpoint, the timer queue, the sequence store and the application channels. The
  loop is a step function on one record. An \<open>await\<close> on a bounded channel is its effect once it
  completes; what arrives, and at which time, is an argument of the step.
\<close>

section \<open>Types\<close>

definition FORWARD_OUTCOME_CAPACITY :: usize where "FORWARD_OUTCOME_CAPACITY = 256"
definition PUBSUB_OUTCOME_CAPACITY :: usize where "PUBSUB_OUTCOME_CAPACITY = 256"

record runtime_config =
  rc_node_id :: node_id
  rc_epoch :: u32
  rc_peer_costs :: "(node_id, link_cost) btree"

datatype forward_outcome =
    FO_Delivered forward_packet
  | FO_Dropped drop_reason priority u64 node_id
  | FO_Backpressure link_id forward_packet

datatype pubsub_outcome =
    PO_Delivered sub_id delivered_message
  | PO_Published topic_key u64
  | PO_Rejected pubsub_reject_reason
  | PO_Dropped pubsub_drop_reason

datatype forward_input =
    FI_Outbound forward_packet
  | FI_OutboundMulticast "node_id list" forward_packet

datatype runtime_timer =
    RT_Control control_timer
  | RT_Forward forward_timer

datatype runtime_input =
    RI_Link link_event
  | RI_Forward forward_input
  | RI_PubSub pubsub_event
  | RI_Timer runtime_timer

text \<open>The derived order of the timers: by variant, then by fields.\<close>

fun control_timer_key :: "control_timer \<Rightarrow> nat \<times> nat \<times> nat \<times> nat" where
  "control_timer_key (CT_Digest link) = (0, unat link, 0, 0)"
| "control_timer_key (CT_SpfHold generation) = (1, unat generation, 0, 0)"
| "control_timer_key (CT_LsaRefresh epoch seq) = (2, unat epoch, unat seq, 0)"
| "control_timer_key (CT_LsaExpire origin epoch seq) = (3, unat origin, unat epoch, unat seq)"

fun runtime_timer_key :: "runtime_timer \<Rightarrow> nat \<times> nat \<times> nat \<times> nat \<times> nat" where
  "runtime_timer_key (RT_Control timer) = (0, control_timer_key timer)"
| "runtime_timer_key (RT_Forward (PendingP0 generation)) = (1, unat generation, 0, 0, 0)"

lemma control_timer_key_inj: "control_timer_key a = control_timer_key b \<longleftrightarrow> a = b"
  by (cases a; cases b) (simp_all add: word_unat_eq_iff)

lemma runtime_timer_key_inj: "runtime_timer_key a = runtime_timer_key b \<longleftrightarrow> a = b"
proof (cases a)
  case (RT_Control t)
  then show ?thesis
    by (cases b rule: runtime_timer_key.cases) (simp_all add: control_timer_key_inj)
next
  case (RT_Forward t)
  then show ?thesis
    by (cases t; cases b rule: runtime_timer_key.cases) (simp_all add: word_unat_eq_iff)
qed

instantiation runtime_timer :: linorder
begin
definition less_eq_runtime_timer :: "runtime_timer \<Rightarrow> runtime_timer \<Rightarrow> bool" where
  "less_eq_runtime_timer a b = (runtime_timer_key a \<le> runtime_timer_key b)"
definition less_runtime_timer :: "runtime_timer \<Rightarrow> runtime_timer \<Rightarrow> bool" where
  "less_runtime_timer a b = (runtime_timer_key a < runtime_timer_key b)"
instance
  by standard (auto simp: less_eq_runtime_timer_def less_runtime_timer_def less_le_not_le
      simp flip: runtime_timer_key_inj simp del: runtime_timer_key.simps)
end

section \<open>The state of the driver\<close>

text \<open>The sending half of an application channel: what the receiver has not taken yet, and whether there is
  a receiver.\<close>

record 'a outcome_sender =
  tx_queue :: "'a list"
  tx_open :: bool

definition tx_send :: "'a \<Rightarrow> 'a outcome_sender \<Rightarrow> 'a outcome_sender" where
  "tx_send x tx = (if tx_open tx then tx\<lparr>tx_queue := tx_queue tx @ [x]\<rparr> else tx)"

definition tx_try_send :: "usize \<Rightarrow> 'a \<Rightarrow> 'a outcome_sender \<Rightarrow> 'a outcome_sender" where
  "tx_try_send capacity x tx = (if tx_open tx \<and> length (tx_queue tx) < capacity then tx\<lparr>tx_queue := tx_queue tx @ [x]\<rparr> else tx)"

record runtime_snapshot =
  rs_node_id :: node_id
  rs_now :: mono_time
  rs_peers :: "(link_id, node_id) btree"
  rs_lsas :: "lsa list"
  rs_routes :: route_table
  rs_queues :: "(link_id, link_queue_snapshot) btree"
  rs_recent_events :: "runtime_event list"

definition snapshot_empty :: "node_id \<Rightarrow> route_table \<Rightarrow> runtime_snapshot" where
  "snapshot_empty node_id routes =
    \<lparr>rs_node_id = node_id, rs_now = 0, rs_peers = bt_empty, rs_lsas = [], rs_routes = routes,
     rs_queues = bt_empty, rs_recent_events = []\<rparr>"

record 'st runtime =
  rn_node_id :: node_id
  rn_plane :: control_plane
  rn_forwarder :: forwarder
  rn_pubsub :: pubsub
  rn_endpoint :: endpoint
  rn_store :: 'st
  rn_peer_costs :: "(node_id, link_cost) btree"
  rn_peers :: "(link_id, node_id) btree"
  rn_timers :: "(u64 \<times> u64 \<times> runtime_timer) list"
  rn_next_timer_sequence :: u64
  rn_forward_outcomes :: "forward_outcome outcome_sender"
  rn_pubsub_outcomes :: "pubsub_outcome outcome_sender"
  rn_diagnostics :: bool
  rn_log :: event_log
  rn_snapshot :: runtime_snapshot
  rn_running :: bool

text \<open>The code outside the repository, and the store behind the trait object.\<close>

record 'st libraries =
  lib_prost :: prost
  lib_enc_envelope :: "wire_envelope prost_encode"
  lib_dec_envelope :: "wire_envelope prost_decode"
  lib_persist :: "u64 \<Rightarrow> 'st \<Rightarrow> (string + unit) \<times> 'st"

definition spawn ::
  "('st \<Rightarrow> string + u64) \<Rightarrow> runtime_config \<Rightarrow> endpoint \<Rightarrow> 'st \<Rightarrow> topic_policies \<Rightarrow> runtime_error + 'st runtime" where
  "spawn load config ep store policies =
    (if ep_local_node ep \<noteq> rc_node_id config then Inl (RE_EndpointNodeMismatch (ep_local_node ep) (rc_node_id config))
     else
       rbind (map_err RE_SeqStore (load store)) (\<lambda>persisted_seq.
       if persisted_seq = - 1 then Inl RE_SequenceExhausted
       else
         (let plane = new_unsecured_with_seq (rc_node_id config) (rc_epoch config) persisted_seq in
          Inr \<lparr>rn_node_id = rc_node_id config, rn_plane = plane,
               rn_forwarder = forwarder_new (rc_node_id config) (cp_routes plane),
               rn_pubsub = pubsub_new (rc_node_id config) policies,
               rn_endpoint = ep, rn_store = store, rn_peer_costs = rc_peer_costs config, rn_peers = bt_empty,
               rn_timers = [], rn_next_timer_sequence = 0,
               rn_forward_outcomes = \<lparr>tx_queue = [], tx_open = True\<rparr>,
               rn_pubsub_outcomes = \<lparr>tx_queue = [], tx_open = True\<rparr>,
               rn_diagnostics = False, rn_log = event_log_new,
               rn_snapshot = snapshot_empty (rc_node_id config) (cp_routes plane), rn_running = True\<rparr>)))"

section \<open>Requests of the application\<close>

definition enable_diagnostics :: "'st runtime \<Rightarrow> 'st runtime" where
  "enable_diagnostics rt = rt\<lparr>rn_diagnostics := True\<rparr>"

definition allow_peer :: "node_id \<Rightarrow> link_cost \<Rightarrow> 'st runtime \<Rightarrow> 'st runtime" where
  "allow_peer peer cost rt =
    rt\<lparr>rn_peer_costs := bt_insert peer cost (rn_peer_costs rt), rn_endpoint := endpoint_allow_peer peer (rn_endpoint rt)\<rparr>"

definition close_link :: "link_id \<Rightarrow> 'st runtime \<Rightarrow> (runtime_error + unit) \<times> 'st runtime" where
  "close_link link rt =
    (case endpoint_close link (rn_endpoint rt) of (r, ep) \<Rightarrow> (map_err RE_Transport r, rt\<lparr>rn_endpoint := ep\<rparr>))"

text \<open>A request is validated, then handed to the loop as an input if the loop still runs.\<close>

definition enqueue_input :: "'i \<Rightarrow> 'st runtime \<Rightarrow> runtime_error + 'i" where
  "enqueue_input input rt = (if rn_running rt then Inr input else Inl RE_RuntimeStopped)"

definition request_publish :: "topic_key \<Rightarrow> bytes \<Rightarrow> 'st runtime \<Rightarrow> runtime_error + runtime_input" where
  "request_publish topic payload rt = enqueue_input (RI_PubSub (PE_LocalPublish topic payload)) rt"

definition request_subscribe :: "sub_id \<Rightarrow> topic_selector \<Rightarrow> 'st runtime \<Rightarrow> runtime_error + runtime_input" where
  "request_subscribe sub selector rt = enqueue_input (RI_PubSub (PE_LocalSubscribe sub selector)) rt"

definition request_unsubscribe :: "sub_id \<Rightarrow> 'st runtime \<Rightarrow> runtime_error + runtime_input" where
  "request_unsubscribe sub rt = enqueue_input (RI_PubSub (PE_LocalUnsubscribe sub)) rt"

definition request_send :: "forward_packet \<Rightarrow> 'st runtime \<Rightarrow> runtime_error + runtime_input" where
  "request_send packet rt =
    rbind (map_err RE_ForwardPacket (forward_encode packet)) (\<lambda>_.
    enqueue_input (RI_Forward (FI_Outbound packet)) rt)"

definition request_send_multicast :: "node_id list \<Rightarrow> forward_packet \<Rightarrow> 'st runtime \<Rightarrow> runtime_error + runtime_input" where
  "request_send_multicast destinations packet rt =
    (let validation = packet\<lparr>p_header := (p_header packet)\<lparr>h_packet_type := Multicast, h_destination := default_node\<rparr>,
                             p_multicast_destinations := destinations\<rparr>
     in rbind (map_err RE_ForwardPacket (forward_encode validation)) (\<lambda>_.
        enqueue_input (RI_Forward (FI_OutboundMulticast destinations packet)) rt))"

definition runtime_shutdown :: "'st runtime \<Rightarrow> 'st runtime" where
  "runtime_shutdown rt = rt\<lparr>rn_endpoint := endpoint_shutdown (rn_endpoint rt), rn_running := False\<rparr>"

text \<open>Connecting to a peer: it is allowed first; the outcome of opening the TCP connection, of writing the
  greeting and of the reads that answer it are arguments.\<close>

definition connect ::
  "(link_hello \<Rightarrow> bytes) \<Rightarrow> (bytes \<Rightarrow> string + link_hello) \<Rightarrow> string + unit \<Rightarrow> string + unit \<Rightarrow> stream_read list \<Rightarrow>
    node_id \<Rightarrow> link_cost \<Rightarrow> 'st runtime \<Rightarrow> ((runtime_error + link_id \<times> bytes) \<times> link_event list \<times> 'st runtime) option" where
  "connect enc dec opened written reads peer cost rt =
    (let rt = allow_peer peer cost rt in
     case rbind (connect_allowed peer (rn_endpoint rt)) (\<lambda>_. map_err TE_Io opened) of
       Inl e \<Rightarrow> Some (Inl (RE_Transport e), [], rt)
     | Inr _ \<Rightarrow>
         map_option (\<lambda>(r, events, ep). (map_err RE_Transport r, events, rt\<lparr>rn_endpoint := ep\<rparr>))
           (attach_stream enc dec written reads (rn_running rt) (Some peer) (rn_endpoint rt)))"

section \<open>The inbox\<close>

definition schedule :: "runtime_timer \<Rightarrow> mono_time \<Rightarrow> 'st runtime \<Rightarrow> 'st runtime" where
  "schedule timer at rt =
    rt\<lparr>rn_timers := heap_push (at, rn_next_timer_sequence rt, timer) (rn_timers rt),
       rn_next_timer_sequence := rn_next_timer_sequence rt + 1\<rparr>"

text \<open>Which arm of the \<open>select!\<close> completes; a channel yields nothing once all its senders are gone.\<close>

datatype arrival =
    Arr_Link "link_event option"
  | Arr_Forward "forward_input option"
  | Arr_PubSub "pubsub_event option"
  | Arr_Timer

definition pop_timer :: "'st runtime \<Rightarrow> runtime_input option \<times> 'st runtime" where
  "pop_timer rt =
    (case heap_pop (rn_timers rt) of
       None \<Rightarrow> (None, rt)
     | Some ((_, _, timer), timers) \<Rightarrow> (Some (RI_Timer timer), rt\<lparr>rn_timers := timers\<rparr>))"

definition recv :: "mono_time \<Rightarrow> arrival \<Rightarrow> 'st runtime \<Rightarrow> runtime_input option \<times> 'st runtime" where
  "recv elapsed arrival rt =
    (if (case heap_peek (rn_timers rt) of None \<Rightarrow> False | Some (at, _, _) \<Rightarrow> at \<le> elapsed) then pop_timer rt
     else case arrival of
       Arr_Link link_event \<Rightarrow> (map_option RI_Link link_event, rt)
     | Arr_Forward forward_input \<Rightarrow> (map_option RI_Forward forward_input, rt)
     | Arr_PubSub pubsub_input \<Rightarrow> (map_option RI_PubSub pubsub_input, rt)
     | Arr_Timer \<Rightarrow> pop_timer rt)"

section \<open>Effects\<close>

definition log_event :: "mono_time \<Rightarrow> string \<Rightarrow> string \<Rightarrow> link_id option \<Rightarrow> 'st runtime \<Rightarrow> 'st runtime" where
  "log_event now kind detail link rt =
    (if rn_diagnostics rt then rt\<lparr>rn_log := push_runtime_event now kind detail link (rn_log rt)\<rparr> else rt)"

definition close_quietly :: "link_id \<Rightarrow> 'st runtime \<Rightarrow> 'st runtime" where
  "close_quietly link rt = rt\<lparr>rn_endpoint := snd (endpoint_close link (rn_endpoint rt))\<rparr>"

definition send_or_close :: "link_id \<Rightarrow> wire_frame \<Rightarrow> 'st runtime \<Rightarrow> 'st runtime" where
  "send_or_close link frame rt =
    (case endpoint_send link frame (rn_endpoint rt) of
       (Inr _, ep) \<Rightarrow> rt\<lparr>rn_endpoint := ep\<rparr>
     | (Inl _, ep) \<Rightarrow> close_quietly link (rt\<lparr>rn_endpoint := ep\<rparr>))"

definition feed_forwarder :: "mono_time \<Rightarrow> forward_event \<Rightarrow> 'st runtime \<Rightarrow> (forward_action list \<times> 'st runtime) res" where
  "feed_forwarder now event rt =
    rbind (forward_handle now event (rn_forwarder rt)) (\<lambda>(actions, f). Inr (actions, rt\<lparr>rn_forwarder := f\<rparr>))"

definition feed_pubsub ::
  "'st libraries \<Rightarrow> mono_time \<Rightarrow> pubsub_event \<Rightarrow> 'st runtime \<Rightarrow> (pubsub_action list \<times> 'st runtime) res" where
  "feed_pubsub L now event rt =
    rbind (pubsub_handle (lib_enc_envelope L) (lib_dec_envelope L) now event (rn_pubsub rt)) (\<lambda>(actions, s).
    Inr (actions, rt\<lparr>rn_pubsub := s\<rparr>))"

text \<open>A link may carry the bytes it was credited with, and may be written to.\<close>

definition open_link ::
  "mono_time \<Rightarrow> link_id \<Rightarrow> usize \<Rightarrow> 'st runtime \<Rightarrow> (forward_action list \<times> 'st runtime) res" where
  "open_link now link bytes rt =
    rbind (feed_forwarder now (FE_LinkCredit link bytes) rt) (\<lambda>(credited, rt).
    rbind (feed_forwarder now (FE_LinkWritable link) rt) (\<lambda>(writable, rt).
    Inr (credited @ writable, rt)))"

section \<open>One input\<close>

text \<open>What an input gives rise to: an event for the control plane, actions of the forwarder and of the
  publish/subscribe component; nothing when the loop continues with the next input.\<close>

type_synonym dispatch = "(control_event option \<times> forward_action list \<times> pubsub_action list) option"

definition only_forward :: "(forward_action list \<times> 'st runtime) res \<Rightarrow> (dispatch \<times> 'st runtime) res" where
  "only_forward r = rbind r (\<lambda>(actions, rt). Inr (Some (None, actions, []), rt))"

definition link_up :: "mono_time \<Rightarrow> link_id \<Rightarrow> node_id \<Rightarrow> 'st runtime \<Rightarrow> (dispatch \<times> 'st runtime) res" where
  "link_up now link peer rt =
    (case bt_get (rn_peer_costs rt) peer of
       None \<Rightarrow> Inr (None, close_quietly link rt)
     | Some cost \<Rightarrow>
         let rt = rt\<lparr>rn_peers := bt_insert link peer (rn_peers rt)\<rparr>;
             rt = log_event now ''LINK_UP'' (link_text link @ ''peer '' @ node_id_fmt peer) (Some link) rt
         in rbind (open_link now link MAX_PAYLOAD_LEN rt) (\<lambda>(actions, rt).
            Inr (Some (Some (CE_LinkUp link peer cost), actions, []), rt)))"

definition link_down :: "mono_time \<Rightarrow> link_id \<Rightarrow> 'st runtime \<Rightarrow> (dispatch \<times> 'st runtime) res" where
  "link_down now link rt =
    (let peer = bt_get (rn_peers rt) link;
         rt = rt\<lparr>rn_peers := bt_remove link (rn_peers rt)\<rparr>;
         rt = log_event now ''LINK_DOWN'' (link_text link @ ''peer '' @ debug_peer peer) (Some link) rt
     in rbind (feed_forwarder now (FE_LinkDown link) rt) (\<lambda>(actions, rt).
        Inr (Some (Some (CE_LinkDown link), actions, []), rt)))"

definition link_frame ::
  "'st libraries \<Rightarrow> mono_time \<Rightarrow> link_id \<Rightarrow> wire_frame \<Rightarrow> 'st runtime \<Rightarrow> (dispatch \<times> 'st runtime) res" where
  "link_frame L now link frame rt =
    (if wf_type frame = FT_Forward
     then (case decode_forward_frame frame of
             Inr packet \<Rightarrow> only_forward (feed_forwarder now (FE_Inbound link packet) rt)
           | Inl _ \<Rightarrow> Inr (None, close_quietly link rt))
     else (case decode_control_frame (lib_prost L) frame of
             Inr control_frame \<Rightarrow> Inr (Some (Some (CE_Frame link control_frame), [], []), rt)
           | Inl _ \<Rightarrow> Inr (None, close_quietly link rt)))"

fun handle_input ::
  "'st libraries \<Rightarrow> mono_time \<Rightarrow> runtime_input \<Rightarrow> 'st runtime \<Rightarrow> (dispatch \<times> 'st runtime) res" where
  "handle_input L now (RI_Timer (RT_Control timer)) rt = Inr (Some (Some (CE_Timer timer), [], []), rt)"
| "handle_input L now (RI_Timer (RT_Forward timer)) rt = only_forward (feed_forwarder now (FE_Timer timer) rt)"
| "handle_input L now (RI_Forward (FI_Outbound packet)) rt =
    only_forward (feed_forwarder now (FE_Outbound packet)
      (log_event now ''ORIGINATE'' (packet_summary packet) None rt))"
| "handle_input L now (RI_Forward (FI_OutboundMulticast destinations packet)) rt =
    only_forward (feed_forwarder now (FE_OutboundMulticast destinations packet)
      (log_event now ''MULTICAST''
        (fmt_decimal (length destinations) @ '' destinations'' @ middle_dot @ packet_summary packet) None rt))"
| "handle_input L now (RI_PubSub event) rt =
    rbind (feed_pubsub L now event rt) (\<lambda>(actions, rt). Inr (Some (None, [], actions), rt))"
| "handle_input L now (RI_Link (LE_Up link peer)) rt = link_up now link peer rt"
| "handle_input L now (RI_Link (LE_Down link)) rt = link_down now link rt"
| "handle_input L now (RI_Link (LE_Frame link frame)) rt = link_frame L now link frame rt"
| "handle_input L now (RI_Link (LE_Sent link frame_type channel payload_bytes)) rt =
    only_forward (if frame_type = FT_Forward then open_link now link payload_bytes rt else Inr ([], rt))"

text \<open>A change of the local subscriptions replaces the control event by the new advertisements.\<close>

fun changed_subscriptions :: "pubsub_action list \<Rightarrow> topic_selector list option" where
  "changed_subscriptions [] = None"
| "changed_subscriptions (PA_LocalSubscriptionsChanged selectors # _) = Some selectors"
| "changed_subscriptions (_ # actions) = changed_subscriptions actions"

definition advertise :: "pubsub_action list \<Rightarrow> control_event option \<Rightarrow> control_event option" where
  "advertise actions event =
    (case changed_subscriptions actions of
       Some selectors \<Rightarrow> Some (CE_LocalTopicAdsChanged (subscription_ads selectors))
     | None \<Rightarrow> event)"

section \<open>Actions of the control plane\<close>

text \<open>The actions collected so far, the driver, and whether the loop goes on: it returns when the sequence
  number cannot be persisted.\<close>

type_synonym 'st progress = "bool \<times> forward_action list \<times> pubsub_action list \<times> 'st runtime"

fun control_action_step ::
  "'st libraries \<Rightarrow> mono_time \<Rightarrow> control_action \<Rightarrow> forward_action list \<Rightarrow> pubsub_action list \<Rightarrow> 'st runtime \<Rightarrow>
    'st progress res" where
  "control_action_step L now (CA_Send link frame) fas pas rt =
    (case encode_control_frame (lib_prost L) frame of
       Inl _ \<Rightarrow> Inr (True, fas, pas, rt)
     | Inr wire_frame \<Rightarrow>
         (case control_frame_summary frame of
            (kind, detail) \<Rightarrow> Inr (True, fas, pas, send_or_close link wire_frame (log_event now kind detail (Some link) rt))))"
| "control_action_step L now (CA_SetTimer timer at) fas pas rt = Inr (True, fas, pas, schedule (RT_Control timer) at rt)"
| "control_action_step L now (CA_PublishRoutes routes) fas pas rt =
    rbind (feed_forwarder now (FE_RoutesUpdated routes)
      (log_event now ''SPF'' (''route table v'' @ fmt_decimal (unat (tbl_version routes)) @ middle_dot @
         fmt_decimal (route_len routes) @ '' routes'') None rt)) (\<lambda>(actions, rt).
    Inr (True, fas @ actions, pas, rt))"
| "control_action_step L now (CA_PublishTopicAds ads) fas pas rt =
    rbind (discovery_from_topic_ads ads) (\<lambda>discovery.
    rbind (feed_pubsub L now (PE_DiscoveryUpdated discovery) rt) (\<lambda>(actions, rt).
    Inr (True, fas, pas @ actions, rt)))"
| "control_action_step L now (CA_PersistSeq seq) fas pas rt =
    (case lib_persist L seq (rn_store rt) of
       (Inr _, store) \<Rightarrow> Inr (True, fas, pas, rt\<lparr>rn_store := store\<rparr>)
     | (Inl _, store) \<Rightarrow> Inr (False, fas, pas, rt\<lparr>rn_store := store\<rparr>))"

fun control_actions ::
  "'st libraries \<Rightarrow> mono_time \<Rightarrow> control_action list \<Rightarrow> forward_action list \<Rightarrow> pubsub_action list \<Rightarrow> 'st runtime \<Rightarrow>
    'st progress res" where
  "control_actions L now [] fas pas rt = Inr (True, fas, pas, rt)"
| "control_actions L now (a # as) fas pas rt =
    rbind (control_action_step L now a fas pas rt) (\<lambda>(running, fas, pas, rt).
    if running then control_actions L now as fas pas rt else Inr (False, fas, pas, rt))"

definition feed_plane ::
  "'st libraries \<Rightarrow> mono_time \<Rightarrow> control_event option \<Rightarrow> forward_action list \<Rightarrow> pubsub_action list \<Rightarrow> 'st runtime \<Rightarrow>
    'st progress res" where
  "feed_plane L now event fas pas rt =
    (case event of
       None \<Rightarrow> Inr (True, fas, pas, rt)
     | Some event \<Rightarrow>
         rbind (control_handle now event (rn_plane rt)) (\<lambda>(actions, plane).
         control_actions L now actions fas pas (rt\<lparr>rn_plane := plane\<rparr>)))"

section \<open>Actions of the publish/subscribe component\<close>

definition multicast_packet :: "node_id \<Rightarrow> priority \<Rightarrow> u64 \<Rightarrow> u64 \<Rightarrow> bool \<Rightarrow> bytes \<Rightarrow> forward_packet res" where
  "multicast_packet source priority flow_id conflate_key conflatable payload =
    rbind (if conflatable
           then (case flags_from_bits CONFLATABLE of
                   Inl _ \<Rightarrow> Inl (Expect ''the conflatable flag is supported'')
                 | Inr flags \<Rightarrow> Inr flags)
           else Inr flags_empty) (\<lambda>flags.
    Inr \<lparr>p_header = \<lparr>h_packet_type = Multicast, h_priority = priority, h_ttl = 32, h_flags = flags,
           h_destination = default_node, h_source = source, h_flow_id = flow_id, h_conflate_key = conflate_key\<rparr>,
         p_multicast_destinations = [], p_payload = payload\<rparr>)"

definition pubsub_outcome :: "pubsub_outcome \<Rightarrow> 'st runtime \<Rightarrow> 'st runtime" where
  "pubsub_outcome outcome rt = rt\<lparr>rn_pubsub_outcomes := tx_send outcome (rn_pubsub_outcomes rt)\<rparr>"

fun pubsub_action_step :: "mono_time \<Rightarrow> pubsub_action \<Rightarrow> 'st runtime \<Rightarrow> (forward_action list \<times> 'st runtime) res" where
  "pubsub_action_step now (PA_SendMulticast destinations priority flow_id conflate_key conflatable payload) rt =
    rbind (multicast_packet (fw_me (rn_forwarder rt)) priority flow_id conflate_key conflatable payload) (\<lambda>packet.
    feed_forwarder now (FE_OutboundMulticast destinations packet) rt)"
| "pubsub_action_step now (PA_DeliverToApp sub message) rt = Inr ([], pubsub_outcome (PO_Delivered sub message) rt)"
| "pubsub_action_step now (PA_LocalSubscriptionsChanged _) rt = Inr ([], rt)"
| "pubsub_action_step now (PA_Published topic seq) rt = Inr ([], pubsub_outcome (PO_Published topic seq) rt)"
| "pubsub_action_step now (PA_Rejected reason) rt = Inr ([], pubsub_outcome (PO_Rejected reason) rt)"
| "pubsub_action_step now (PA_Dropped reason) rt =
    Inr ([], rt\<lparr>rn_pubsub_outcomes := tx_try_send PUBSUB_OUTCOME_CAPACITY (PO_Dropped reason) (rn_pubsub_outcomes rt)\<rparr>)"

fun execute_pubsub_actions ::
  "mono_time \<Rightarrow> pubsub_action list \<Rightarrow> 'st runtime \<Rightarrow> (forward_action list \<times> 'st runtime) res" where
  "execute_pubsub_actions now [] rt = Inr ([], rt)"
| "execute_pubsub_actions now (a # as) rt =
    rbind (pubsub_action_step now a rt) (\<lambda>(actions, rt).
    rbind (execute_pubsub_actions now as rt) (\<lambda>(more, rt).
    Inr (actions @ more, rt)))"

section \<open>Actions of the forwarder\<close>

definition report_drop :: "drop_reason \<Rightarrow> forward_packet \<Rightarrow> 'st runtime \<Rightarrow> 'st runtime" where
  "report_drop reason packet rt =
    rt\<lparr>rn_forward_outcomes := tx_try_send FORWARD_OUTCOME_CAPACITY
        (FO_Dropped reason (h_priority (p_header packet)) (h_flow_id (p_header packet)) (h_source (p_header packet)))
        (rn_forward_outcomes rt)\<rparr>"

definition forward_frame :: "forward_packet \<Rightarrow> bytes \<Rightarrow> wire_frame" where
  "forward_frame packet payload =
    \<lparr>wf_type = FT_Forward, wf_channel = channel_for_priority (h_priority (p_header packet)), wf_payload = payload\<rparr>"

text \<open>One action, and the actions it adds to the pending ones.\<close>

fun forward_action_step ::
  "'st libraries \<Rightarrow> mono_time \<Rightarrow> forward_action \<Rightarrow> 'st runtime \<Rightarrow> (forward_action list \<times> 'st runtime) res" where
  "forward_action_step L now (FA_Send link packet) rt =
    (case forward_encode packet of
       Inl _ \<Rightarrow> Inr ([], rt)
     | Inr payload \<Rightarrow> Inr ([], send_or_close link (forward_frame packet payload) rt))"
| "forward_action_step L now (FA_DeliverLocal packet) rt =
    (if is_envelope (p_payload packet)
     then rbind (feed_pubsub L now (PE_Inbound (h_source (p_header packet)) (p_payload packet)) rt) (\<lambda>(actions, rt).
          execute_pubsub_actions now actions rt)
     else Inr ([], rt\<lparr>rn_forward_outcomes := tx_send (FO_Delivered packet) (rn_forward_outcomes rt)\<rparr>))"
| "forward_action_step L now (FA_Drop reason packet) rt = Inr ([], report_drop reason packet rt)"
| "forward_action_step L now (FA_Backpressure link packet) rt =
    Inr ([], rt\<lparr>rn_forward_outcomes := tx_send (FO_Backpressure link packet) (rn_forward_outcomes rt)\<rparr>)"
| "forward_action_step L now (FA_SetTimer timer at) rt = Inr ([], schedule (RT_Forward timer) at rt)"

text \<open>An envelope that arrives yields no multicast, so a step adds no action and the loop over the pending
  actions ends.\<close>

lemma receive_no_multicast: "receive pdec source payload s = (as, s') \<Longrightarrow> PA_SendMulticast ds p fl ck c pl \<notin> set as"
  by (auto simp: receive_def local_deliveries_def split: sum.splits if_splits prod.splits)

lemma execute_no_multicast:
  "\<forall>ds p fl ck c pl. PA_SendMulticast ds p fl ck c pl \<notin> set as \<Longrightarrow>
    execute_pubsub_actions now as rt = Inr (added, rt') \<Longrightarrow> added = []"
proof (induction as arbitrary: rt added)
  case (Cons a as)
  then show ?case by (cases a) (fastforce simp: res_simps)+
qed simp

lemma forward_action_adds_nothing: "forward_action_step L now a rt = Inr (added, rt') \<Longrightarrow> added = []"
proof (cases a)
  case (FA_DeliverLocal p)
  assume step: "forward_action_step L now a rt = Inr (added, rt')"
  obtain as s' where r: "receive (lib_dec_envelope L) (h_source (p_header p)) (p_payload p) (rn_pubsub rt) = (as, s')" by fastforce
  show ?thesis
    using step FA_DeliverLocal r execute_no_multicast [of as now "rt\<lparr>rn_pubsub := s'\<rparr>"] receive_no_multicast [OF r]
    by (simp add: feed_pubsub_def split: if_splits)
qed (auto split: sum.splits)

function execute_forward_actions ::
  "'st libraries \<Rightarrow> mono_time \<Rightarrow> forward_action list \<Rightarrow> 'st runtime \<Rightarrow> 'st runtime res" where
  "execute_forward_actions L now [] rt = Inr rt"
| "execute_forward_actions L now (action # pending) rt =
    (case forward_action_step L now action rt of
       Inl p \<Rightarrow> Inl p
     | Inr (added, rt) \<Rightarrow> execute_forward_actions L now (pending @ added) rt)"
  by pat_completeness auto
termination
  by (relation "measure (\<lambda>(_, _, pending, _). length pending)") (auto dest: forward_action_adds_nothing)

section \<open>The loop\<close>

fun log_forward_actions :: "mono_time \<Rightarrow> forward_action list \<Rightarrow> 'st runtime \<Rightarrow> 'st runtime" where
  "log_forward_actions now [] rt = rt"
| "log_forward_actions now (a # as) rt =
    log_forward_actions now as
      (case forward_action_summary a of None \<Rightarrow> rt | Some (kind, detail, link) \<Rightarrow> log_event now kind detail link rt)"

definition link_snapshots :: "'st runtime \<Rightarrow> (link_id \<times> link_queue_snapshot) list res" where
  "link_snapshots rt =
    rbind (rmap (\<lambda>link. rbind (queue_snapshot link (rn_forwarder rt)) (\<lambda>queue. Inr (map_option (Pair link) queue)))
      (bt_keys (rn_peers rt))) (\<lambda>queues. Inr (List.map_filter id queues))"

definition publish_snapshot :: "mono_time \<Rightarrow> 'st runtime \<Rightarrow> 'st runtime res" where
  "publish_snapshot now rt =
    (if \<not> rn_diagnostics rt then Inr rt
     else rbind (link_snapshots rt) (\<lambda>queues.
       Inr (rt\<lparr>rn_snapshot :=
         \<lparr>rs_node_id = rn_node_id rt, rs_now = now, rs_peers = rn_peers rt, rs_lsas = cp_lsas (rn_plane rt),
          rs_routes = cp_routes (rn_plane rt), rs_queues = bt_collect queues,
          rs_recent_events = lg_recent (rn_log rt)\<rparr>\<rparr>)))"

definition finish_iteration ::
  "'st libraries \<Rightarrow> mono_time \<Rightarrow> control_event option \<Rightarrow> forward_action list \<Rightarrow> pubsub_action list \<Rightarrow> 'st runtime \<Rightarrow>
    'st runtime res" where
  "finish_iteration L now event fas pas rt =
    rbind (feed_plane L now (advertise pas event) fas pas rt) (\<lambda>(running, fas, pas, rt).
    if \<not> running then Inr (rt\<lparr>rn_running := False\<rparr>)
    else
      rbind (execute_pubsub_actions now pas rt) (\<lambda>(more, rt).
      let fas = fas @ more;
          rt = (if rn_diagnostics rt then log_forward_actions now fas rt else rt)
      in rbind (execute_forward_actions L now fas rt) (publish_snapshot now)))"

definition run_iteration :: "'st libraries \<Rightarrow> mono_time \<Rightarrow> runtime_input \<Rightarrow> 'st runtime \<Rightarrow> 'st runtime res" where
  "run_iteration L now input rt =
    rbind (handle_input L now input rt) (\<lambda>(dispatch, rt).
    case dispatch of
      None \<Rightarrow> Inr rt
    | Some (event, fas, pas) \<Rightarrow> finish_iteration L now event fas pas rt)"

text \<open>One turn of the loop: when it asked, what arrived, and when it handled it.\<close>

definition runtime_step :: "'st libraries \<Rightarrow> mono_time \<Rightarrow> arrival \<Rightarrow> mono_time \<Rightarrow> 'st runtime \<Rightarrow> 'st runtime res" where
  "runtime_step L elapsed arrival now rt =
    (if \<not> rn_running rt then Inr rt
     else case recv elapsed arrival rt of
       (None, rt) \<Rightarrow> Inr (rt\<lparr>rn_running := False\<rparr>)
     | (Some input, rt) \<Rightarrow> run_iteration L now input rt)"

end
