(* ===== verification/Codec.thy ===== *)
theory Codec
  imports Types
begin

text \<open>
  A small reference codec. The protobuf library is a parameter of the model, and the properties that
  rely on it assume that it decodes what it encoded. The combinators here build functions with that
  property, so that the assumption can be discharged on concrete messages.
\<close>

type_synonym 'a printer = "'a \<Rightarrow> bytes"
type_synonym 'a parser = "bytes \<Rightarrow> ('a \<times> bytes) option"

definition reads :: "'a printer \<Rightarrow> 'a parser \<Rightarrow> bool" where
  "reads put get \<longleftrightarrow> (\<forall>x rest. get (put x @ rest) = Some (x, rest))"

definition put_byte :: "u8 printer" where "put_byte b = [b]"

fun get_byte :: "u8 parser" where
  "get_byte [] = None"
| "get_byte (b # bs) = Some (b, bs)"

definition put_pair :: "'a printer \<Rightarrow> 'b printer \<Rightarrow> ('a \<times> 'b) printer" where
  "put_pair p q = (\<lambda>(x, y). p x @ q y)"

definition get_pair :: "'a parser \<Rightarrow> 'b parser \<Rightarrow> ('a \<times> 'b) parser" where
  "get_pair p q bs =
    (case p bs of None \<Rightarrow> None
     | Some (x, bs) \<Rightarrow> (case q bs of None \<Rightarrow> None | Some (y, bs) \<Rightarrow> Some ((x, y), bs)))"

definition put_via :: "('a \<Rightarrow> 'b) \<Rightarrow> 'b printer \<Rightarrow> 'a printer" where
  "put_via f p x = p (f x)"

definition get_via :: "('b \<Rightarrow> 'a) \<Rightarrow> 'b parser \<Rightarrow> 'a parser" where
  "get_via g p bs = map_option (\<lambda>(y, bs). (g y, bs)) (p bs)"

fun put_many :: "'a printer \<Rightarrow> 'a list printer" where
  "put_many p [] = [0]"
| "put_many p (x # xs) = 1 # p x @ put_many p xs"

text \<open>Each element is announced by a byte, so the number of bytes bounds the number of elements.\<close>

fun get_upto :: "nat \<Rightarrow> 'a parser \<Rightarrow> 'a list parser" where
  "get_upto 0 p bs = None"
| "get_upto (Suc n) p bs =
    (case bs of
       [] \<Rightarrow> None
     | b # bs \<Rightarrow>
         if b = 0 then Some ([], bs)
         else (case p bs of None \<Rightarrow> None
           | Some (x, bs) \<Rightarrow> (case get_upto n p bs of None \<Rightarrow> None | Some (xs, bs) \<Rightarrow> Some (x # xs, bs))))"

definition get_many :: "'a parser \<Rightarrow> 'a list parser" where
  "get_many p bs = get_upto (length bs) p bs"

definition put_word :: "'a::len word printer" where
  "put_word w = put_many put_byte (be_bytes ((LENGTH('a) + 7) div 8) (unat w))"

definition get_word :: "'a::len word parser" where
  "get_word = get_via from_be (get_many get_byte)"

definition message_decode :: "'a parser \<Rightarrow> bytes \<Rightarrow> string + 'a" where
  "message_decode p bs = (case p bs of Some (x, []) \<Rightarrow> Inr x | _ \<Rightarrow> Inl ''malformed'')"

lemma reads_byte: "reads put_byte get_byte"
  by (simp add: reads_def put_byte_def)

lemma reads_pair: "reads p p' \<Longrightarrow> reads q q' \<Longrightarrow> reads (put_pair p q) (get_pair p' q')"
  by (simp add: reads_def put_pair_def get_pair_def)

lemma reads_via: "reads p p' \<Longrightarrow> (\<And>x. g (f x) = x) \<Longrightarrow> reads (put_via f p) (get_via g p')"
  by (simp add: reads_def put_via_def get_via_def)

lemma get_upto_put:
  "reads p p' \<Longrightarrow> length xs < n \<Longrightarrow> get_upto n p' (put_many p xs @ rest) = Some (xs, rest)"
proof (induction xs arbitrary: n)
  case Nil
  then show ?case by (cases n) simp_all
next
  case (Cons x xs)
  then obtain m where "n = Suc m" "length xs < m" by (cases n) auto
  then show ?case using Cons by (simp add: reads_def)
qed

lemma length_put_many: "length xs < length (put_many p xs)"
  by (induction xs) auto

lemma reads_many: "reads p p' \<Longrightarrow> reads (put_many p) (get_many p')"
  unfolding reads_def [of "put_many p"] get_many_def
  using get_upto_put length_put_many by (metis length_append trans_less_add1)

lemma unat_less_pow: "unat (w :: 'a::len word) < 256 ^ ((LENGTH('a) + 7) div 8)"
proof -
  have "LENGTH('a) \<le> 8 * ((LENGTH('a) + 7) div 8)" by linarith
  then have "(2 :: nat) ^ LENGTH('a) \<le> 2 ^ (8 * ((LENGTH('a) + 7) div 8))" by (rule power_increasing) simp
  also have "\<dots> = 256 ^ ((LENGTH('a) + 7) div 8)" by (simp add: power_mult)
  finally show ?thesis using unat_lt2p [of w] by linarith
qed

lemma reads_word: "reads (put_word :: 'a::len word printer) get_word"
proof -
  let ?n = "(LENGTH('a) + 7) div 8"
  have "reads (put_via (\<lambda>w :: 'a word. be_bytes ?n (unat w)) (put_many put_byte)) get_word"
    unfolding get_word_def
    by (rule reads_via [OF reads_many [OF reads_byte]])
      (simp add: from_be_def be_nat_be_bytes unat_less_pow)
  moreover have "put_via (\<lambda>w :: 'a word. be_bytes ?n (unat w)) (put_many put_byte) = put_word"
    by (simp add: fun_eq_iff put_via_def put_word_def)
  ultimately show ?thesis by simp
qed

definition put_string :: "string printer" where
  "put_string = put_many (put_via (\<lambda>c. of_nat (of_char c)) put_byte)"

definition get_string :: "string parser" where
  "get_string = get_many (get_via (\<lambda>b. char_of (unat b)) get_byte)"

lemma unat_of_char: "unat (of_nat (of_char c) :: u8) = of_char c"
proof -
  have "of_char c < (256 :: nat)" by simp
  then show ?thesis by (simp only: unat_of_nat) (simp add: take_bit_nat_def)
qed

lemma reads_string: "reads put_string get_string"
  unfolding put_string_def get_string_def
  by (rule reads_many [OF reads_via [OF reads_byte]]) (simp add: unat_of_char)

abbreviation put_bytes :: "bytes printer" where "put_bytes \<equiv> put_many put_byte"
abbreviation get_bytes :: "bytes parser" where "get_bytes \<equiv> get_many get_byte"

lemma reads_bytes: "reads put_bytes get_bytes"
  by (rule reads_many [OF reads_byte])

lemma message_decode_put: "reads p p' \<Longrightarrow> message_decode p' (p x) = Inr x"
proof -
  assume "reads p p'"
  then have "p' (p x @ []) = Some (x, [])" unfolding reads_def by blast
  then show ?thesis by (simp add: message_decode_def)
qed

lemmas reads_intros = reads_byte reads_word reads_string reads_pair reads_many reads_via

end
