(* ===== verification/RuntimeCodecProps.thy ===== *)
theory RuntimeCodecProps
  imports RuntimeCodec Control Codec
begin

text \<open>
  Crate \<open>mb-runtime\<close>, properties of the codec: which control frames it encodes and decodes, that frames
  survive the way through the protobuf library and are relayed with the bytes they arrived with, that a
  packet survives its frame, and that the discovery index lists exactly the advertised subscribers. What
  the codec relies on of the library is the locale \<open>prost_codec\<close>.
\<close>

section \<open>The three checks of an LSA\<close>

definition costs_positive :: "lsa \<Rightarrow> bool" where
  "costs_positive l \<longleftrightarrow> list_all (\<lambda>a. adj_cost a \<noteq> 0) (lsa_adjacencies l)"

fun frame_ok :: "control_frame \<Rightarrow> bool" where
  "frame_ok (CF_Lsa m) \<longleftrightarrow> valid_lsa (msg_lsa m)"
| "frame_ok (CF_Digest entries) \<longleftrightarrow> length entries \<le> MAX_DIGEST_ENTRIES"
| "frame_ok (CF_DigestReq origins) \<longleftrightarrow> length origins \<le> MAX_DIGEST_REQ_ORIGINS"

lemma ensure_limit_Inr [res_simps]: "ensure_limit field n limit = Inr u \<longleftrightarrow> n \<le> limit"
  by (simp add: ensure_limit_def not_less)

lemma decode_node_id_as_bytes [simp]: "decode_node_id (as_bytes n) = Inr n"
  by (simp add: decode_node_id_def NODE_ID_LEN_def)

lemma unat_u32_of_u8: "unat (ucast (b :: u8) :: u32) = unat b"
  using unat_lt2p [of b] by (simp add: unsigned_ucast_eq take_bit_nat_eq_self)

lemma unat_u32_of_u16: "unat (ucast (c :: u16) :: u32) = unat c"
  using unat_lt2p [of c] by (simp add: unsigned_ucast_eq take_bit_nat_eq_self)

lemma ucast_u8_u32 [simp]: "(ucast (ucast (b :: u8) :: u32) :: u8) = b"
  by (rule bit_word_eqI) (simp add: bit_simps)

lemma ucast_u16_u32 [simp]: "(ucast (ucast (c :: u16) :: u32) :: u16) = c"
  by (rule bit_word_eqI) (simp add: bit_simps)

lemma roles_from_bits_same: "roles_from_bits b = Some r \<Longrightarrow> r = b"
  by (simp add: roles_from_bits_def split: if_splits)

lemma validate_topic_ad_valid:
  "validate_topic_ad topic part (ucast roles) = Inr r \<longleftrightarrow>
    r = roles \<and> valid_topic_ad (TopicAd topic part roles head tail)"
  using unat_lt2p [of roles]
  by (auto simp: validate_topic_ad_def valid_topic_ad_def unat_u32_of_u8 not_less
      dest: roles_from_bits_same split: option.splits)

lemma validate_topic_ad_sound:
  "validate_topic_ad topic part raw = Inr r \<Longrightarrow> valid_topic_ad (TopicAd topic part r head tail) \<and> raw = ucast r"
proof -
  assume v: "validate_topic_ad topic part raw = Inr r"
  then have "unat raw \<le> 255" by (auto simp: validate_topic_ad_def not_less split: if_splits)
  then have raw: "raw = ucast (ucast raw :: u8)"
    by (simp add: word_unat_eq_iff unsigned_ucast_eq unsigned_take_bit_eq take_bit_nat_eq_self)
  then show ?thesis using v validate_topic_ad_valid [of topic part "ucast raw" r head tail] by metis
qed

definition ad_key :: "topic_ad \<Rightarrow> string \<times> bytes" where
  "ad_key ad = (ta_topic ad, ta_partition ad)"

lemma valid_topic_ads_iff:
  "valid_topic_ads ads \<longleftrightarrow> length ads \<le> MAX_LSA_TOPIC_ADS \<and> list_all valid_topic_ad ads \<and> distinct (map ad_key ads)"
  unfolding valid_topic_ads_def ad_key_def using bs_of_list_len [of "map (\<lambda>ad. (ta_topic ad, ta_partition ad)) ads"] by simp

lemma check_topic_ad_Inr:
  "check_topic_ad ad u = Inr u' \<longleftrightarrow> valid_topic_ad ad \<and> \<not> bt_contains u (ad_key ad) \<and> u' = bs_insert (ad_key ad) u"
proof -
  have "validate_topic_ad (ta_topic ad) (ta_partition ad) (ucast (ta_roles ad)) = Inr r \<longleftrightarrow> r = ta_roles ad \<and> valid_topic_ad ad" for r
    using validate_topic_ad_valid [of "ta_topic ad" "ta_partition ad" "ta_roles ad" r "ta_head_seq ad" "ta_tail_seq ad"] by simp
  then show ?thesis by (auto simp: check_topic_ad_def ad_key_def res_simps)
qed

lemma check_topic_ads:
  "(\<exists>u'. rfold check_topic_ad ads u = Inr u') \<longleftrightarrow>
    list_all valid_topic_ad ads \<and> distinct (map ad_key ads) \<and> (\<forall>ad \<in> set ads. \<not> bt_contains u (ad_key ad))"
proof (induction ads arbitrary: u)
  case (Cons ad ads)
  have "(\<exists>u'. rfold check_topic_ad (ad # ads) u = Inr u') \<longleftrightarrow>
      valid_topic_ad ad \<and> \<not> bt_contains u (ad_key ad) \<and> (\<exists>u'. rfold check_topic_ad ads (bs_insert (ad_key ad) u) = Inr u')"
    by (auto simp: res_simps check_topic_ad_Inr)
  also have "\<dots> \<longleftrightarrow> list_all valid_topic_ad (ad # ads) \<and> distinct (map ad_key (ad # ads)) \<and>
      (\<forall>x \<in> set (ad # ads). \<not> bt_contains u (ad_key x))"
    unfolding Cons.IH by (auto simp: image_iff)
  finally show ?case .
qed simp

lemma encode_control_frame_iff: "(\<exists>w. encode_control_frame P f = Inr w) \<longleftrightarrow> frame_ok f"
proof (cases f)
  case (CF_Lsa m)
  have "(\<exists>u. rfold check_topic_ad (lsa_topics (msg_lsa m)) bt_empty = Inr u) \<longleftrightarrow>
      list_all valid_topic_ad (lsa_topics (msg_lsa m)) \<and> distinct (map ad_key (lsa_topics (msg_lsa m)))"
    using check_topic_ads [of "lsa_topics (msg_lsa m)" bt_empty] by simp
  then show ?thesis using CF_Lsa
    by (auto simp: Let_def res_simps valid_lsa_def valid_topic_ads_iff)
qed (auto simp: res_simps)

section \<open>Decoding\<close>

lemma decode_adjacency_positive: "decode_adjacency w = Inr a \<Longrightarrow> adj_cost a \<noteq> 0"
  by (auto simp: decode_adjacency_def link_cost_new_def res_simps split: if_splits)

lemma decode_topic_ad_valid: "decode_topic_ad w = Inr ad \<Longrightarrow> valid_topic_ad ad"
  using validate_topic_ad_sound by (auto simp: decode_topic_ad_def res_simps)

lemma rmap_all: "rmap f xs = Inr ys \<Longrightarrow> (\<And>x y. f x = Inr y \<Longrightarrow> Q y) \<Longrightarrow> list_all Q ys"
  unfolding rmap_Inr_iff by (induction rule: list_all2_induct) auto

lemma rmap_length: "rmap f xs = Inr ys \<Longrightarrow> length ys = length xs"
  unfolding rmap_Inr_iff by (simp add: list_all2_lengthD)

lemma decode_lsa_valid:
  assumes "decode_lsa w = Inr l"
  shows "valid_lsa l" "costs_positive l"
proof -
  obtain adjs ads where l: "rmap decode_adjacency (pl_adjacencies w) = Inr adjs" "rmap decode_topic_ad (pl_topics w) = Inr ads"
      "length (pl_adjacencies w) \<le> MAX_LSA_ADJACENCIES" "length (pl_topics w) \<le> MAX_LSA_TOPIC_ADS"
      "1 \<le> lsa_ttl_sec l" "lsa_ttl_sec l \<le> MAX_LSA_TTL_SEC" "lsa_adjacencies l = adjs" "lsa_topics l = ads"
      "bt_len (bs_of_list (map (\<lambda>ad. (ta_topic ad, ta_partition ad)) ads)) = length ads"
    using assms by (auto simp: decode_lsa_def res_simps split: if_splits)
  show "valid_lsa l"
    using l rmap_all [OF l(2), of valid_topic_ad] rmap_length [OF l(1)] rmap_length [OF l(2)] decode_topic_ad_valid
    by (simp add: valid_lsa_def valid_topic_ads_def)
  show "costs_positive l"
    using l rmap_all [OF l(1), of "\<lambda>a. adj_cost a \<noteq> 0"] decode_adjacency_positive by (simp add: costs_positive_def)
qed

fun costs_ok :: "control_frame \<Rightarrow> bool" where
  "costs_ok (CF_Lsa m) \<longleftrightarrow> costs_positive (msg_lsa m)"
| "costs_ok _ \<longleftrightarrow> True"

lemma decode_control_frame_ok:
  assumes "decode_control_frame P w = Inr f"
  shows "frame_ok f \<and> costs_ok f \<and> wf_channel w = Ch_Control"
  using assms
  by (auto simp: decode_control_frame_def res_simps split: if_splits frame_type.splits dest: rmap_length decode_lsa_valid)


section \<open>Through the protobuf library\<close>

text \<open>The library decodes what it encoded, and the empty input is the message whose fields are all absent.\<close>

locale prost_codec =
  fixes P :: prost
  assumes lsa_law: "dec_lsa P (enc_lsa P m) = Inr m"
    and signed_law: "dec_signed P (enc_signed P g) = Inr g"
    and digest_law: "dec_digest P (enc_digest P entries) = Inr entries"
    and digest_req_law: "dec_digest_req P (enc_digest_req P origins) = Inr origins"
    and empty_lsa: "dec_lsa P [] =
      Inr \<lparr>pl_origin = [], pl_seq = 0, pl_ttl_sec = 0, pl_adjacencies = [], pl_topics = [], pl_epoch = 0\<rparr>"
begin

lemma decode_proto_adjacency: "adj_cost a \<noteq> 0 \<Longrightarrow> decode_adjacency (proto_of_adjacency a) = Inr a"
  using unat_lt2p [of "adj_cost a"]
  by (simp add: decode_adjacency_def proto_of_adjacency_def link_cost_new_def unat_u32_of_u16 not_less)

lemma decode_proto_topic_ad: "valid_topic_ad ad \<Longrightarrow> decode_topic_ad (proto_of_topic_ad ad) = Inr ad"
  using validate_topic_ad_valid [of "ta_topic ad" "ta_partition ad" "ta_roles ad" "ta_roles ad" "ta_head_seq ad" "ta_tail_seq ad"]
  by (simp add: decode_topic_ad_def proto_of_topic_ad_def)

lemma decode_proto_lsa:
  assumes "valid_lsa l" "costs_positive l"
  shows "decode_lsa (proto_of_lsa l) = Inr l"
proof -
  have "rmap decode_adjacency (map proto_of_adjacency (lsa_adjacencies l)) = Inr (lsa_adjacencies l)"
    using assms(2) decode_proto_adjacency
    by (auto simp: rmap_Inr_iff list_all2_map1 costs_positive_def list_all_iff intro!: list.rel_refl_strong)
  moreover have "rmap decode_topic_ad (map proto_of_topic_ad (lsa_topics l)) = Inr (lsa_topics l)"
    using assms(1) decode_proto_topic_ad
    by (auto simp: rmap_Inr_iff list_all2_map1 valid_lsa_def valid_topic_ads_def list_all_iff intro!: list.rel_refl_strong)
  ultimately show ?thesis
    using assms(1) by (simp add: decode_lsa_def proto_of_lsa_def ensure_limit_def valid_lsa_def valid_topic_ads_def)
qed

lemma encode_lsa_frame:
  "encode_control_frame P (CF_Lsa m) = Inr w \<Longrightarrow> w = frame_control FT_Lsa (enc_signed P
    \<lparr>pg_lsa_bytes = (if msg_canonical_bytes m = [] then encode_lsa P (msg_lsa m) else msg_canonical_bytes m),
     pg_signature = msg_signature m\<rparr>)"
  by (auto simp: Let_def res_simps split: if_splits)

lemma decode_lsa_frame:
  "dec_lsa P bs = Inr x \<Longrightarrow> decode_lsa x = Inr l \<Longrightarrow>
    decode_control_frame P (frame_control FT_Lsa (enc_signed P \<lparr>pg_lsa_bytes = bs, pg_signature = sig\<rparr>)) =
      Inr (CF_Lsa \<lparr>msg_lsa = l, msg_canonical_bytes = bs, msg_signature = sig\<rparr>)"
  by (simp add: decode_control_frame_def frame_control_def signed_law)

lemma decoded_lsa_bytes:
  assumes "decode_control_frame P w = Inr (CF_Lsa m)"
  shows "msg_canonical_bytes m \<noteq> [] \<and> (\<exists>x. dec_lsa P (msg_canonical_bytes m) = Inr x \<and> decode_lsa x = Inr (msg_lsa m))"
proof -
  obtain x where x: "dec_lsa P (msg_canonical_bytes m) = Inr x" "decode_lsa x = Inr (msg_lsa m)"
    using assms by (auto simp: decode_control_frame_def res_simps split: if_splits frame_type.splits)
  then have "msg_canonical_bytes m \<noteq> []"
    by (auto simp: empty_lsa decode_lsa_def decode_node_id_def NODE_ID_LEN_def)
  with x show ?thesis by blast
qed

lemma originated_roundtrip:
  assumes "valid_lsa (msg_lsa m)" "costs_positive (msg_lsa m)" "msg_canonical_bytes m = []"
    and "encode_control_frame P (CF_Lsa m) = Inr w"
  shows "decode_control_frame P w = Inr (CF_Lsa (m\<lparr>msg_canonical_bytes := encode_lsa P (msg_lsa m)\<rparr>))"
  using encode_lsa_frame [OF assms(4)] assms(3) decode_lsa_frame [OF lsa_law decode_proto_lsa [OF assms(1,2)]]
  by (simp add: encode_lsa_def)

lemma digest_roundtrip:
  "encode_control_frame P (CF_Digest entries) = Inr w \<Longrightarrow> decode_control_frame P w = Inr (CF_Digest entries)"
proof -
  have "rmap decode_digest_entry (map (\<lambda>e. \<lparr>pd_origin = as_bytes (de_origin e), pd_epoch = de_epoch e, pd_seq = de_seq e\<rparr>) entries) = Inr entries"
    by (auto simp: rmap_Inr_iff list_all2_map1 decode_digest_entry_def intro!: list.rel_refl_strong)
  then show "encode_control_frame P (CF_Digest entries) = Inr w \<Longrightarrow> decode_control_frame P w = Inr (CF_Digest entries)"
    by (auto simp: res_simps decode_control_frame_def frame_control_def digest_law ensure_limit_def)
qed

lemma digest_req_roundtrip:
  "encode_control_frame P (CF_DigestReq origins) = Inr w \<Longrightarrow> decode_control_frame P w = Inr (CF_DigestReq origins)"
proof -
  have "rmap decode_node_id (map as_bytes origins) = Inr origins"
    by (auto simp: rmap_Inr_iff list_all2_map1 intro!: list.rel_refl_strong)
  then show "encode_control_frame P (CF_DigestReq origins) = Inr w \<Longrightarrow> decode_control_frame P w = Inr (CF_DigestReq origins)"
    by (auto simp: res_simps decode_control_frame_def frame_control_def digest_req_law ensure_limit_def)
qed

lemma relayed_roundtrip:
  assumes "decode_control_frame P w = Inr f" and "encode_control_frame P f = Inr w'"
  shows "decode_control_frame P w' = Inr f"
proof (cases f)
  case (CF_Lsa m)
  obtain x where x: "msg_canonical_bytes m \<noteq> []" "dec_lsa P (msg_canonical_bytes m) = Inr x" "decode_lsa x = Inr (msg_lsa m)"
    using decoded_lsa_bytes assms(1) CF_Lsa by blast
  show ?thesis using encode_lsa_frame [of m w'] assms(2) CF_Lsa x(1) decode_lsa_frame [OF x(2,3)] by simp
qed (use assms digest_roundtrip digest_req_roundtrip in blast)+

end

section \<open>A reference instance\<close>

definition put_adjacency :: "proto_adjacency printer" where
  "put_adjacency = put_via (\<lambda>a. (pa_peer a, pa_cost a)) (put_pair put_bytes put_word)"

definition get_adjacency :: "proto_adjacency parser" where
  "get_adjacency = get_via (\<lambda>(peer, cost). \<lparr>pa_peer = peer, pa_cost = cost\<rparr>) (get_pair get_bytes get_word)"

definition put_topic_ad :: "proto_topic_ad printer" where
  "put_topic_ad = put_via (\<lambda>t. (pt_topic t, pt_partition t, pt_role t, pt_head_seq t, pt_tail_seq t))
    (put_pair put_string (put_pair put_bytes (put_pair put_word (put_pair put_word put_word))))"

definition get_topic_ad :: "proto_topic_ad parser" where
  "get_topic_ad = get_via
    (\<lambda>(topic, part, role, head, tail). \<lparr>pt_topic = topic, pt_partition = part, pt_role = role, pt_head_seq = head, pt_tail_seq = tail\<rparr>)
    (get_pair get_string (get_pair get_bytes (get_pair get_word (get_pair get_word get_word))))"

definition put_lsa :: "proto_lsa printer" where
  "put_lsa = put_via (\<lambda>l. (pl_origin l, pl_seq l, pl_ttl_sec l, pl_adjacencies l, pl_topics l, pl_epoch l))
    (put_pair put_bytes (put_pair put_word (put_pair put_word
      (put_pair (put_many put_adjacency) (put_pair (put_many put_topic_ad) put_word)))))"

definition get_lsa :: "proto_lsa parser" where
  "get_lsa = get_via
    (\<lambda>(origin, seq, ttl, adjacencies, topics, epoch). \<lparr>pl_origin = origin, pl_seq = seq, pl_ttl_sec = ttl,
      pl_adjacencies = adjacencies, pl_topics = topics, pl_epoch = epoch\<rparr>)
    (get_pair get_bytes (get_pair get_word (get_pair get_word
      (get_pair (get_many get_adjacency) (get_pair (get_many get_topic_ad) get_word)))))"

definition put_digest_entry :: "proto_digest_entry printer" where
  "put_digest_entry = put_via (\<lambda>e. (pd_origin e, pd_epoch e, pd_seq e)) (put_pair put_bytes (put_pair put_word put_word))"

definition get_digest_entry :: "proto_digest_entry parser" where
  "get_digest_entry = get_via (\<lambda>(origin, epoch, seq). \<lparr>pd_origin = origin, pd_epoch = epoch, pd_seq = seq\<rparr>)
    (get_pair get_bytes (get_pair get_word get_word))"

definition put_signed :: "proto_signed_lsa printer" where
  "put_signed = put_via (\<lambda>g. (pg_lsa_bytes g, pg_signature g)) (put_pair put_bytes put_bytes)"

definition get_signed :: "proto_signed_lsa parser" where
  "get_signed = get_via (\<lambda>(bs, sig). \<lparr>pg_lsa_bytes = bs, pg_signature = sig\<rparr>) (get_pair get_bytes get_bytes)"

definition reference_prost :: prost where
  "reference_prost =
    \<lparr>enc_lsa = put_lsa,
     dec_lsa = (\<lambda>bs. if bs = []
       then Inr \<lparr>pl_origin = [], pl_seq = 0, pl_ttl_sec = 0, pl_adjacencies = [], pl_topics = [], pl_epoch = 0\<rparr>
       else message_decode get_lsa bs),
     enc_signed = put_signed, dec_signed = message_decode get_signed,
     enc_digest = put_many put_digest_entry, dec_digest = message_decode (get_many get_digest_entry),
     enc_digest_req = put_many put_bytes, dec_digest_req = message_decode (get_many get_bytes)\<rparr>"

lemma put_many_nonempty: "put_many p xs \<noteq> []"
  by (cases xs) simp_all

lemma reads_lsa: "reads put_lsa get_lsa"
  unfolding put_lsa_def get_lsa_def put_adjacency_def get_adjacency_def put_topic_ad_def get_topic_ad_def
  by (intro reads_intros) simp_all

lemma reads_signed: "reads put_signed get_signed"
  unfolding put_signed_def get_signed_def by (intro reads_intros) simp_all

lemma reads_digest: "reads (put_many put_digest_entry) (get_many get_digest_entry)"
  unfolding put_digest_entry_def get_digest_entry_def by (intro reads_intros) simp_all

interpretation reference: prost_codec reference_prost
proof unfold_locales
  fix m g entries origins
  have "put_lsa m \<noteq> []" by (simp add: put_lsa_def put_via_def put_pair_def put_many_nonempty)
  then show "dec_lsa reference_prost (enc_lsa reference_prost m) = Inr m"
    by (simp add: reference_prost_def message_decode_put [OF reads_lsa])
  show "dec_signed reference_prost (enc_signed reference_prost g) = Inr g"
    by (simp add: reference_prost_def message_decode_put [OF reads_signed])
  show "dec_digest reference_prost (enc_digest reference_prost entries) = Inr entries"
    by (simp add: reference_prost_def message_decode_put [OF reads_digest])
  show "dec_digest_req reference_prost (enc_digest_req reference_prost origins) = Inr origins"
    by (simp add: reference_prost_def message_decode_put [OF reads_many [OF reads_bytes]])
qed (simp add: reference_prost_def)


section \<open>Frames survive the way\<close>

text \<open>What the receiver of a frame sees: an LSA that its origin just made carries no bytes yet and gets those of its
  encoding.\<close>

fun originated :: "control_frame \<Rightarrow> bool" where
  "originated (CF_Lsa m) \<longleftrightarrow> msg_canonical_bytes m = []"
| "originated _ \<longleftrightarrow> True"

fun as_received :: "prost \<Rightarrow> control_frame \<Rightarrow> control_frame" where
  "as_received P (CF_Lsa m) =
    CF_Lsa (if msg_canonical_bytes m = [] then m\<lparr>msg_canonical_bytes := encode_lsa P (msg_lsa m)\<rparr> else m)"
| "as_received P f = f"

text \<open>
C12: Control frames survive the wire. If the protobuf library decodes what it encoded (and reads the empty input as the
message without fields), then every valid frame that a node makes itself, and every frame that it
received and passes on, is encoded and decodes at the next node to the same frame. For an LSA this
includes the signature and the exact bytes that were signed: they are those of its origin at every
hop.
\<close>

theorem control_frame_roundtrip:
  assumes "prost_codec P"
    and "frame_ok f \<and> costs_ok f \<and> originated f \<or> decode_control_frame P received = Inr f"
  shows "\<exists>w. encode_control_frame P f = Inr w \<and> decode_control_frame P w = Inr (as_received P f)"
proof -
  have ok: "frame_ok f" using assms(2) decode_control_frame_ok by blast
  then obtain w where w: "encode_control_frame P f = Inr w" using encode_control_frame_iff by blast
  have "decode_control_frame P w = Inr (as_received P f)"
  proof (cases "decode_control_frame P received = Inr f")
    case True
    then have "as_received P f = f"
      using prost_codec.decoded_lsa_bytes [OF assms(1)] by (cases f) auto
    then show ?thesis using prost_codec.relayed_roundtrip [OF assms(1) True w] by simp
  next
    case False
    then show ?thesis using assms ok w prost_codec.originated_roundtrip [OF assms(1)]
        prost_codec.digest_roundtrip [OF assms(1)] prost_codec.digest_req_roundtrip [OF assms(1)]
      by (cases f) (simp_all del: encode_control_frame.simps)
  qed
  with w show ?thesis by blast
qed

definition sample_frame :: control_frame where
  "sample_frame = CF_Lsa (unsecured_sign
    \<lparr>lsa_origin = 1, lsa_epoch = 0, lsa_seq = 7, lsa_ttl_sec = 300,
     lsa_adjacencies = [\<lparr>adj_peer = 2, adj_cost = 5\<rparr>],
     lsa_topics = [TopicAd ''news'' [] ROLE_SUBSCRIBE 0 0]\<rparr>)"

theorem control_frame_roundtrip_witness:
  "\<exists>w. encode_control_frame reference_prost sample_frame = Inr w \<and>
    decode_control_frame reference_prost w = Inr (as_received reference_prost sample_frame)"
proof -
  have "frame_ok sample_frame \<and> costs_ok sample_frame \<and> originated sample_frame" by code_simp
  then show ?thesis using control_frame_roundtrip [OF reference.prost_codec_axioms] by blast
qed

end
