(* ===== verification/PubSubProps.thy ===== *)
theory PubSubProps
  imports PubSub
begin

text \<open>
  Publish/subscribe: the 64-bit receive window refines the set of all accepted sequence numbers, no
  message reaches a subscription twice, publications number themselves consecutively and reach every
  discovered subscriber in valid multicasts, and an envelope survives the wire.
\<close>

section \<open>The window refines the set of accepted sequence numbers\<close>

text \<open>The specification remembers everything it accepted; it refuses what it has already seen and what lies
  64 or more behind the greatest number it accepted.\<close>

definition spec_accept :: "u64 \<Rightarrow> u64 set \<Rightarrow> bool \<times> u64 set" where
  "spec_accept seq seen =
    (if seq \<in> seen \<or> (\<exists>h \<in> seen. unat seq + 64 \<le> unat h) then (False, seen) else (True, insert seq seen))"

definition window_of :: "u64 set \<Rightarrow> receive_window \<Rightarrow> bool" where
  "window_of seen w \<longleftrightarrow>
    rw_highest w \<in> seen \<and> (\<forall>s \<in> seen. unat s \<le> unat (rw_highest w)) \<and>
    (\<forall>s. unat s \<le> unat (rw_highest w) \<longrightarrow> unat (rw_highest w) < unat s + 64 \<longrightarrow>
      (bit (rw_bitmap w) (unat (rw_highest w) - unat s) \<longleftrightarrow> s \<in> seen))"

lemma unat_diff: "(b :: 'a::len word) \<le> a \<Longrightarrow> unat (a - b) = unat a - unat b"
  by (simp add: unat_sub)

lemma window_of_first: "window_of {seq} (window_first seq)"
  by (auto simp: window_of_def window_first_def bit_simps word_unat_eq_iff)

lemma bit_advance:
  fixes b :: u64
  assumes "k < 64" "n < 64"
  shows "bit (push_bit k b OR 1) n \<longleftrightarrow> n = 0 \<or> k \<le> n \<and> bit b (n - k)"
  using assms by (auto simp: bit_simps)

lemma window_advance:
  assumes w: "window_of seen w" and new: "unat (rw_highest w) < unat seq"
  shows "window_of (insert seq seen) (w\<lparr>
    rw_bitmap := (if 64 \<le> seq - rw_highest w then 1 else push_bit (unat (seq - rw_highest w)) (rw_bitmap w) OR 1), rw_highest := seq\<rparr>)"
proof -
  let ?h = "rw_highest w"
  have sub: "unat (seq - ?h) = unat seq - unat ?h" using new by (intro unat_diff) (simp add: word_le_nat_alt)
  have bits: "bit (if 64 \<le> seq - ?h then 1 else push_bit (unat (seq - ?h)) (rw_bitmap w) OR 1) (unat seq - unat s) \<longleftrightarrow> s = seq \<or> s \<in> seen"
    if s: "unat s \<le> unat seq" "unat seq < unat s + 64" for s
  proof -
    have eq: "s = seq \<longleftrightarrow> unat seq - unat s = 0" using s by (auto simp: word_unat_eq_iff)
    show ?thesis
    proof (cases "64 \<le> seq - ?h")
      case True
      then have "64 \<le> unat seq - unat ?h" using sub by (simp add: word_le_nat_alt)
      then have "s \<notin> seen" using w s unfolding window_of_def by force
      then show ?thesis using True eq by (auto simp: bit_simps)
    next
      case False
      then have k: "unat seq - unat ?h < 64" using sub by (simp add: word_le_nat_alt)
      have "s \<in> seen \<longleftrightarrow> unat seq - unat ?h \<le> unat seq - unat s \<and> bit (rw_bitmap w) (unat seq - unat s - (unat seq - unat ?h))"
      proof (cases "unat s \<le> unat ?h")
        case True
        then have "unat seq - unat s - (unat seq - unat ?h) = unat ?h - unat s" "unat ?h < unat s + 64" using s new by linarith+
        then show ?thesis using w True new s unfolding window_of_def by auto
      next
        case False
        then show ?thesis using w s new unfolding window_of_def by force
      qed
      then show ?thesis using False eq s bit_advance [OF k, of "unat seq - unat s" "rw_bitmap w"] by (simp add: sub)
    qed
  qed
  show ?thesis unfolding window_of_def using w new bits by (auto simp: window_of_def)
qed

lemma window_mark:
  assumes w: "window_of seen w" and s: "unat seq \<le> unat (rw_highest w)" "unat (rw_highest w) < unat seq + 64"
  shows "window_of (insert seq seen) (w\<lparr>rw_bitmap := rw_bitmap w OR push_bit (unat (rw_highest w) - unat seq) 1\<rparr>)"
  using w s unfolding window_of_def by (auto simp: bit_simps word_unat_eq_iff)

lemma window_refines:
  assumes w: "window_of seen w"
  shows "\<exists>seen'. spec_accept seq seen = (fst (window_accept seq w), seen') \<and> window_of seen' (snd (window_accept seq w))"
proof (cases "unat (rw_highest w) < unat seq")
  case True
  have "seq \<notin> seen" "\<not> (\<exists>h \<in> seen. unat seq + 64 \<le> unat h)" using w True unfolding window_of_def by force+
  then show ?thesis using window_advance [OF w True] True
    by (simp add: spec_accept_def window_accept_def Let_def word_less_nat_alt split del: if_split)
next
  case False
  then have le: "unat seq \<le> unat (rw_highest w)" "seq \<le> rw_highest w" by (simp_all add: word_le_nat_alt)
  have age: "unat (rw_highest w - seq) = unat (rw_highest w) - unat seq" using le(2) by (rule unat_diff)
  show ?thesis
  proof (cases "64 \<le> rw_highest w - seq")
    case True
    then have "64 \<le> unat (rw_highest w) - unat seq" using age by (simp add: word_le_nat_alt)
    then have "\<exists>h \<in> seen. unat seq + 64 \<le> unat h" using w unfolding window_of_def by force
    then show ?thesis using w True False by (simp add: spec_accept_def window_accept_def Let_def word_less_nat_alt)
  next
    case in_window: False
    then have n: "unat (rw_highest w) < unat seq + 64" using age le(1) by (simp add: word_le_nat_alt)
    have old: "\<not> (\<exists>h \<in> seen. unat seq + 64 \<le> unat h)" using w n unfolding window_of_def by force
    have "rw_bitmap w AND push_bit (unat (rw_highest w) - unat seq) 1 \<noteq> 0 \<longleftrightarrow> bit (rw_bitmap w) (unat (rw_highest w) - unat seq)"
      by (simp add: push_bit_of_1 and_exp_eq_0_iff_not_bit)
    also have "\<dots> \<longleftrightarrow> seq \<in> seen" using w le(1) n unfolding window_of_def by blast
    finally show ?thesis
      using w old False in_window age window_mark [OF w le(1) n]
      by (simp add: spec_accept_def window_accept_def Let_def word_less_nat_alt)
  qed
qed

section \<open>Everything a component has accepted\<close>

type_synonym accepted = "node_id \<times> topic_key \<Rightarrow> u64 set"

definition entry_of :: "u64 set \<Rightarrow> receive_window option \<Rightarrow> bool" where
  "entry_of seen entry \<longleftrightarrow> (case entry of None \<Rightarrow> seen = {} | Some w \<Rightarrow> window_of seen w)"

definition windows_of :: "accepted \<Rightarrow> pubsub \<Rightarrow> bool" where
  "windows_of acc s \<longleftrightarrow> (\<forall>key. entry_of (acc key) (bt_get (ps_received s) key))"

lemma windows_of_put:
  "windows_of acc s \<Longrightarrow> window_of seen w \<Longrightarrow> windows_of (acc(key := seen)) (s\<lparr>ps_received := bt_insert key w (ps_received s)\<rparr>)"
  unfolding windows_of_def by (simp add: entry_of_def del: split_paired_All)

lemma record_seq_refines:
  assumes "windows_of acc s"
  shows "\<exists>seen. spec_accept seq (acc key) = (fst (record_seq key seq s), seen) \<and>
    windows_of (acc(key := seen)) (snd (record_seq key seq s))"
proof (cases "bt_get (ps_received s) key")
  case None
  then have "acc key = {}" using spec [OF assms [unfolded windows_of_def], of key] by (simp add: entry_of_def)
  then show ?thesis using windows_of_put [OF assms window_of_first] None
    by (simp add: spec_accept_def record_seq_def)
next
  case (Some w)
  then have "window_of (acc key) w" using spec [OF assms [unfolded windows_of_def], of key] by (simp add: entry_of_def)
  from window_refines [OF this, of seq] obtain seen where
    *: "spec_accept seq (acc key) = (fst (window_accept seq w), seen)" "window_of seen (snd (window_accept seq w))" by blast
  have "record_seq key seq s = (fst (window_accept seq w),
      s\<lparr>ps_received := bt_insert key (snd (window_accept seq w)) (ps_received s)\<rparr>)"
    using Some by (simp add: record_seq_def Let_def case_prod_unfold)
  then show ?thesis using *(1) windows_of_put [OF assms *(2)] by simp
qed

lemma record_seq_frame [simp]:
  "ps_me (snd (record_seq key seq s)) = ps_me s" "ps_policies (snd (record_seq key seq s)) = ps_policies s"
  "ps_local_subscriptions (snd (record_seq key seq s)) = ps_local_subscriptions s"
  "ps_discovery (snd (record_seq key seq s)) = ps_discovery s"
  "ps_next_sequences (snd (record_seq key seq s)) = ps_next_sequences s"
  "k \<noteq> key \<Longrightarrow> bt_get (ps_received (snd (record_seq key seq s))) k = bt_get (ps_received s) k"
  by (auto simp: record_seq_def Let_def case_prod_unfold split: option.split)

section \<open>Chunks of destinations\<close>

lemma chunk_list_concat: "0 < n \<Longrightarrow> concat (chunk_list n xs) = xs"
  by (induction n xs rule: chunk_list.induct) (subst chunk_list.simps, auto)

lemma chunk_list_sizes: "0 < n \<Longrightarrow> c \<in> set (chunk_list n xs) \<Longrightarrow> c \<noteq> [] \<and> length c \<le> n \<and> (distinct xs \<longrightarrow> distinct c)"
proof (induction n xs rule: chunk_list.induct)
  case (1 n xs)
  then have "xs \<noteq> []" by (subst (asm) (2) chunk_list.simps) (auto split: if_splits)
  with "1.prems" have "c = take n xs \<or> c \<in> set (chunk_list n (drop n xs))"
    by (subst (asm) chunk_list.simps) auto
  then show ?case using "1.IH" \<open>xs \<noteq> []\<close> "1.prems"(1) by auto
qed

lemma destination_chunk_limit_ok:
  assumes "len \<le> MAX_LIVE_ENVELOPE_LEN"
  shows "\<exists>limit. destination_chunk_limit len = Inr limit \<and> 0 < limit \<and> limit \<le> MAX_MULTICAST_DESTINATIONS \<and>
    2 + 32 * limit + len \<le> MAX_FORWARD_PAYLOAD_LEN"
proof -
  let ?room = "MAX_FORWARD_PAYLOAD_LEN - len - 2"
  have b: "len + 34 \<le> MAX_FORWARD_PAYLOAD_LEN" using assms by (simp add: pubsub_consts wire_consts)
  have r: "destination_chunk_limit len = Inr (min MAX_MULTICAST_DESTINATIONS (?room div 32))"
    using b by (simp add: destination_chunk_limit_def usize_minus_def pubsub_consts)
  have "1 \<le> ?room div 32" using b by (simp add: div_greater_zero_iff)
  moreover have "32 * (?room div 32) \<le> ?room" by simp
  ultimately show ?thesis using b r by (auto simp: wire_consts min_def)
qed

section \<open>Envelopes\<close>

definition wire_of :: "envelope \<Rightarrow> wire_envelope" where
  "wire_of e =
    \<lparr>we_origin = as_bytes (en_origin e), we_topic = tk_name (en_topic e), we_partition = tk_partition (en_topic e),
     we_seq = en_seq e, we_ts_ms = en_ts_ms e, we_payload = en_payload e\<rparr>"

definition topic_valid :: "topic_key \<Rightarrow> bool" where
  "topic_valid topic \<longleftrightarrow> validate_topic (tk_name topic) (tk_partition topic) = Inr ()"

lemma validate_topic_cases: "validate_topic name p = Inr u \<longleftrightarrow>
    name \<noteq> [] \<and> length name \<le> TOPIC_NAME_LIMIT \<and> length p \<le> MAX_PARTITION_LEN"
  by (auto simp: validate_topic_def)

lemma envelope_encode_Inr_iff:
  "envelope_encode penc e = Inr bs \<longleftrightarrow> topic_valid (en_topic e) \<and> en_seq e \<noteq> 0 \<and> bs = ENVELOPE_MAGIC @ penc (wire_of e)"
  by (auto simp: envelope_encode_def res_simps topic_valid_def wire_of_def split: if_splits)

lemma envelope_decode_encode:
  assumes "\<And>w. pdec (penc w) = Inr w" and "envelope_encode penc e = Inr bs"
  shows "envelope_decode pdec bs = Inr e"
proof -
  have e: "topic_valid (en_topic e)" "en_seq e \<noteq> 0" "bs = ENVELOPE_MAGIC @ penc (wire_of e)"
    using assms(2) by (simp_all add: envelope_encode_Inr_iff)
  have "is_envelope bs" "drop (length ENVELOPE_MAGIC) bs = penc (wire_of e)" by (simp_all add: e(3) is_envelope_def)
  then show ?thesis
    using e(1,2) by (simp add: envelope_decode_def assms(1) wire_of_def topic_key_new_def topic_valid_def NODE_ID_LEN_def)
qed

lemma envelope_decode_valid:
  assumes "envelope_decode pdec bs = Inr e"
  shows "topic_valid (en_topic e) \<and> en_seq e \<noteq> 0 \<and> is_envelope bs \<and>
    pdec (drop (length ENVELOPE_MAGIC) bs) = Inr (wire_of e)"
  using assms by (auto simp: envelope_decode_def res_simps topic_key_new_def topic_valid_def wire_of_def NODE_ID_LEN_def
      as_bytes_from_bytes split: if_splits)

section \<open>The component keeps its invariant\<close>

definition next_seq :: "pubsub \<Rightarrow> topic_key \<Rightarrow> u64" where
  "next_seq s topic = (case bt_get (ps_next_sequences s) topic of None \<Rightarrow> 0 | Some n \<Rightarrow> n)"

definition pubsub_inv :: "pubsub \<Rightarrow> bool" where
  "pubsub_inv s \<longleftrightarrow>
    (\<forall>topic w. bt_get (ps_received s) (ps_me s, topic) = Some w \<longrightarrow> unat (rw_highest w) \<le> unat (next_seq s topic))"

text \<open>A \<open>TopicKey\<close> in memory is valid because its fields are private; and no other node sends under the
  own identity.\<close>

fun pubsub_admissible :: "pubsub \<Rightarrow> pubsub_event \<Rightarrow> bool" where
  "pubsub_admissible s (PE_LocalPublish topic payload) \<longleftrightarrow> topic_valid topic"
| "pubsub_admissible s (PE_Inbound source payload) \<longleftrightarrow> source \<noteq> ps_me s"
| "pubsub_admissible s _ \<longleftrightarrow> True"

definition own_envelope :: "mono_time \<Rightarrow> topic_key \<Rightarrow> bytes \<Rightarrow> pubsub \<Rightarrow> envelope" where
  "own_envelope now topic payload s =
    \<lparr>en_origin = ps_me s, en_topic = topic, en_seq = next_seq s topic + 1, en_ts_ms = now, en_payload = payload\<rparr>"

definition open_sequence :: "topic_key \<Rightarrow> pubsub \<Rightarrow> pubsub" where
  "open_sequence topic s = s\<lparr>ps_next_sequences := bt_insert topic (next_seq s topic) (ps_next_sequences s)\<rparr>"

definition numbered :: "topic_key \<Rightarrow> pubsub \<Rightarrow> pubsub" where
  "numbered topic s =
    (open_sequence topic s)\<lparr>ps_next_sequences :=
      bt_insert topic (next_seq s topic + 1) (ps_next_sequences (open_sequence topic s))\<rparr>"

definition after_publish :: "topic_key \<Rightarrow> pubsub \<Rightarrow> pubsub" where
  "after_publish topic s = snd (record_seq (ps_me s, topic) (next_seq s topic + 1) (numbered topic s))"

definition multicasts :: "topic_policy \<Rightarrow> topic_key \<Rightarrow> bytes \<Rightarrow> pubsub \<Rightarrow> nat \<Rightarrow> pubsub_action list" where
  "multicasts policy topic encoded s limit =
    map (\<lambda>chunk. PA_SendMulticast chunk (tp_priority policy) (stable_hash [str_bytes (tk_name topic), tk_partition topic])
        (stable_hash [as_bytes (ps_me s), tk_partition topic]) (tp_mode policy = Latest \<and> tp_priority policy = P1) encoded)
      (chunk_list limit (bt_keys (bt_remove (ps_me s) (index_subscribers (ps_discovery s) topic))))"

lemma numbered_simps [simp]:
  "ps_me (numbered topic s) = ps_me s" "ps_policies (numbered topic s) = ps_policies s"
  "ps_local_subscriptions (numbered topic s) = ps_local_subscriptions s" "ps_discovery (numbered topic s) = ps_discovery s"
  "ps_received (numbered topic s) = ps_received s"
  "next_seq (numbered topic s) t = (if t = topic then next_seq s topic + 1 else next_seq s t)"
  "next_seq (open_sequence topic s) t = next_seq s t" "ps_received (open_sequence topic s) = ps_received s"
  "ps_me (open_sequence topic s) = ps_me s"
  by (auto simp: numbered_def open_sequence_def next_seq_def)

lemma succ_greater: "(n :: u64) \<noteq> - 1 \<Longrightarrow> n + 1 \<noteq> 0 \<and> unat (n + 1) = Suc (unat n)"
  using checked_add_Some [OF checked_add_one, of n] by (auto simp: unat_eq_0 [symmetric])

lemma record_own:
  assumes "pubsub_inv s" "next_seq s topic \<noteq> - 1"
  shows "fst (record_seq (ps_me s, topic) (next_seq s topic + 1) (numbered topic s))"
    "\<exists>w. bt_get (ps_received (after_publish topic s)) (ps_me s, topic) = Some w \<and> rw_highest w = next_seq s topic + 1"
proof -
  have acc: "rw_highest w < next_seq s topic + 1" if "bt_get (ps_received s) (ps_me s, topic) = Some w" for w
    using assms(1) that succ_greater [OF assms(2)] unfolding pubsub_inv_def by (fastforce simp: word_less_nat_alt)
  show "fst (record_seq (ps_me s, topic) (next_seq s topic + 1) (numbered topic s))"
    using acc by (auto simp: record_seq_def window_accept_def Let_def split: option.split)
  show "\<exists>w. bt_get (ps_received (after_publish topic s)) (ps_me s, topic) = Some w \<and> rw_highest w = next_seq s topic + 1"
    using acc by (auto simp: after_publish_def record_seq_def window_accept_def window_first_def Let_def
        split: option.split simp del: split_paired_Ex)
qed

lemma publish_rejected:
  assumes "topic_valid topic"
  shows "policies_get (ps_policies s) (tk_name topic) = None \<Longrightarrow>
      publish penc now topic payload s = Inr ([PA_Rejected (UnknownTopic (tk_name topic))], s)"
    and "policies_get (ps_policies s) (tk_name topic) = Some policy \<Longrightarrow> next_seq s topic = - 1 \<Longrightarrow>
      publish penc now topic payload s = Inr ([PA_Rejected (SequenceExhausted topic)], open_sequence topic s)"
    and "policies_get (ps_policies s) (tk_name topic) = Some policy \<Longrightarrow> next_seq s topic \<noteq> - 1 \<Longrightarrow>
      encoded = ENVELOPE_MAGIC @ penc (wire_of (own_envelope now topic payload s)) \<Longrightarrow> MAX_LIVE_ENVELOPE_LEN < length encoded \<Longrightarrow>
      publish penc now topic payload s =
        Inr ([PA_Rejected (EnvelopeTooLarge (length encoded) MAX_LIVE_ENVELOPE_LEN)], open_sequence topic s)"
proof -
  assume "policies_get (ps_policies s) (tk_name topic) = None"
  then show "publish penc now topic payload s = Inr ([PA_Rejected (UnknownTopic (tk_name topic))], s)"
    by (simp add: publish_def)
next
  assume "policies_get (ps_policies s) (tk_name topic) = Some policy" "next_seq s topic = - 1"
  then show "publish penc now topic payload s = Inr ([PA_Rejected (SequenceExhausted topic)], open_sequence topic s)"
    by (simp add: publish_def Let_def next_seq_def [symmetric] open_sequence_def checked_add_one_max)
next
  assume *: "policies_get (ps_policies s) (tk_name topic) = Some policy" "next_seq s topic \<noteq> - 1"
    "encoded = ENVELOPE_MAGIC @ penc (wire_of (own_envelope now topic payload s))" "MAX_LIVE_ENVELOPE_LEN < length encoded"
  have "envelope_encode penc (own_envelope now topic payload s) = Inr encoded"
    using assms succ_greater [OF *(2)] by (simp add: envelope_encode_Inr_iff own_envelope_def *(3))
  then show "publish penc now topic payload s =
      Inr ([PA_Rejected (EnvelopeTooLarge (length encoded) MAX_LIVE_ENVELOPE_LEN)], open_sequence topic s)"
    using * checked_add_one [OF *(2)]
    by (simp add: publish_def Let_def next_seq_def [symmetric] open_sequence_def [symmetric] own_envelope_def)
qed

lemma publish_accepted:
  assumes "topic_valid topic" "pubsub_inv s" "policies_get (ps_policies s) (tk_name topic) = Some policy" "next_seq s topic \<noteq> - 1"
    and encoded: "encoded = ENVELOPE_MAGIC @ penc (wire_of (own_envelope now topic payload s))" "length encoded \<le> MAX_LIVE_ENVELOPE_LEN"
    and limit: "destination_chunk_limit (length encoded) = Inr limit" "0 < limit"
  shows "publish penc now topic payload s =
    Inr (multicasts policy topic encoded s limit @ [PA_Published topic (next_seq s topic + 1)], after_publish topic s)"
proof -
  have e: "envelope_encode penc (own_envelope now topic payload s) = Inr encoded"
    using assms(1) succ_greater [OF assms(4)] by (simp add: envelope_encode_Inr_iff own_envelope_def encoded(1))
  have r: "record_seq (ps_me s, topic) (next_seq s topic + 1) (numbered topic s) = (True, after_publish topic s)"
    using record_own(1) [OF assms(2,4)] by (simp add: after_publish_def prod_eq_iff)
  have "ps_me (after_publish topic s) = ps_me s" "ps_discovery (after_publish topic s) = ps_discovery s"
    by (simp_all add: after_publish_def)
  then show ?thesis
    using assms(3) e encoded(2) limit checked_add_one [OF assms(4)] r
    by (simp add: publish_def Let_def next_seq_def [symmetric] open_sequence_def [symmetric] own_envelope_def
        numbered_def [symmetric] chunks_def multicasts_def)
qed

section \<open>Deliveries\<close>

fun delivery :: "pubsub_action \<Rightarrow> (sub_id \<times> (node_id \<times> topic_key) \<times> u64) option" where
  "delivery (PA_DeliverToApp sub m) =
    Some (sub, (en_origin (dm_envelope m), en_topic (dm_envelope m)), en_seq (dm_envelope m))"
| "delivery _ = None"

definition deliveries :: "pubsub_action list \<Rightarrow> (sub_id \<times> (node_id \<times> topic_key) \<times> u64) list" where
  "deliveries as = List.map_filter delivery as"

lemma deliveries_simps [simp]:
  "deliveries [] = []" "deliveries (as @ bs) = deliveries as @ deliveries bs"
  "deliveries (a # as) = (case delivery a of None \<Rightarrow> deliveries as | Some d \<Rightarrow> d # deliveries as)"
  by (simp_all add: deliveries_def List.map_filter_def split: option.split)

text \<open>A step delivers, at most once to each subscription, only what was not accepted before; everything it
  delivers counts as accepted afterwards.\<close>

definition fresh_step :: "accepted \<Rightarrow> pubsub_action list \<Rightarrow> accepted \<Rightarrow> bool" where
  "fresh_step acc as acc' \<longleftrightarrow>
    distinct (deliveries as) \<and> (\<forall>key. acc key \<subseteq> acc' key) \<and>
    (\<forall>(sub, key, seq) \<in> set (deliveries as). seq \<notin> acc key \<and> seq \<in> acc' key)"

lemma fresh_step_quiet: "deliveries as = [] \<Longrightarrow> fresh_step acc as acc"
  by (simp add: fresh_step_def)

lemma spec_accept_fresh:
  "spec_accept seq seen = (b, seen') \<Longrightarrow> seen \<subseteq> seen' \<and> (b \<longrightarrow> seq \<notin> seen \<and> seq \<in> seen')"
  by (auto simp: spec_accept_def split: if_splits)

lemma local_deliveries_eq:
  "deliveries (local_deliveries e s) =
    map (\<lambda>sub. (sub, (en_origin e, en_topic e), en_seq e))
      (map fst (filter (\<lambda>(_, selector). selector_matches selector (en_topic e)) (bt_entries (ps_local_subscriptions s))))"
proof -
  have "deliveries (map (\<lambda>(sub, _). PA_DeliverToApp sub \<lparr>dm_envelope = e, dm_is_backfill = False\<rparr>) xs) =
      map (\<lambda>sub. (sub, (en_origin e, en_topic e), en_seq e)) (map fst xs)" for xs :: "(sub_id \<times> topic_selector) list"
    by (induction xs) auto
  then show ?thesis by (simp add: local_deliveries_def)
qed

lemma receive_step:
  assumes inv: "pubsub_inv s" and src: "source \<noteq> ps_me s" and w: "windows_of acc s" and r: "receive pdec source payload s = (as, s')"
  shows "pubsub_inv s' \<and> ps_me s' = ps_me s \<and> (\<exists>acc'. windows_of acc' s' \<and> fresh_step acc as acc')"
proof (cases "\<exists>e. envelope_decode pdec payload = Inr e \<and> en_origin e = source \<and> policies_get (ps_policies s) (tk_name (en_topic e)) \<noteq> None")
  case False
  then have "s' = s" "deliveries as = []" using r by (auto simp: receive_def split: sum.splits if_splits)
  then show ?thesis using inv w fresh_step_quiet by blast
next
  case True
  then obtain e where e: "envelope_decode pdec payload = Inr e" "en_origin e = source"
    "policies_get (ps_policies s) (tk_name (en_topic e)) \<noteq> None" by blast
  let ?k = "(en_origin e, en_topic e)"
  let ?r = "record_seq ?k (en_seq e) s"
  have r': "s' = snd ?r" "as = (if fst ?r then local_deliveries e (snd ?r) else [PA_Dropped (DuplicateOrTooOld (en_origin e) (en_topic e) (en_seq e))])"
    using r e by (auto simp: receive_def Let_def case_prod_unfold split: if_splits)
  obtain seen where seen: "spec_accept (en_seq e) (acc ?k) = (fst ?r, seen)" "windows_of (acc(?k := seen)) (snd ?r)"
    using record_seq_refines [OF w] by blast
  have "fresh_step acc as (acc(?k := seen))"
  proof (cases "fst ?r")
    case True
    have "distinct (map fst (filter (\<lambda>(_, selector). selector_matches selector (en_topic e))
        (bt_entries (ps_local_subscriptions (snd ?r)))))"
      by (rule distinct_map_filter) (rule bt_entries_keys_distinct)
    then have "distinct (deliveries as)"
      using True unfolding r' local_deliveries_eq by (subst if_P) (auto simp only: distinct_map [of "\<lambda>sub. (sub, _)"] inj_on_def prod.inject local_deliveries_eq)
    moreover have "\<forall>d \<in> set (deliveries as). fst (snd d) = ?k \<and> snd (snd d) = en_seq e"
      using True by (auto simp: r' local_deliveries_eq)
    ultimately show ?thesis using spec_accept_fresh [OF seen(1)] True unfolding fresh_step_def by fastforce
  next
    case False
    then show ?thesis using spec_accept_fresh [OF seen(1)] by (auto simp: fresh_step_def r')
  qed
  moreover have "bt_get (ps_received s') (ps_me s, t) = bt_get (ps_received s) (ps_me s, t)" for t
    using src e(2) by (auto simp: r'(1))
  then have "pubsub_inv s'" using inv unfolding pubsub_inv_def next_seq_def by (simp add: r'(1))
  ultimately show ?thesis using seen(2) r'(1) by auto
qed

lemma multicasts_quiet: "deliveries (multicasts policy topic encoded s limit) = []"
proof -
  have "deliveries (map (\<lambda>c. PA_SendMulticast c a b d x y) cs) = []" for a b d x y and cs :: "node_id list list"
    by (induction cs) auto
  then show ?thesis by (simp add: multicasts_def)
qed

lemma publish_step:
  assumes inv: "pubsub_inv s" and t: "topic_valid topic" and w: "windows_of acc s"
  shows "\<exists>as s'. publish penc now topic payload s = Inr (as, s') \<and> pubsub_inv s' \<and> ps_me s' = ps_me s \<and>
    (\<exists>acc'. windows_of acc' s' \<and> fresh_step acc as acc')"
proof -
  define enc where "enc = ENVELOPE_MAGIC @ penc (wire_of (own_envelope now topic payload s))"
  have quiet: "?thesis" if "publish penc now topic payload s = Inr (as, s')" "deliveries as = []"
      "s' = s \<or> s' = open_sequence topic s" for as s'
  proof -
    have "pubsub_inv s'" "ps_me s' = ps_me s" "windows_of acc s'"
      using that(3) inv w by (auto simp: pubsub_inv_def windows_of_def)
    then show ?thesis using that(1) fresh_step_quiet [OF that(2)] by blast
  qed
  show ?thesis
  proof (cases "policies_get (ps_policies s) (tk_name topic)")
    case None
    show ?thesis by (rule quiet [OF publish_rejected(1) [OF t None]]) auto
  next
    case (Some policy)
    show ?thesis
    proof (cases "next_seq s topic = - 1 \<or> MAX_LIVE_ENVELOPE_LEN < length enc")
      case True
      then show ?thesis
      proof (cases "next_seq s topic = - 1")
        case exhausted: True
        show ?thesis by (rule quiet [OF publish_rejected(2) [OF t Some exhausted]]) auto
      next
        case large: False
        then show ?thesis using True by (intro quiet [OF publish_rejected(3) [of topic s policy enc penc now payload, OF t Some large enc_def]]) auto
      qed
    next
      case False
      then have len: "length enc \<le> MAX_LIVE_ENVELOPE_LEN" "next_seq s topic \<noteq> - 1" by auto
      obtain limit where limit: "destination_chunk_limit (length enc) = Inr limit" "0 < limit"
        using destination_chunk_limit_ok [OF len(1)] by blast
      have p: "publish penc now topic payload s =
          Inr (multicasts policy topic enc s limit @ [PA_Published topic (next_seq s topic + 1)], after_publish topic s)"
        by (rule publish_accepted [of topic s policy enc penc now payload limit, OF t inv Some len(2) enc_def len(1) limit])
      have "windows_of acc (numbered topic s)" using w by (simp add: windows_of_def)
      from record_seq_refines [OF this, of "next_seq s topic + 1" "(ps_me s, topic)"] obtain seen where
        seen: "spec_accept (next_seq s topic + 1) (acc (ps_me s, topic)) = (True, seen)"
          "windows_of (acc((ps_me s, topic) := seen)) (after_publish topic s)"
        using record_own(1) [OF inv len(2)] by (auto simp: after_publish_def)
      have "fresh_step acc (multicasts policy topic enc s limit @ [PA_Published topic (next_seq s topic + 1)]) (acc((ps_me s, topic) := seen))"
        using spec_accept_fresh [OF seen(1)] by (auto simp: fresh_step_def multicasts_quiet)
      moreover have "pubsub_inv (after_publish topic s)"
      proof -
        obtain w where own: "bt_get (ps_received (after_publish topic s)) (ps_me s, topic) = Some w" "rw_highest w = next_seq s topic + 1"
          using record_own(2) [OF inv len(2)] by blast
        have n: "next_seq (after_publish topic s) t = (if t = topic then next_seq s topic + 1 else next_seq s t)" for t
          using numbered_simps(6) unfolding next_seq_def after_publish_def record_seq_frame by simp
        have other: "t \<noteq> topic \<Longrightarrow> bt_get (ps_received (after_publish topic s)) (ps_me s, t) = bt_get (ps_received s) (ps_me s, t)" for t
          by (simp add: after_publish_def)
        have me: "ps_me (after_publish topic s) = ps_me s" by (simp add: after_publish_def)
        show ?thesis unfolding pubsub_inv_def me n
        proof (intro allI impI)
          fix t w' assume "bt_get (ps_received (after_publish topic s)) (ps_me s, t) = Some w'"
          then show "unat (rw_highest w') \<le> unat (if t = topic then next_seq s topic + 1 else next_seq s t)"
            using own inv other [of t] unfolding pubsub_inv_def by (cases "t = topic") auto
        qed
      qed
      ultimately show ?thesis using p seen(2) by (auto simp: after_publish_def)
    qed
  qed
qed

lemma quiet_step:
  assumes "pubsub_inv s" "windows_of acc s" "deliveries as = []" "ps_me s' = ps_me s" "ps_received s' = ps_received s"
    "ps_next_sequences s' = ps_next_sequences s"
  shows "pubsub_inv s' \<and> ps_me s' = ps_me s \<and> (\<exists>acc'. windows_of acc' s' \<and> fresh_step acc as acc')"
proof -
  have "pubsub_inv s'" using assms(1,4,5,6) unfolding pubsub_inv_def next_seq_def by simp
  moreover have "windows_of acc s'" using assms(2,5) unfolding windows_of_def by simp
  ultimately show ?thesis using fresh_step_quiet [OF assms(3)] assms(4) by blast
qed

lemma subscription_change_quiet: "deliveries (subscription_change previous s) = []"
  by (simp add: subscription_change_def Let_def)

lemma pubsub_step:
  assumes inv: "pubsub_inv s" and adm: "pubsub_admissible s e" and w: "windows_of acc s"
  shows "\<exists>as s'. pubsub_handle penc pdec now e s = Inr (as, s') \<and> pubsub_inv s' \<and> ps_me s' = ps_me s \<and>
    (\<exists>acc'. windows_of acc' s' \<and> fresh_step acc as acc')"
proof (cases e)
  case (PE_LocalPublish topic payload)
  then show ?thesis using publish_step [OF inv _ w] adm by simp
next
  case (PE_Inbound source payload)
  obtain as s' where r: "receive pdec source payload s = (as, s')" by fastforce
  then show ?thesis using receive_step [OF inv _ w r] adm PE_Inbound by simp
next
  case (PE_DiscoveryUpdated d)
  show ?thesis unfolding PE_DiscoveryUpdated pubsub_handle.simps
    by (rule exI, rule exI, rule conjI [OF refl], rule quiet_step [OF inv w]) simp_all
next
  case (PE_LocalSubscribe sub selector)
  show ?thesis unfolding PE_LocalSubscribe pubsub_handle.simps local_subscribe_def Let_def
    by (rule exI, rule exI, rule conjI [OF refl], rule quiet_step [OF inv w subscription_change_quiet]) simp_all
next
  case (PE_LocalUnsubscribe sub)
  show ?thesis unfolding PE_LocalUnsubscribe pubsub_handle.simps local_unsubscribe_def Let_def
    by (rule exI, rule exI, rule conjI [OF refl], rule quiet_step [OF inv w subscription_change_quiet]) simp_all
qed

definition pubsub_ok :: "pubsub \<Rightarrow> bool" where
  "pubsub_ok s \<longleftrightarrow> pubsub_inv s \<and> (\<exists>acc. windows_of acc s)"

lemma pubsub_ok_new: "pubsub_ok (pubsub_new me policies)"
  by (auto simp: pubsub_ok_def pubsub_inv_def windows_of_def entry_of_def pubsub_new_def intro!: exI [of _ "\<lambda>_. {}"])

interpretation pubsub: component "pubsub_handle penc pdec" pubsub_ok pubsub_admissible for penc pdec
proof unfold_locales
  fix s e now assume "pubsub_ok s" "pubsub_admissible s e"
  then show "\<exists>as s'. pubsub_handle penc pdec now e s = Inr (as, s') \<and> pubsub_ok s'"
    unfolding pubsub_ok_def using pubsub_step [of s e] by metis
qed

end
