(* ===== verification/PubSubClaims.thy ===== *)
theory PubSubClaims
  imports PubSubProps Codec
begin

text \<open>
  The properties of \<open>mb-pubsub\<close>. Where the protobuf library matters, they assume that it decodes what
  it encoded; a reference codec shows that the assumption can hold.
\<close>

section \<open>A codec for envelopes and a sample component\<close>

definition envelope_put :: "wire_envelope printer" where
  "envelope_put = put_via (\<lambda>w. (we_origin w, we_topic w, we_partition w, we_seq w, we_ts_ms w, we_payload w))
    (put_pair put_bytes (put_pair put_string (put_pair put_bytes (put_pair put_word (put_pair put_word put_bytes)))))"

definition envelope_get :: "bytes \<Rightarrow> string + wire_envelope" where
  "envelope_get = message_decode (get_via
    (\<lambda>(origin, topic, part, seq, ts, payload). \<lparr>we_origin = origin, we_topic = topic, we_partition = part,
       we_seq = seq, we_ts_ms = ts, we_payload = payload\<rparr>)
    (get_pair get_bytes (get_pair get_string (get_pair get_bytes (get_pair get_word (get_pair get_word get_bytes))))))"

lemma envelope_codec: "envelope_get (envelope_put w) = Inr w"
  unfolding envelope_get_def envelope_put_def by (rule message_decode_put) (intro reads_intros, simp)

definition sample_topic :: topic_key where
  "sample_topic = TopicKey ''tracks'' [1, 2]"

definition sample_policies :: topic_policies where
  "sample_policies = bt_insert ''tracks'' \<lparr>tp_priority = P1, tp_mode = Latest\<rparr> bt_empty"

definition sample_publisher :: pubsub where
  "sample_publisher = (pubsub_new 1 sample_policies)
    \<lparr>ps_discovery := set_subscribers (TopicSelector ''tracks'' None) [3, 2, 1] bt_empty\<rparr>"

definition sample_subscriber :: pubsub where
  "sample_subscriber = (pubsub_new 2 sample_policies)
    \<lparr>ps_local_subscriptions := bt_insert 9 (TopicSelector ''tracks'' None) bt_empty\<rparr>"

lemma sample_topic_valid: "topic_valid sample_topic"
  by code_simp

lemma sample_publisher_ok: "pubsub_ok sample_publisher"
  using pubsub_ok_new [of 1 sample_policies]
  by (simp add: pubsub_ok_def sample_publisher_def pubsub_inv_def windows_of_def next_seq_def)

section \<open>Claims\<close>

fun window_run :: "receive_window \<Rightarrow> u64 list \<Rightarrow> bool list" where
  "window_run w [] = []"
| "window_run w (seq # seqs) = fst (window_accept seq w) # window_run (snd (window_accept seq w)) seqs"

fun spec_run :: "u64 set \<Rightarrow> u64 list \<Rightarrow> bool list" where
  "spec_run seen [] = []"
| "spec_run seen (seq # seqs) = fst (spec_accept seq seen) # spec_run (snd (spec_accept seq seen)) seqs"

lemma window_run_refines: "window_of seen w \<Longrightarrow> window_run w seqs = spec_run seen seqs"
proof (induction seqs arbitrary: seen w)
  case (Cons seq seqs)
  from window_refines [OF Cons.prems, of seq] obtain seen' where
    "spec_accept seq seen = (fst (window_accept seq w), seen')" "window_of seen' (snd (window_accept seq w))" by blast
  then show ?case using Cons.IH by simp
qed simp

text \<open>
C31: The receive window, one counter and a 64-bit map, answers every sequence of numbers exactly as the
specification that remembers the whole set of accepted numbers: it accepts a number if and only if it has
not accepted it before and has accepted none that is 64 or more ahead of it.
\<close>

theorem receive_window_refines: "window_run (window_first first) seqs = spec_run {first} seqs"
  by (rule window_run_refines [OF window_of_first])

lemma history_windows:
  assumes "pubsub.history penc pdec (pubsub_new me policies) h s"
  shows "pubsub_inv s \<and> (\<exists>acc. windows_of acc s \<and> distinct (deliveries (concat (map snd h))) \<and>
    (\<forall>(sub, key, seq) \<in> set (deliveries (concat (map snd h))). seq \<in> acc key))"
  using assms
proof (induction rule: pubsub.history.induct)
  case begin_history
  then show ?case using pubsub_ok_new by (auto simp: pubsub_ok_def)
next
  case (extend h s e now as s')
  then obtain acc where inv: "pubsub_inv s" and acc: "windows_of acc s" "distinct (deliveries (concat (map snd h)))"
    "\<forall>(sub, key, seq) \<in> set (deliveries (concat (map snd h))). seq \<in> acc key" by blast
  from pubsub_step [OF inv extend.hyps(2) acc(1), of penc pdec now] extend.hyps(3) obtain acc' where
    s': "pubsub_inv s'" "windows_of acc' s'" "fresh_step acc as acc'" by auto
  have "distinct (deliveries (concat (map snd (h @ [(e, as)]))))"
    using acc(2,3) s'(3) unfolding fresh_step_def by fastforce
  moreover have "\<forall>(sub, key, seq) \<in> set (deliveries (concat (map snd (h @ [(e, as)])))). seq \<in> acc' key"
    using acc(3) s'(3) unfolding fresh_step_def by fastforce
  ultimately show ?case using s'(1,2) by blast
qed

text \<open>
C7: No message is delivered twice. Over every history of a component in which no other node used its
identity, each subscription receives a given (origin, topic, sequence number) at most once, whatever
is duplicated, reordered or replayed on the way.
\<close>

theorem delivered_at_most_once:
  assumes "pubsub.history penc pdec (pubsub_new me policies) h s"
  shows "distinct (deliveries (concat (map snd h)))"
  using history_windows [OF assms] by blast

definition sample_message :: bytes where
  "sample_message = ENVELOPE_MAGIC @ envelope_put (wire_of (own_envelope 5 sample_topic [42] sample_publisher))"

definition sample_inbox :: "(mono_time \<times> pubsub_event) list" where
  "sample_inbox = [(1, PE_LocalSubscribe 9 (TopicSelector ''tracks'' None)), (2, PE_Inbound 1 sample_message),
    (3, PE_Inbound 1 sample_message)]"

theorem delivered_at_most_once_witness:
  "\<exists>h s. pubsub.history envelope_put envelope_get (pubsub_new 2 sample_policies) h s \<and>
    deliveries (concat (map snd h)) = [(9, (1, sample_topic), 1)] \<and> distinct (deliveries (concat (map snd h)))"
proof -
  have "map_option (\<lambda>(h, s). deliveries (concat (map snd h)))
      (run_history (pubsub_handle envelope_put envelope_get) pubsub_admissible sample_inbox (pubsub_new 2 sample_policies)) =
    Some [(9, (1, sample_topic), 1)]" by code_simp
  then obtain h s where r: "run_history (pubsub_handle envelope_put envelope_get) pubsub_admissible sample_inbox
      (pubsub_new 2 sample_policies) = Some (h, s)" "deliveries (concat (map snd h)) = [(9, (1, sample_topic), 1)]" by auto
  from pubsub.run_history_history [OF r(1) pubsub.history.begin_history]
  have "pubsub.history envelope_put envelope_get (pubsub_new 2 sample_policies) h s" by simp
  with delivered_at_most_once [OF this] r(2) show ?thesis by blast
qed

lemma index_subscribers_contains:
  "bt_contains (index_subscribers index topic) n \<longleftrightarrow>
    (\<exists>selector nodes. bt_get index selector = Some nodes \<and> selector_matches selector topic \<and> bt_contains nodes n)"
  unfolding index_subscribers_def bs_of_list_contains
  by (auto simp: bt_entries_iff bt_contains_iff_keys)

text \<open>
C32: A publication on a known topic that fits takes the next sequence number of its topic and is sent to
exactly the discovered subscribers other than the publisher, each in exactly one multicast, in
ascending order; every multicast is one the forwarder accepts (at least one and at most 64 distinct
destinations, payload within the limit) and carries the same encoded envelope.
\<close>

theorem publish_fanout:
  assumes "pubsub_ok s" and "topic_valid topic" and "policies_get (ps_policies s) (tk_name topic) = Some policy"
    and "next_seq s topic \<noteq> - 1"
    and "encoded = ENVELOPE_MAGIC @ penc (wire_of (own_envelope now topic payload s))" and "length encoded \<le> MAX_LIVE_ENVELOPE_LEN"
  shows "\<exists>multicasts s'. publish penc now topic payload s =
      Inr (multicasts @ [PA_Published topic (next_seq s topic + 1)], s') \<and> next_seq s' topic = next_seq s topic + 1 \<and>
    sorted_wrt (<) (concat (map pa_destinations multicasts)) \<and>
    set (concat (map pa_destinations multicasts)) = {n. n \<noteq> ps_me s \<and> (\<exists>selector nodes.
      bt_get (ps_discovery s) selector = Some nodes \<and> selector_matches selector topic \<and> bt_contains nodes n)} \<and>
    (\<forall>a \<in> set multicasts. \<exists>ds flow key. multicast_valid ds encoded \<and>
      a = PA_SendMulticast ds (tp_priority policy) flow key (tp_mode policy = Latest \<and> tp_priority policy = P1) encoded)"
proof -
  obtain limit where limit: "destination_chunk_limit (length encoded) = Inr limit" "0 < limit"
      "limit \<le> MAX_MULTICAST_DESTINATIONS" "2 + 32 * limit + length encoded \<le> MAX_FORWARD_PAYLOAD_LEN"
    using destination_chunk_limit_ok [OF assms(6)] by blast
  let ?ds = "bt_keys (bt_remove (ps_me s) (index_subscribers (ps_discovery s) topic))"
  have p: "publish penc now topic payload s =
      Inr (multicasts policy topic encoded s limit @ [PA_Published topic (next_seq s topic + 1)], after_publish topic s)"
    using assms(1) by (intro publish_accepted [of topic s policy encoded penc now payload limit, OF assms(2) _ assms(3-6) limit(1,2)]) (simp add: pubsub_ok_def)
  have dests: "concat (map pa_destinations (multicasts policy topic encoded s limit)) = ?ds"
    using chunk_list_concat [OF limit(2), of ?ds] by (simp add: multicasts_def comp_def)
  have "multicast_valid c encoded" if "c \<in> set (chunk_list limit ?ds)" for c
  proof -
    have "c \<noteq> []" "length c \<le> limit" "distinct c" using chunk_list_sizes [OF limit(2) that] by auto
    then show ?thesis using limit(3,4) unfolding multicast_valid_def by linarith
  qed
  then have "\<forall>a \<in> set (multicasts policy topic encoded s limit). \<exists>ds flow key. multicast_valid ds encoded \<and>
      a = PA_SendMulticast ds (tp_priority policy) flow key (tp_mode policy = Latest \<and> tp_priority policy = P1) encoded"
    unfolding multicasts_def by auto
  moreover have "set ?ds = {n. n \<noteq> ps_me s \<and> (\<exists>selector nodes.
      bt_get (ps_discovery s) selector = Some nodes \<and> selector_matches selector topic \<and> bt_contains nodes n)}"
    unfolding index_subscribers_contains [symmetric] by (auto simp: bt_keys_iff bt_contains_def split: if_splits)
  moreover have "next_seq (after_publish topic s) topic = next_seq s topic + 1"
    using numbered_simps(6) [of topic s topic] unfolding next_seq_def after_publish_def record_seq_frame by simp
  moreover have "sorted_wrt (<) ?ds" by simp
  ultimately show ?thesis
    using p by (intro exI [of _ "multicasts policy topic encoded s limit"] exI [of _ "after_publish topic s"] conjI) (simp_all only: dests)
qed

theorem publish_fanout_witness:
  "\<exists>multicasts s'. publish envelope_put 5 sample_topic [42] sample_publisher = Inr (multicasts @ [PA_Published sample_topic 1], s') \<and>
    sorted_wrt (<) (concat (map pa_destinations multicasts))"
proof -
  have p: "policies_get (ps_policies sample_publisher) (tk_name sample_topic) = Some \<lparr>tp_priority = P1, tp_mode = Latest\<rparr>"
    and n: "next_seq sample_publisher sample_topic = 0" and l: "length sample_message \<le> MAX_LIVE_ENVELOPE_LEN" by code_simp+
  show ?thesis
    using publish_fanout [of sample_publisher sample_topic _ sample_message envelope_put 5 "[42]",
        OF sample_publisher_ok sample_topic_valid p _ sample_message_def l] n by auto
qed

text \<open>
A publication that is refused consumes nothing: on an unknown topic, with the sequence numbers of the
topic exhausted, or with an envelope that is too large for a multicast to a single node, the only action is
the rejection with its reason, and neither a sequence number nor a receive window changes.
\<close>

theorem publish_refused:
  assumes "topic_valid topic"
    and "encoded = ENVELOPE_MAGIC @ penc (wire_of (own_envelope now topic payload s))"
    and "reason = (if policies_get (ps_policies s) (tk_name topic) = None then Some (UnknownTopic (tk_name topic))
      else if next_seq s topic = - 1 then Some (SequenceExhausted topic)
      else if MAX_LIVE_ENVELOPE_LEN < length encoded then Some (EnvelopeTooLarge (length encoded) MAX_LIVE_ENVELOPE_LEN)
      else None)"
    and "reason \<noteq> None"
  shows "\<exists>s'. publish penc now topic payload s = Inr ([PA_Rejected (the reason)], s') \<and>
    (\<forall>t. next_seq s' t = next_seq s t) \<and> ps_received s' = ps_received s"
proof (cases "policies_get (ps_policies s) (tk_name topic)")
  case None
  then show ?thesis using publish_rejected(1) [OF assms(1) None] assms(3) by simp
next
  case (Some policy)
  show ?thesis
  proof (cases "next_seq s topic = - 1")
    case True
    then show ?thesis using publish_rejected(2) [OF assms(1) Some True] assms(3) Some by simp
  next
    case False
    then have large: "MAX_LIVE_ENVELOPE_LEN < length encoded" using assms(3,4) Some by (auto split: if_splits)
    show ?thesis
      using publish_rejected(3) [of topic s policy encoded penc now payload, OF assms(1) Some False assms(2) large]
        assms(3) Some False large by simp
  qed
qed

theorem publish_refused_witness:
  "\<exists>s'. publish envelope_put 5 sample_topic [42] (pubsub_new 1 bt_empty) = Inr ([PA_Rejected (UnknownTopic ''tracks'')], s') \<and>
    ps_received s' = bt_empty"
proof -
  have none: "policies_get (ps_policies (pubsub_new 1 bt_empty)) (tk_name sample_topic) = None"
    by (simp add: policies_get_def pubsub_new_def)
  have name: "tk_name sample_topic = ''tracks''" by (simp add: sample_topic_def)
  have recv: "ps_received (pubsub_new 1 bt_empty) = bt_empty" by (simp add: pubsub_new_def)
  have "\<exists>s'. publish envelope_put 5 sample_topic [42] (pubsub_new 1 bt_empty) =
      Inr ([PA_Rejected (the (Some (UnknownTopic ''tracks'')))], s') \<and>
    (\<forall>t. next_seq s' t = next_seq (pubsub_new 1 bt_empty) t) \<and> ps_received s' = ps_received (pubsub_new 1 bt_empty)"
    by (rule publish_refused [OF sample_topic_valid refl]) (use none name in simp_all)
  then show ?thesis unfolding recv option.sel by blast
qed

text \<open>
C33: A published message arrives. If the protobuf library decodes what it encoded, then the payload of every
multicast of a publication, received from the publisher by a component that knows the topic and to which
the number is fresh, is delivered to exactly the matching subscriptions of the receiver, in their order,
as the envelope that was published: origin, topic, number, time stamp and payload.
\<close>

theorem published_message_delivered:
  assumes "\<And>w. pdec (penc w) = Inr w"
    and "pubsub_ok a" and "topic_valid topic" and "publish penc now topic payload a = Inr (as, a')"
    and "PA_SendMulticast ds priority flow key conf encoded \<in> set as"
    and "policies_get (ps_policies b) (tk_name topic) \<noteq> None"
    and "windows_of acc b" and "fst (spec_accept (next_seq a topic + 1) (acc (ps_me a, topic)))"
  shows "fst (receive pdec (ps_me a) encoded b) =
    map (\<lambda>(sub, _). PA_DeliverToApp sub
        \<lparr>dm_envelope = \<lparr>en_origin = ps_me a, en_topic = topic, en_seq = next_seq a topic + 1, en_ts_ms = now, en_payload = payload\<rparr>,
         dm_is_backfill = False\<rparr>)
      (filter (\<lambda>(_, selector). selector_matches selector topic) (bt_entries (ps_local_subscriptions b)))"
proof -
  let ?e = "own_envelope now topic payload a"
  define enc where "enc = ENVELOPE_MAGIC @ penc (wire_of ?e)"
  obtain policy where policy: "policies_get (ps_policies a) (tk_name topic) = Some policy"
    using publish_rejected(1) [OF assms(3), of a penc now payload] assms(4,5)
    by (cases "policies_get (ps_policies a) (tk_name topic)") auto
  have seq: "next_seq a topic \<noteq> - 1" using publish_rejected(2) [OF assms(3) policy] assms(4,5) by auto
  have len: "length enc \<le> MAX_LIVE_ENVELOPE_LEN"
    using publish_rejected(3) [of topic a policy enc penc now payload, OF assms(3) policy seq enc_def] assms(4,5)
    by (cases "MAX_LIVE_ENVELOPE_LEN < length enc") auto
  obtain limit where limit: "destination_chunk_limit (length enc) = Inr limit" "0 < limit"
    using destination_chunk_limit_ok [OF len] by blast
  have "publish penc now topic payload a = Inr (multicasts policy topic enc a limit @ [PA_Published topic (next_seq a topic + 1)], after_publish topic a)"
    using assms(2) by (intro publish_accepted [of topic a policy enc penc now payload limit, OF assms(3) _ policy seq enc_def len limit]) (simp add: pubsub_ok_def)
  with assms(4,5) have enc: "encoded = enc" by (auto simp: multicasts_def)
  have "envelope_encode penc ?e = Inr enc"
    using assms(3) succ_greater [OF seq] by (simp add: envelope_encode_Inr_iff enc_def own_envelope_def)
  then have dec: "envelope_decode pdec encoded = Inr ?e" using envelope_decode_encode [OF assms(1)] enc by simp
  have "fst (record_seq (ps_me a, topic) (next_seq a topic + 1) b)"
    using record_seq_refines [OF assms(7), of "next_seq a topic + 1" "(ps_me a, topic)"] assms(8) by auto
  with dec assms(6) show ?thesis
    by (auto simp: receive_def Let_def case_prod_unfold own_envelope_def local_deliveries_def)
qed

theorem published_message_delivered_witness:
  "fst (receive envelope_get 1 sample_message sample_subscriber) =
    [PA_DeliverToApp 9 \<lparr>dm_envelope = \<lparr>en_origin = 1, en_topic = sample_topic, en_seq = 1, en_ts_ms = 5, en_payload = [42]\<rparr>,
       dm_is_backfill = False\<rparr>]"
proof -
  have policy: "policies_get (ps_policies sample_publisher) (tk_name sample_topic) = Some \<lparr>tp_priority = P1, tp_mode = Latest\<rparr>"
    and seq: "next_seq sample_publisher sample_topic \<noteq> - 1" and len: "length sample_message \<le> MAX_LIVE_ENVELOPE_LEN"
    and limit: "destination_chunk_limit (length sample_message) = Inr 64" by code_simp+
  have "chunk_list 64 (bt_keys (bt_remove (ps_me sample_publisher) (index_subscribers (ps_discovery sample_publisher) sample_topic))) = [[2, 3]]"
    by code_simp
  moreover have "publish envelope_put 5 sample_topic [42] sample_publisher = Inr (multicasts \<lparr>tp_priority = P1, tp_mode = Latest\<rparr>
      sample_topic sample_message sample_publisher 64 @ [PA_Published sample_topic (next_seq sample_publisher sample_topic + 1)],
      after_publish sample_topic sample_publisher)"
    using sample_publisher_ok by (intro publish_accepted [of sample_topic sample_publisher _ sample_message envelope_put 5 "[42]", OF sample_topic_valid _ policy seq sample_message_def len limit]) (simp_all add: pubsub_ok_def)
  ultimately obtain as a' ds priority flow key conf where p: "publish envelope_put 5 sample_topic [42] sample_publisher = Inr (as, a')"
      "PA_SendMulticast ds priority flow key conf sample_message \<in> set as"
    by (auto simp: multicasts_def)
  have w: "windows_of (\<lambda>_. {}) sample_subscriber"
    by (simp add: windows_of_def entry_of_def sample_subscriber_def pubsub_new_def)
  have k: "policies_get (ps_policies sample_subscriber) (tk_name sample_topic) \<noteq> None" by code_simp
  have n: "next_seq sample_publisher sample_topic = 0" "ps_me sample_publisher = 1" by code_simp+
  have subs: "filter (\<lambda>(_, selector). selector_matches selector sample_topic) (bt_entries (ps_local_subscriptions sample_subscriber)) =
      [(9, TopicSelector ''tracks'' None)]" by code_simp
  from published_message_delivered [OF envelope_codec sample_publisher_ok sample_topic_valid p k w] subs n
  show ?thesis by (simp add: spec_accept_def)
qed



end
