(* ===== verification/Discovery.thy ===== *)
theory Discovery
  imports RuntimeCodecProps PubSubClaims
begin

text \<open>
  Crate \<open>mb-runtime\<close>, from subscriptions to discovery: the advertisements a node makes of its subscriptions, the index
  that another node builds of them, and the nodes that a publication there is sent to.
\<close>

definition ad_key_selector :: "topic_ad \<Rightarrow> topic_selector" where
  "ad_key_selector ad = TopicSelector (ta_topic ad) (if ta_partition ad = [] then None else Some (ta_partition ad))"

definition subscribes :: "discovered_topic_ad \<Rightarrow> topic_selector \<Rightarrow> node_id \<Rightarrow> bool" where
  "subscribes d selector n \<longleftrightarrow>
    roles_contains (ta_roles (dt_ad d)) ROLE_SUBSCRIBE \<and> ad_key_selector (dt_ad d) = selector \<and> dt_node d = n"

definition lists :: "(topic_selector, node_id btset) btree \<Rightarrow> topic_selector \<Rightarrow> node_id \<Rightarrow> bool" where
  "lists index selector n \<longleftrightarrow> (\<exists>nodes. bt_get index selector = Some nodes \<and> bt_contains nodes n)"

lemma ad_selector_valid: "valid_topic_ad ad \<Longrightarrow> ad_selector ad = Inr (ad_key_selector ad)"
  by (simp add: ad_selector_def ad_key_selector_def valid_topic_ad_def selector_all_partitions_def topic_key_new_def
      validate_topic_def selector_exact_def pubsub_consts control_consts)

lemma index_topic_ad_step:
  assumes "valid_topic_ad (dt_ad d)"
  shows "\<exists>m'. index_topic_ad d m = Inr m' \<and> (\<forall>selector n. lists m' selector n \<longleftrightarrow> lists m selector n \<or> subscribes d selector n)"
proof (cases "roles_contains (ta_roles (dt_ad d)) ROLE_SUBSCRIBE")
  case True
  then show ?thesis
    by (auto simp: index_topic_ad_def ad_selector_valid [OF assms] lists_def subscribes_def split: option.splits)
qed (simp add: index_topic_ad_def lists_def subscribes_def)

lemma index_topic_ads:
  assumes "\<forall>d \<in> set ads. valid_topic_ad (dt_ad d)"
  shows "\<exists>m'. rfold index_topic_ad ads m = Inr m' \<and>
    (\<forall>selector n. lists m' selector n \<longleftrightarrow> lists m selector n \<or> (\<exists>d \<in> set ads. subscribes d selector n))"
  using assms
proof (induction ads arbitrary: m)
  case (Cons d ads)
  obtain m1 where m1: "index_topic_ad d m = Inr m1"
      "\<forall>selector n. lists m1 selector n \<longleftrightarrow> lists m selector n \<or> subscribes d selector n"
    using index_topic_ad_step [of d m] Cons.prems by auto
  obtain m2 where "rfold index_topic_ad ads m1 = Inr m2"
      "\<forall>selector n. lists m2 selector n \<longleftrightarrow> lists m1 selector n \<or> (\<exists>d \<in> set ads. subscribes d selector n)"
    using Cons by force
  with m1 show ?case by auto
qed simp

lemma set_subscribers_fold:
  assumes "distinct (map fst es)"
  shows "lists (fold (\<lambda>(selector, nodes). set_subscribers selector (bt_keys nodes)) es idx) selector n \<longleftrightarrow>
    (case map_of es selector of None \<Rightarrow> lists idx selector n | Some nodes \<Rightarrow> bt_contains nodes n)"
  using assms
proof (induction es arbitrary: idx)
  case (Cons e es)
  obtain s nodes where e: "e = (s, nodes)" by fastforce
  have "map_of es s = None" using Cons.prems by (simp add: e map_of_eq_None_iff)
  moreover have "lists (set_subscribers s (bt_keys nodes) idx) selector n \<longleftrightarrow>
      (if selector = s then bt_contains nodes n else lists idx selector n)"
    by (auto simp: lists_def set_subscribers_def bt_contains_iff_keys)
  ultimately show ?case using Cons by (auto simp: e split: option.splits)
qed simp

lemma discovery_from_topic_ads_lists:
  assumes "\<forall>d \<in> set ads. valid_topic_ad (dt_ad d)"
  shows "\<exists>idx. discovery_from_topic_ads ads = Inr idx \<and> (\<forall>selector n. lists idx selector n \<longleftrightarrow> (\<exists>d \<in> set ads. subscribes d selector n))"
proof -
  obtain m where m: "rfold index_topic_ad ads bt_empty = Inr m"
      "\<forall>selector n. lists m selector n \<longleftrightarrow> (\<exists>d \<in> set ads. subscribes d selector n)"
    using index_topic_ads [OF assms, of bt_empty] by (auto simp: lists_def)
  let ?idx = "fold (\<lambda>(selector, nodes). set_subscribers selector (bt_keys nodes)) (bt_entries m) bt_empty"
  have "lists ?idx selector n \<longleftrightarrow> lists m selector n" for selector n
    unfolding set_subscribers_fold [OF bt_entries_keys_distinct] bt_map_of_entries
    by (auto simp: lists_def split: option.splits)
  with m show ?thesis by (simp add: discovery_from_topic_ads_def)
qed

definition ad_matches :: "topic_ad \<Rightarrow> topic_key \<Rightarrow> bool" where
  "ad_matches ad topic \<longleftrightarrow> roles_contains (ta_roles ad) ROLE_SUBSCRIBE \<and> ta_topic ad = tk_name topic \<and>
    (ta_partition ad = [] \<or> ta_partition ad = tk_partition topic)"

lemma subscribes_matches:
  "(\<exists>selector. subscribes d selector n \<and> selector_matches selector topic) \<longleftrightarrow> dt_node d = n \<and> ad_matches (dt_ad d) topic"
  by (auto simp: subscribes_def ad_matches_def ad_key_selector_def selector_matches_def)

lemma subscription_ad_matches:
  "selector \<in> set selectors \<Longrightarrow> selector_matches selector topic \<Longrightarrow> \<exists>ad \<in> set (subscription_ads selectors). ad_matches ad topic"
  by (auto simp: subscription_ads_def ad_matches_def selector_matches_def roles_contains_def split: option.splits)

text \<open>
C11: Discovery is exact. From valid advertisements the runtime builds its index without a panic, and the nodes it lists
for a topic are exactly those that advertised a subscription to the topic, to its partition or to all
partitions. So a node that advertises its subscriptions is listed for every topic that one of them matches.
\<close>

theorem discovery_exact:
  assumes "\<forall>d \<in> set ads. valid_topic_ad (dt_ad d)"
  shows "\<exists>idx. discovery_from_topic_ads ads = Inr idx \<and>
    (\<forall>topic. set (bt_keys (index_subscribers idx topic)) = {n. \<exists>ad. DiscoveredTopicAd n ad \<in> set ads \<and> ad_matches ad topic}) \<and>
    (\<forall>n selectors topic. DiscoveredTopicAd n ` set (subscription_ads selectors) \<subseteq> set ads \<longrightarrow>
      (\<exists>selector \<in> set selectors. selector_matches selector topic) \<longrightarrow> n \<in> set (bt_keys (index_subscribers idx topic)))"
proof -
  obtain idx where idx: "discovery_from_topic_ads ads = Inr idx"
      "\<forall>selector n. lists idx selector n \<longleftrightarrow> (\<exists>d \<in> set ads. subscribes d selector n)"
    using discovery_from_topic_ads_lists [OF assms] by blast
  have mem: "n \<in> set (bt_keys (index_subscribers idx topic)) \<longleftrightarrow>
      (\<exists>ad. DiscoveredTopicAd n ad \<in> set ads \<and> ad_matches ad topic)" for n topic
  proof -
    have "n \<in> set (bt_keys (index_subscribers idx topic)) \<longleftrightarrow> (\<exists>selector. lists idx selector n \<and> selector_matches selector topic)"
      unfolding bt_contains_iff_keys [symmetric] index_subscribers_contains lists_def by blast
    also have "\<dots> \<longleftrightarrow> (\<exists>d \<in> set ads. dt_node d = n \<and> ad_matches (dt_ad d) topic)"
      unfolding idx(2) [rule_format] using subscribes_matches by blast
    also have "\<dots> \<longleftrightarrow> (\<exists>ad. DiscoveredTopicAd n ad \<in> set ads \<and> ad_matches ad topic)"
      by (metis discovered_topic_ad.collapse discovered_topic_ad.sel)
    finally show ?thesis .
  qed
  have "n \<in> set (bt_keys (index_subscribers idx topic))"
    if "DiscoveredTopicAd n ` set (subscription_ads selectors) \<subseteq> set ads" "selector \<in> set selectors" "selector_matches selector topic"
    for n selectors selector topic
    using subscription_ad_matches [OF that(2,3)] that(1) unfolding mem by blast
  then show ?thesis using idx(1) mem by blast
qed

definition sample_ads :: "discovered_topic_ad list" where
  "sample_ads =
    [DiscoveredTopicAd 2 (TopicAd ''news'' [] ROLE_SUBSCRIBE 0 0), DiscoveredTopicAd 3 (TopicAd ''news'' [1] ROLE_SUBSCRIBE 0 0),
     DiscoveredTopicAd 4 (TopicAd ''news'' [] ROLE_PUBLISH 0 0)]"

theorem discovery_exact_witness:
  "\<exists>idx. discovery_from_topic_ads sample_ads = Inr idx \<and> set (bt_keys (index_subscribers idx (TopicKey ''news'' [7]))) = {2}"
proof -
  have "list_all (\<lambda>d. valid_topic_ad (dt_ad d)) sample_ads" by code_simp
  then have valid: "\<forall>d \<in> set sample_ads. valid_topic_ad (dt_ad d)" by (simp add: list_all_iff)
  have "{n. \<exists>ad. DiscoveredTopicAd n ad \<in> set sample_ads \<and> ad_matches ad (TopicKey ''news'' [7])} = {2}"
  proof -
    have "ad_matches (TopicAd ''news'' [] ROLE_SUBSCRIBE 0 0) (TopicKey ''news'' [7])"
      and "\<not> ad_matches (TopicAd ''news'' [1] ROLE_SUBSCRIBE 0 0) (TopicKey ''news'' [7])"
      and "\<not> ad_matches (TopicAd ''news'' [] ROLE_PUBLISH 0 0) (TopicKey ''news'' [7])" by code_simp+
    then show ?thesis unfolding sample_ads_def by auto
  qed
  then show ?thesis
    by (intro ex_forward [OF discovery_exact [OF valid]]) (elim conjE, simp only: simp_thms)
qed

text \<open>
C34: An exact selector on the empty partition and the selector of all partitions of a topic have the same
  advertisement. A node that holds both makes two advertisements with one key, which the control plane
  rejects as a whole: the event changes nothing, and the node goes on advertising what it advertised before.
\<close>

theorem overlapping_subscriptions_not_advertised:
  assumes "TopicSelector name None \<in> set selectors" and "TopicSelector name (Some []) \<in> set selectors"
  shows "control_handle now (CE_LocalTopicAdsChanged (subscription_ads selectors)) s = Inr ([], s)"
proof -
  let ?k = "\<lambda>selector. (ts_name selector, case ts_partition selector of None \<Rightarrow> [] | Some part \<Rightarrow> part)"
  have "map ad_key (subscription_ads selectors) = map ?k selectors" by (simp add: subscription_ads_def ad_key_def comp_def)
  moreover have "\<not> distinct (map ?k selectors)"
  proof
    assume "distinct (map ?k selectors)"
    then have "inj_on ?k (set selectors)" by (simp add: distinct_map)
    from inj_onD [OF this _ assms] show False by simp
  qed
  ultimately have "\<not> distinct (map ad_key (subscription_ads selectors))" by simp
  moreover have "mset (map ad_key (sort (subscription_ads selectors))) = mset (map ad_key (subscription_ads selectors))" by simp
  ultimately have "\<not> distinct (map ad_key (sort (subscription_ads selectors)))" by (metis mset_eq_imp_distinct_iff)
  then show ?thesis by (simp add: valid_topic_ads_iff)
qed

theorem overlapping_subscriptions_not_advertised_witness:
  "control_handle 5 (CE_LocalTopicAdsChanged (subscription_ads [TopicSelector ''news'' None, TopicSelector ''news'' (Some [])]))
    (new_unsecured_with_seq 1 0 7) = Inr ([], new_unsecured_with_seq 1 0 7)"
  by (rule overlapping_subscriptions_not_advertised [of "''news''"]) simp_all

end
