(* ===== verification/ForwardInv.thy ===== *)
theory ForwardInv
  imports Forward "HOL-Library.Multiset"
begin

text \<open>
  The invariant of the forwarder and the account of its packets and budgets. The account weighs a
  packet by its units: one (content, destination) pair for each destination it still has to reach. A
  step is balanced when every unit that came in or was held is afterwards held, handed out in an
  action, or replaced by conflation, and when it sends no more than its write permissions and credit.
\<close>

section \<open>Units of work\<close>

type_synonym tag = "node_id \<times> u64 \<times> u64 \<times> forward_flags \<times> priority \<times> bytes"
type_synonym units = "(tag \<times> node_id) multiset"

definition packet_tag :: "forward_packet \<Rightarrow> tag" where
  "packet_tag p =
    (h_source (p_header p), h_flow_id (p_header p), h_conflate_key (p_header p), h_flags (p_header p),
     h_priority (p_header p), p_payload p)"

definition tag_conflatable :: "tag \<Rightarrow> bool" where
  "tag_conflatable = (\<lambda>(_, _, _, flags, priority, _). priority = P1 \<and> flags_contains flags CONFLATABLE)"

definition units_to :: "forward_packet \<Rightarrow> node_id list \<Rightarrow> units" where
  "units_to p ds = image_mset (Pair (packet_tag p)) (mset ds)"

definition packet_units :: "forward_packet \<Rightarrow> units" where
  "packet_units p =
    units_to p (if h_packet_type (p_header p) = Multicast then p_multicast_destinations p else [h_destination (p_header p)])"

fun action_units :: "forward_action \<Rightarrow> units" where
  "action_units (FA_Send _ p) = packet_units p"
| "action_units (FA_DeliverLocal p) = units_to p [h_destination (p_header p)]"
| "action_units (FA_Drop _ p) = packet_units p"
| "action_units (FA_Backpressure _ p) = packet_units p"
| "action_units (FA_SetTimer _ _) = {#}"

definition actions_units :: "forward_action list \<Rightarrow> units" where
  "actions_units as = sum_list (map action_units as)"

definition queue_units :: "queued_packet list \<Rightarrow> units" where
  "queue_units q = sum_list (map (\<lambda>x. packet_units (qp_packet x)) q)"

definition link_units :: "link_queues \<Rightarrow> units" where
  "link_units st = queue_units (lq_queues st 0) + queue_units (lq_queues st 1) +
    queue_units (lq_queues st 2) + queue_units (lq_queues st 3)"

definition bt_sum :: "('v \<Rightarrow> 'a::comm_monoid_add) \<Rightarrow> ('k::linorder, 'v) btree \<Rightarrow> 'a" where
  "bt_sum g m = sum_list (map (\<lambda>(_, v). g v) (bt_entries m))"

definition batch_units :: "pending_p0_batch \<Rightarrow> units" where
  "batch_units b = queue_units (pb_packets b)"

definition held :: "forwarder \<Rightarrow> units" where
  "held f = bt_sum link_units (fw_links f) + bt_sum batch_units (fw_pending_p0 f)"

section \<open>Budgets\<close>

fun sent_bytes :: "link_id \<Rightarrow> forward_action list \<Rightarrow> nat" where
  "sent_bytes l [] = 0"
| "sent_bytes l (FA_Send l' p # as) = (if l' = l then encoded_len p else 0) + sent_bytes l as"
| "sent_bytes l (_ # as) = sent_bytes l as"

fun sends :: "link_id \<Rightarrow> forward_action list \<Rightarrow> nat" where
  "sends l [] = 0"
| "sends l (FA_Send l' p # as) = (if l' = l then 1 else 0) + sends l as"
| "sends l (_ # as) = sends l as"

definition credit :: "link_id \<Rightarrow> forwarder \<Rightarrow> nat" where
  "credit l f = lq_available_credit_bytes (link_or_default l f)"

definition permits :: "link_id \<Rightarrow> forwarder \<Rightarrow> nat" where
  "permits l f = of_bool (lq_writable (link_or_default l f))"

text \<open>The account of a step from \<open>f\<close> to \<open>f'\<close> that took \<open>m\<close> in, did \<open>as\<close> and handed \<open>m'\<close> back.\<close>

definition balanced :: "forwarder \<Rightarrow> units \<Rightarrow> forward_action list \<Rightarrow> units \<Rightarrow> forwarder \<Rightarrow> bool" where
  "balanced f m as m' f' \<longleftrightarrow>
    (\<exists>replaced. (\<forall>u \<in># replaced. tag_conflatable (fst u)) \<and>
       held f + m = held f' + m' + actions_units as + replaced) \<and>
    (\<forall>l. permits l f' + sends l as \<le> permits l f) \<and>
    (\<forall>l. credit l f' + sent_bytes l as \<le> credit l f)"

section \<open>The invariant\<close>

definition packet_ok :: "node_id \<Rightarrow> forward_packet \<Rightarrow> bool" where
  "packet_ok me p \<longleftrightarrow>
    (if h_packet_type (p_header p) = Multicast
     then multicast_valid (p_multicast_destinations p) (p_payload p) \<and> me \<notin> set (p_multicast_destinations p)
     else h_packet_type (p_header p) = Unicast \<and> h_destination (p_header p) \<noteq> me \<and>
       length (p_payload p) \<le> MAX_FORWARD_PAYLOAD_LEN)"

definition queued_ok :: "node_id \<Rightarrow> link_id \<Rightarrow> nat \<Rightarrow> queued_packet \<Rightarrow> bool" where
  "queued_ok me link i x \<longleftrightarrow>
    packet_ok me (qp_packet x) \<and> priority_index (h_priority (p_header (qp_packet x))) = i \<and> qp_incoming x \<noteq> Some link"

definition queue_bytes :: "queued_packet list \<Rightarrow> nat" where
  "queue_bytes q = sum_list (map (\<lambda>x. encoded_len (qp_packet x)) q)"

definition conflation_keys :: "queued_packet list \<Rightarrow> conflation_key list" where
  "conflation_keys q = List.map_filter (\<lambda>x. conflation_key_of (qp_packet x)) q"

definition queue_inv :: "node_id \<Rightarrow> link_id \<Rightarrow> nat \<Rightarrow> queued_packet list \<Rightarrow> bool" where
  "queue_inv me link i q \<longleftrightarrow>
    list_all (queued_ok me link i) q \<and> length q \<le> QUEUE_LIMIT_PACKETS i \<and> distinct (conflation_keys q)"

definition link_inv :: "node_id \<Rightarrow> link_id \<Rightarrow> link_queues \<Rightarrow> bool" where
  "link_inv me link st \<longleftrightarrow>
    lq_next_drr st < 3 \<and>
    (\<forall>i < 4. queue_inv me link i (lq_queues st i) \<and> lq_queued_bytes st i = queue_bytes (lq_queues st i)) \<and>
    (\<forall>i < 3. lq_queues st (i + 1) = [] \<longrightarrow> lq_deficit_bytes st i = 0)"

definition batch_inv :: "node_id \<Rightarrow> pending_p0_batch \<Rightarrow> bool" where
  "batch_inv me b \<longleftrightarrow> pb_packets b \<noteq> [] \<and>
    list_all (\<lambda>x. packet_ok me (qp_packet x) \<and> h_priority (p_header (qp_packet x)) = P0) (pb_packets b)"

definition forward_inv :: "forwarder \<Rightarrow> bool" where
  "forward_inv f \<longleftrightarrow>
    (\<forall>l st. bt_get (fw_links f) l = Some st \<longrightarrow> link_inv (fw_me f) l st \<and> \<not> bt_contains (fw_down_links f) l) \<and>
    (\<forall>g b. bt_get (fw_pending_p0 f) g = Some b \<longrightarrow> batch_inv (fw_me f) b)"

text \<open>What the runtime guarantees of an event: a payload that a decoded or encodable packet can have,
  and fewer batches waiting than there are generations.\<close>

fun forward_admissible :: "forwarder \<Rightarrow> forward_event \<Rightarrow> bool" where
  "forward_admissible f (FE_Outbound p) \<longleftrightarrow> length (p_payload p) \<le> MAX_FORWARD_PAYLOAD_LEN"
| "forward_admissible f (FE_Inbound _ p) \<longleftrightarrow> length (p_payload p) \<le> MAX_FORWARD_PAYLOAD_LEN"
| "forward_admissible f (FE_LinkDown _) \<longleftrightarrow> bt_len (fw_pending_p0 f) < 2 ^ 64"
| "forward_admissible f _ \<longleftrightarrow> True"

section \<open>Accounts compose\<close>

lemma bt_sum_set: "bt_sum g m = (\<Sum>k \<in> {k. bt_get m k \<noteq> None}. g (the (bt_get m k)))"
proof -
  have "bt_sum g m = sum_list (map (\<lambda>k. g (the (bt_get m k))) (bt_keys m))"
    unfolding bt_sum_def bt_keys_def map_map
    by (rule arg_cong [where f = sum_list]) (auto simp: bt_entries_iff)
  also have "\<dots> = (\<Sum>k \<in> set (bt_keys m). g (the (bt_get m k)))"
    by (simp add: sum_list_distinct_conv_sum_set)
  also have "set (bt_keys m) = {k. bt_get m k \<noteq> None}" by (auto simp: bt_keys_iff)
  finally show ?thesis .
qed

lemma bt_sum_empty [simp]: "bt_sum g bt_empty = 0"
  by (simp add: bt_sum_def)

lemma bt_finite: "finite {k. bt_get m k \<noteq> None}"
  by (rule bt.finite_keys)

lemma bt_sum_remove:
  "bt_get m k = Some v \<Longrightarrow> bt_sum g m = bt_sum g (bt_remove k m) + g v"
proof -
  assume k: "bt_get m k = Some v"
  have "{j. bt_get (bt_remove k m) j \<noteq> None} = {j. bt_get m j \<noteq> None} - {k}" by auto
  then have "bt_sum g (bt_remove k m) = (\<Sum>j \<in> {j. bt_get m j \<noteq> None} - {k}. g (the (bt_get m j)))"
    unfolding bt_sum_set by (auto intro!: sum.cong)
  then show ?thesis
    using sum.remove [OF bt_finite, of k m "\<lambda>j. g (the (bt_get m j))"] k by (simp add: bt_sum_set [of g m] add.commute)
qed

lemma bt_sum_insert_new:
  "bt_get m k = None \<Longrightarrow> bt_sum g (bt_insert k v m) = bt_sum g m + g v"
proof -
  assume k: "bt_get m k = None"
  have "bt_remove k (bt_insert k v m) = m" by (rule bt_eqI) (simp add: k)
  then show ?thesis using bt_sum_remove [of "bt_insert k v m" k v g] by simp
qed

lemma bt_sum_insert:
  "bt_sum g (bt_insert k v m) + (case bt_get m k of None \<Rightarrow> 0 | Some w \<Rightarrow> g w) = bt_sum g m + g v"
proof (cases "bt_get m k")
  case (Some w)
  have "bt_insert k v m = bt_insert k v (bt_remove k m)" by (rule bt_eqI) simp
  then have "bt_sum g (bt_insert k v m) = bt_sum g (bt_remove k m) + g v"
    using bt_sum_insert_new [of "bt_remove k m" k g v] by simp
  then show ?thesis using bt_sum_remove [OF Some, of g] by (simp add: Some ac_simps)
qed (simp add: bt_sum_insert_new)

lemma actions_units_simps [simp]:
  "actions_units [] = {#}" "actions_units (a # as) = action_units a + actions_units as"
  "actions_units (as @ bs) = actions_units as + actions_units bs"
  by (simp_all add: actions_units_def)

lemma queue_units_simps [simp]:
  "queue_units [] = {#}" "queue_units (x # q) = packet_units (qp_packet x) + queue_units q"
  "queue_units (q @ r) = queue_units q + queue_units r"
  by (simp_all add: queue_units_def)

lemma sends_append [simp]: "sends l (as @ bs) = sends l as + sends l bs"
  by (induction l as rule: sends.induct) auto

lemma sent_bytes_append [simp]: "sent_bytes l (as @ bs) = sent_bytes l as + sent_bytes l bs"
  by (induction l as rule: sent_bytes.induct) auto

lemma balanced_refl [simp]: "balanced f m [] m f"
  unfolding balanced_def by (auto intro!: exI [of _ "{#}"])

lemma balanced_trans:
  assumes "balanced f m as m' f'" and "balanced f' m' bs m'' f''"
  shows "balanced f m (as @ bs) m'' f''"
proof -
  obtain r where r: "\<forall>u \<in># r. tag_conflatable (fst u)" "held f + m = held f' + m' + actions_units as + r"
    using assms(1) unfolding balanced_def by blast
  obtain s where s: "\<forall>u \<in># s. tag_conflatable (fst u)" "held f' + m' = held f'' + m'' + actions_units bs + s"
    using assms(2) unfolding balanced_def by blast
  have "held f + m = held f'' + m'' + actions_units (as @ bs) + (r + s)"
    unfolding r(2) s(2) by (simp add: ac_simps)
  moreover have "\<forall>u \<in># r + s. tag_conflatable (fst u)" using r(1) s(1) by auto
  moreover have "permits l f'' + sends l (as @ bs) \<le> permits l f"
    and "credit l f'' + sent_bytes l (as @ bs) \<le> credit l f" for l
  proof -
    have "permits l f' + sends l as \<le> permits l f" "credit l f' + sent_bytes l as \<le> credit l f"
      using assms(1) unfolding balanced_def by blast+
    moreover have "permits l f'' + sends l bs \<le> permits l f'" "credit l f'' + sent_bytes l bs \<le> credit l f'"
      using assms(2) unfolding balanced_def by blast+
    ultimately show "permits l f'' + sends l (as @ bs) \<le> permits l f"
      and "credit l f'' + sent_bytes l (as @ bs) \<le> credit l f" by simp_all
  qed
  ultimately show ?thesis unfolding balanced_def by blast
qed

lemma balanced_frame:
  assumes "balanced f m as m' f'" shows "balanced f (m + x) as (m' + x) f'"
proof -
  obtain r where r: "\<forall>u \<in># r. tag_conflatable (fst u)" "held f + m = held f' + m' + actions_units as + r"
    using assms unfolding balanced_def by blast
  have "held f + (m + x) = held f' + (m' + x) + actions_units as + r"
    using arg_cong [OF r(2), of "\<lambda>z. z + x"] by (simp add: ac_simps)
  then show ?thesis using assms r(1) unfolding balanced_def by blast
qed

text \<open>Actions that neither send nor change the forwarder hand units out directly.\<close>

lemma balanced_out:
  "(\<forall>l. sends l as = 0 \<and> sent_bytes l as = 0) \<Longrightarrow> balanced f (actions_units as) as {#} f"
  unfolding balanced_def by (auto intro!: exI [of _ "{#}"])

section \<open>The scheduler\<close>

text \<open>What the DRR loop may have done to a link before it sends: deficits, position and quantum flag.\<close>

definition drr_state :: "(nat \<Rightarrow> usize) \<Rightarrow> nat \<Rightarrow> bool \<Rightarrow> link_queues \<Rightarrow> link_queues" where
  "drr_state d n b st = st\<lparr>lq_deficit_bytes := d, lq_next_drr := n, lq_drr_needs_quantum := b\<rparr>"

lemma drr_state_simps [simp]:
  "lq_queues (drr_state d n b st) = lq_queues st" "lq_queued_bytes (drr_state d n b st) = lq_queued_bytes st"
  "lq_available_credit_bytes (drr_state d n b st) = lq_available_credit_bytes st"
  "lq_writable (drr_state d n b st) = lq_writable st" "lq_deficit_bytes (drr_state d n b st) = d"
  "lq_next_drr (drr_state d n b st) = n" "head_fits_credit (drr_state d n b st) = head_fits_credit st"
  "drr_state d n b (drr_state d' n' b' st) = drr_state d n b st"
  by (simp_all add: drr_state_def fun_eq_iff)

lemma advance_drr_state: "advance_drr st = drr_state (lq_deficit_bytes st) ((lq_next_drr st + 1) mod 3) True st"
  by (simp add: advance_drr_def drr_state_def)

lemma deficit_update_state:
  "st\<lparr>lq_deficit_bytes := d\<rparr> = drr_state d (lq_next_drr st) (lq_drr_needs_quantum st) st"
  by (simp add: drr_state_def)

lemma add_quantum_state:
  "\<exists>d. add_quantum st = drr_state ((lq_deficit_bytes st)(lq_next_drr st := d)) (lq_next_drr st) False st"
proof (cases "lq_drr_needs_quantum st")
  case True
  then show ?thesis
    by (intro exI [of _ "usize_add (lq_deficit_bytes st (lq_next_drr st)) (DRR_QUANTUM_BYTES (lq_next_drr st))"])
      (simp add: add_quantum_def drr_state_def Let_def)
next
  case False
  then have "add_quantum st = st" by (simp add: add_quantum_def)
  with False show ?thesis by (intro exI [of _ "lq_deficit_bytes st (lq_next_drr st)"]) (simp add: drr_state_def)
qed

text \<open>The loop, from a legal position, sends the head of a queue whose head fits the credit whenever there
  is one, and changes nothing otherwise. Queues that are empty get no deficit on the way.\<close>

definition drr_sends :: "link_queues \<Rightarrow> forward_packet option \<times> link_queues \<Rightarrow> bool" where
  "drr_sends st r \<longleftrightarrow>
    (\<exists>d n b x rest. n < 3 \<and> lq_queues st (n + 1) = x # rest \<and>
      encoded_len (qp_packet x) \<le> lq_available_credit_bytes st \<and> encoded_len (qp_packet x) \<le> d n \<and>
      (\<forall>i < 3. lq_queues st (i + 1) = [] \<longrightarrow> lq_deficit_bytes st i = 0 \<longrightarrow> d i = 0) \<and>
      r = (Some (qp_packet x), send_drr x rest (drr_state d n b st)))"

lemma drr_sends_state:
  assumes "drr_sends (drr_state d n b st) r"
    and "\<And>i. i < 3 \<Longrightarrow> lq_queues st (i + 1) = [] \<Longrightarrow> lq_deficit_bytes st i = 0 \<Longrightarrow> d i = 0"
  shows "drr_sends st r"
proof -
  obtain d' n' b' x rest where "n' < 3" "lq_queues st (n' + 1) = x # rest"
      "encoded_len (qp_packet x) \<le> lq_available_credit_bytes st" "encoded_len (qp_packet x) \<le> d' n'"
      "\<forall>i < 3. lq_queues st (i + 1) = [] \<longrightarrow> d i = 0 \<longrightarrow> d' i = 0"
      "r = (Some (qp_packet x), send_drr x rest (drr_state d' n' b' st))"
    using assms(1) unfolding drr_sends_def drr_state_simps by blast
  then show ?thesis unfolding drr_sends_def using assms(2) by blast
qed

lemma drr_loop_idle: "\<not> list_ex (head_fits_credit st) [1, 2, 3] \<Longrightarrow> drr_loop st = Inr (None, st)"
  by (subst drr_loop.simps) simp

lemma drr_loop_sends:
  "lq_next_drr st < 3 \<Longrightarrow> list_ex (head_fits_credit st) [1, 2, 3] \<Longrightarrow> \<exists>r. drr_loop st = Inr r \<and> drr_sends st r"
proof (induction st rule: drr_loop.induct)
  case (1 st)
  let ?i = "lq_next_drr st"
  have pos: "\<not> 3 \<le> ?i" and ex: "\<not> \<not> list_ex (head_fits_credit st) [1, 2, 3]" using "1.prems" by simp_all
  show ?case
  proof (cases "lq_queues st (?i + 1)")
    case Nil
    let ?st = "advance_drr (st\<lparr>lq_deficit_bytes := (lq_deficit_bytes st)(?i := 0)\<rparr>)"
    have st: "?st = drr_state ((lq_deficit_bytes st)(?i := 0)) ((?i + 1) mod 3) True st"
      unfolding deficit_update_state advance_drr_state by simp
    have "lq_next_drr ?st < 3" "list_ex (head_fits_credit ?st) [1, 2, 3]"
      using "1.prems"(2) unfolding st drr_state_simps by simp_all
    with "1.IH"(1) [OF ex pos Nil] have "\<exists>r. drr_loop ?st = Inr r \<and> drr_sends ?st r" by blast
    then obtain r where "drr_loop ?st = Inr r" "drr_sends ?st r" by blast
    moreover have "drr_loop st = drr_loop ?st" using ex pos Nil by (subst drr_loop.simps) simp
    moreover have "drr_sends st r" by (rule drr_sends_state [OF calculation(2) [unfolded st]]) simp
    ultimately show ?thesis by simp
  next
    case (Cons x rest)
    obtain d where d: "add_quantum st = drr_state ((lq_deficit_bytes st)(?i := d)) ?i False st"
      using add_quantum_state by blast
    let ?st = "advance_drr (add_quantum st)"
    have st: "?st = drr_state ((lq_deficit_bytes st)(?i := d)) ((?i + 1) mod 3) True st"
      unfolding advance_drr_state d by simp
    show ?thesis
    proof (cases "encoded_len (qp_packet x) > lq_deficit_bytes (add_quantum st) (lq_next_drr (add_quantum st)) \<or>
        encoded_len (qp_packet x) > lq_available_credit_bytes (add_quantum st)")
      case True
      have "lq_next_drr ?st < 3" "list_ex (head_fits_credit ?st) [1, 2, 3]"
        using "1.prems"(2) unfolding st drr_state_simps by simp_all
      with "1.IH"(2) [OF ex pos Cons refl refl True] have "\<exists>r. drr_loop ?st = Inr r \<and> drr_sends ?st r" by blast
      then obtain r where "drr_loop ?st = Inr r" "drr_sends ?st r" by blast
      moreover have "drr_loop st = drr_loop ?st" using ex pos Cons True by (subst drr_loop.simps) (simp add: Let_def)
      moreover have "drr_sends st r" by (rule drr_sends_state [OF calculation(2) [unfolded st]]) (use Cons in auto)
      ultimately show ?thesis by simp
    next
      case False
      then have "drr_loop st = Inr (Some (qp_packet x), send_drr x rest (add_quantum st))"
        using ex pos Cons by (subst drr_loop.simps) (simp add: Let_def)
      moreover have "drr_sends st (Some (qp_packet x), send_drr x rest (add_quantum st))"
        unfolding drr_sends_def d using False pos Cons
        by (intro exI [of _ "(lq_deficit_bytes st)(?i := d)"] exI [of _ ?i] exI [of _ False] exI [of _ x] exI [of _ rest])
          (auto simp: d)
      ultimately show ?thesis by blast
    qed
  qed
qed

section \<open>Sending from a link\<close>

text \<open>The link after its queue \<open>i\<close> has given its head away.\<close>

definition pops :: "link_queues \<Rightarrow> nat \<Rightarrow> queued_packet \<Rightarrow> queued_packet list \<Rightarrow> link_queues \<Rightarrow> bool" where
  "pops st i x rest st' \<longleftrightarrow>
    i < 4 \<and> lq_queues st i = x # rest \<and> encoded_len (qp_packet x) \<le> lq_available_credit_bytes st \<and>
    lq_queues st' = (lq_queues st)(i := rest) \<and>
    lq_queued_bytes st' = (lq_queued_bytes st)(i := usize_sub (lq_queued_bytes st i) (encoded_len (qp_packet x))) \<and>
    lq_available_credit_bytes st' = lq_available_credit_bytes st - encoded_len (qp_packet x) \<and>
    \<not> lq_writable st' \<and> (lq_next_drr st < 3 \<longrightarrow> lq_next_drr st' < 3) \<and>
    ((\<forall>j < 3. lq_queues st (j + 1) = [] \<longrightarrow> lq_deficit_bytes st j = 0) \<longrightarrow>
     (\<forall>j < 3. lq_queues st' (j + 1) = [] \<longrightarrow> lq_deficit_bytes st' j = 0))"

lemma send_p0_pops:
  "lq_queues st 0 = x # rest \<Longrightarrow> encoded_len (qp_packet x) \<le> lq_available_credit_bytes st \<Longrightarrow>
   pops st 0 x rest (send_p0 x rest st)"
  by (simp add: pops_def send_p0_def Let_def)

lemma send_drr_pops:
  assumes "drr_sends st r"
  obtains n x rest st' where "r = (Some (qp_packet x), st')" "n < 3" "pops st (n + 1) x rest st'"
proof -
  obtain d n b x rest where *: "n < 3" "lq_queues st (n + 1) = x # rest"
      "encoded_len (qp_packet x) \<le> lq_available_credit_bytes st" "encoded_len (qp_packet x) \<le> d n"
      "\<forall>i < 3. lq_queues st (i + 1) = [] \<longrightarrow> lq_deficit_bytes st i = 0 \<longrightarrow> d i = 0"
      "r = (Some (qp_packet x), send_drr x rest (drr_state d n b st))"
    using assms unfolding drr_sends_def by blast
  have "pops st (n + 1) x rest (send_drr x rest (drr_state d n b st))"
    unfolding pops_def using *
    by (cases "rest = []") (auto simp: send_drr_def Let_def advance_drr_def)
  with that * show thesis by blast
qed

lemma priority_index_less: "priority_index p < 4"
  by (cases p) simp_all

lemma QUEUE_LIMIT_le: "i < 4 \<Longrightarrow> 0 < QUEUE_LIMIT_PACKETS i \<and> QUEUE_LIMIT_PACKETS i \<le> 4096"
  by (auto simp: QUEUE_LIMIT_PACKETS_def less_Suc_eq numeral_eq_Suc)

lemma packet_ok_len: "packet_ok me p \<Longrightarrow> encoded_len p \<le> MAX_PAYLOAD_LEN"
  by (auto simp: packet_ok_def encoded_len_def multicast_valid_def Let_def multicast_prefix_len_small
      usize_add_def USIZE_MAX_def wire_consts split: if_splits)

lemma queue_bytes_simps [simp]:
  "queue_bytes [] = 0" "queue_bytes (x # q) = encoded_len (qp_packet x) + queue_bytes q"
  "queue_bytes (q @ r) = queue_bytes q + queue_bytes r"
  by (simp_all add: queue_bytes_def)

lemma queue_bytes_le: "list_all (queued_ok me l i) q \<Longrightarrow> queue_bytes q \<le> length q * MAX_PAYLOAD_LEN"
  by (induction q) (auto simp: queued_ok_def dest: packet_ok_len)

lemma queue_bytes_max:
  assumes "list_all (queued_ok me l i) q" "length q \<le> QUEUE_LIMIT_PACKETS i" "i < 4"
  shows "queue_bytes q \<le> USIZE_MAX"
proof -
  have "length q \<le> 4096" using QUEUE_LIMIT_le [OF assms(3)] assms(2) by simp
  then have "length q * MAX_PAYLOAD_LEN \<le> 4096 * MAX_PAYLOAD_LEN" by (rule mult_le_mono1)
  then show ?thesis using queue_bytes_le [OF assms(1)] by (simp add: USIZE_MAX_def wire_consts)
qed

lemma conflation_keys_simps [simp]:
  "conflation_keys [] = []"
  "conflation_keys (q @ r) = conflation_keys q @ conflation_keys r"
  "conflation_keys (x # q) =
    (case conflation_key_of (qp_packet x) of None \<Rightarrow> conflation_keys q | Some k \<Rightarrow> k # conflation_keys q)"
  by (simp_all add: conflation_keys_def List.map_filter_def split: option.split)

lemma queue_inv_tl: "queue_inv me l i (x # q) \<Longrightarrow> queue_inv me l i q"
  by (auto simp: queue_inv_def split: option.splits)

lemma pops_inv:
  assumes "pops st i x rest st'" "link_inv me l st" shows "link_inv me l st'"
proof -
  have q: "lq_queues st i = x # rest" "i < 4" using assms(1) unfolding pops_def by blast+
  have "queue_inv me l j (lq_queues st' j) \<and> lq_queued_bytes st' j = queue_bytes (lq_queues st' j)" if "j < 4" for j
  proof -
    have j: "queue_inv me l j (lq_queues st j)" "lq_queued_bytes st j = queue_bytes (lq_queues st j)"
      using assms(2) that unfolding link_inv_def by blast+
    have s: "lq_queues st' = (lq_queues st)(i := rest)"
        "lq_queued_bytes st' = (lq_queued_bytes st)(i := usize_sub (lq_queued_bytes st i) (encoded_len (qp_packet x)))"
      using assms(1) unfolding pops_def by blast+
    show ?thesis using j q queue_inv_tl [of me l i x rest] by (cases "j = i") (simp_all add: s usize_sub_def)
  qed
  then show ?thesis using assms unfolding link_inv_def pops_def by blast
qed

lemma four_cases: "(i :: nat) < 4 \<Longrightarrow> i = 0 \<or> i = 1 \<or> i = 2 \<or> i = 3"
  by linarith

lemma link_units_update:
  "i < 4 \<Longrightarrow> lq_queues st' = (lq_queues st)(i := q) \<Longrightarrow>
   link_units st' + queue_units (lq_queues st i) = link_units st + queue_units q"
  by (drule four_cases) (auto simp: link_units_def ac_simps)

lemma pops_units:
  assumes "pops st i x rest st'"
  shows "link_units st = link_units st' + packet_units (qp_packet x)"
proof -
  have "i < 4" "lq_queues st' = (lq_queues st)(i := rest)" "lq_queues st i = x # rest"
    using assms unfolding pops_def by blast+
  from link_units_update [OF this(1,2)] this(3) show ?thesis by (simp add: add.assoc [symmetric])
qed

text \<open>Strict priority of P0, work conservation and first-in first-out order within a priority.\<close>

definition can_send :: "link_queues \<Rightarrow> bool" where
  "can_send st \<longleftrightarrow> lq_writable st \<and>
    (if lq_queues st 0 \<noteq> [] then head_fits_credit st 0 else list_ex (head_fits_credit st) [1, 2, 3])"

lemma put_link_same: "bt_get (fw_links f) l = Some st \<Longrightarrow> put_link l st f = f"
proof -
  assume "bt_get (fw_links f) l = Some st"
  then have "bt_insert l st (fw_links f) = fw_links f" by (intro bt_eqI) simp
  then show ?thesis by (simp add: put_link_def)
qed

lemma try_send_one_idle:
  assumes "\<And>st. bt_get (fw_links f) l = Some st \<Longrightarrow> \<not> can_send st"
  shows "try_send_one l f = Inr ([], f)"
proof (cases "bt_get (fw_links f) l")
  case (Some st)
  with assms have n: "\<not> can_send st" by blast
  show ?thesis
  proof (cases "lq_queues st 0")
    case Nil
    then have "lq_writable st \<Longrightarrow> drr_loop st = Inr (None, st)"
      using n drr_loop_idle unfolding can_send_def by simp
    then show ?thesis using Nil Some put_link_same [OF Some] by (simp add: try_send_one_def)
  next
    case (Cons x rest)
    then show ?thesis using n Some by (auto simp: try_send_one_def can_send_def head_fits_credit_def head_len_def)
  qed
qed (simp add: try_send_one_def)

lemma try_send_one_sends:
  assumes st: "bt_get (fw_links f) l = Some st" and inv: "lq_next_drr st < 3" and can: "can_send st"
  obtains i x rest st' where "pops st i x rest st'" "i = 0 \<or> lq_queues st 0 = []"
    "try_send_one l f = Inr ([FA_Send l (qp_packet x)], put_link l st' f)"
proof (cases "lq_queues st 0")
  case Nil
  then have "list_ex (head_fits_credit st) [1, 2, 3]" "lq_writable st" using can by (auto simp: can_send_def)
  then obtain r where r: "drr_loop st = Inr r" "drr_sends st r" using drr_loop_sends [OF inv] by blast
  from send_drr_pops [OF r(2)] obtain n x rest st' where "r = (Some (qp_packet x), st')" "pops st (n + 1) x rest st'" .
  with that [of "n + 1" x rest st'] st Nil r(1) \<open>lq_writable st\<close> show thesis by (simp add: try_send_one_def)
next
  case (Cons x rest)
  then have "encoded_len (qp_packet x) \<le> lq_available_credit_bytes st" "lq_writable st"
    using can by (simp_all add: can_send_def head_fits_credit_def head_len_def)
  with that [OF send_p0_pops [OF Cons]] st Cons show thesis by (simp add: try_send_one_def)
qed

end
