(* ===== verification/ForwardStep.thy ===== *)
theory ForwardStep
  imports ForwardInv
begin

text \<open>
  Every operation of the forwarder returns, keeps the invariant and balances its account; the
  forwarder thereby implements the contract of a component.
\<close>

section \<open>Changing one link\<close>

definition links_only :: "forwarder \<Rightarrow> forwarder \<Rightarrow> bool" where
  "links_only f f' \<longleftrightarrow> fw_me f' = fw_me f \<and> fw_routes f' = fw_routes f \<and> fw_down_links f' = fw_down_links f \<and>
    fw_pending_p0 f' = fw_pending_p0 f \<and> fw_next_pending_generation f' = fw_next_pending_generation f"

lemma links_only_refl [simp]: "links_only f f"
  by (simp add: links_only_def)

lemma links_only_trans: "links_only f g \<Longrightarrow> links_only g h \<Longrightarrow> links_only f h"
  by (simp add: links_only_def)

lemma put_link_simps [simp]:
  "fw_me (put_link l st f) = fw_me f" "fw_routes (put_link l st f) = fw_routes f"
  "fw_down_links (put_link l st f) = fw_down_links f" "fw_pending_p0 (put_link l st f) = fw_pending_p0 f"
  "fw_next_pending_generation (put_link l st f) = fw_next_pending_generation f"
  "bt_get (fw_links (put_link l st f)) k = (if k = l then Some st else bt_get (fw_links f) k)"
  "link_or_default k (put_link l st f) = (if k = l then st else link_or_default k f)"
  "put_link l st (put_link l st' f) = put_link l st f"
  by (auto simp: put_link_def link_or_default_def intro!: bt_eqI arg_cong2 [where f = fw_links_update])

lemma links_only_put [simp]: "links_only f (put_link l st f)"
  by (simp add: links_only_def)

lemma link_inv_default: "link_inv me l link_queues_default"
  by (simp add: link_inv_def link_queues_default_def queue_inv_def)

lemma link_inv_or_default: "forward_inv f \<Longrightarrow> link_inv (fw_me f) l (link_or_default l f)"
  using link_inv_default unfolding forward_inv_def link_or_default_def by (cases "bt_get (fw_links f) l") auto

lemma forward_inv_put:
  "forward_inv f \<Longrightarrow> \<not> bt_contains (fw_down_links f) l \<Longrightarrow> link_inv (fw_me f) l st \<Longrightarrow> forward_inv (put_link l st f)"
  unfolding forward_inv_def put_link_simps by (metis option.inject)

lemma held_put: "held (put_link l st f) + link_units (link_or_default l f) = held f + link_units st"
proof -
  have "link_units link_queues_default = {#}" by (simp add: link_units_def link_queues_default_def)
  then have "link_units (link_or_default l f) = (case bt_get (fw_links f) l of None \<Rightarrow> 0 | Some w \<Rightarrow> link_units w)"
    by (simp add: link_or_default_def split: option.split)
  then show ?thesis
    using bt_sum_insert [of link_units l st "fw_links f"] by (simp add: held_def put_link_def ac_simps)
qed

lemma balanced_put:
  assumes "\<forall>u \<in># replaced. tag_conflatable (fst u)"
    and "link_units (link_or_default l f) + m = link_units st + m' + actions_units as + replaced"
    and "of_bool (lq_writable st) + sends l as \<le> permits l f"
    and "lq_available_credit_bytes st + sent_bytes l as \<le> credit l f"
    and "\<And>k. k \<noteq> l \<Longrightarrow> sends k as = 0 \<and> sent_bytes k as = 0"
  shows "balanced f m as m' (put_link l st f)"
proof -
  have "held f + m + link_units (link_or_default l f) =
      held (put_link l st f) + m' + actions_units as + replaced + link_units (link_or_default l f)"
  proof -
    have "held f + m + link_units (link_or_default l f) = held f + link_units st + m' + actions_units as + replaced"
      using assms(2) by (simp add: add.assoc add.commute add.left_commute)
    then show ?thesis using held_put [of l st f] by (simp add: ac_simps)
  qed
  then have "held f + m = held (put_link l st f) + m' + actions_units as + replaced" by simp
  moreover have "permits k (put_link l st f) + sends k as \<le> permits k f"
    "credit k (put_link l st f) + sent_bytes k as \<le> credit k f" for k
    using assms(3,4,5) by (auto simp: permits_def credit_def)
  ultimately show ?thesis unfolding balanced_def using assms(1) by blast
qed

lemma link_or_default_Some [simp]: "bt_get (fw_links f) l = Some st \<Longrightarrow> link_or_default l f = st"
  by (simp add: link_or_default_def)

lemma try_send_one_step:
  assumes "forward_inv f"
  shows "\<exists>as f'. try_send_one l f = Inr (as, f') \<and> forward_inv f' \<and> links_only f f' \<and> balanced f {#} as {#} f'"
proof (cases "\<exists>st. bt_get (fw_links f) l = Some st \<and> can_send st")
  case True
  then obtain st where st: "bt_get (fw_links f) l = Some st" "can_send st" by blast
  with assms have inv: "link_inv (fw_me f) l st" "\<not> bt_contains (fw_down_links f) l" unfolding forward_inv_def by blast+
  then have "lq_next_drr st < 3" unfolding link_inv_def by blast
  from try_send_one_sends [OF st(1) this st(2)] obtain i x rest st' where
    p: "pops st i x rest st'" and e: "try_send_one l f = Inr ([FA_Send l (qp_packet x)], put_link l st' f)" .
  have "lq_writable st" using st(2) unfolding can_send_def by blast
  then have "balanced f {#} [FA_Send l (qp_packet x)] {#} (put_link l st' f)"
    using p pops_units [OF p] st(1)
    by (intro balanced_put [where replaced = "{#}"]) (auto simp: pops_def permits_def credit_def)
  then show ?thesis using e forward_inv_put [OF assms inv(2) pops_inv [OF p inv(1)]] by simp
next
  case False
  then show ?thesis using try_send_one_idle [of f l] assms by auto
qed

text \<open>A change of one link followed by an attempt to send.\<close>

lemma put_then_send:
  assumes "forward_inv f" "\<not> bt_contains (fw_down_links f) l" "link_inv (fw_me f) l st"
    and "\<forall>u \<in># replaced. tag_conflatable (fst u)"
    and "link_units (link_or_default l f) + m = link_units st + replaced"
    and "lq_writable st = lq_writable (link_or_default l f)"
    and "lq_available_credit_bytes st = lq_available_credit_bytes (link_or_default l f)"
  shows "\<exists>as f'. try_send_one l (put_link l st f) = Inr (as, f') \<and> forward_inv f' \<and> links_only f f' \<and>
    balanced f m as {#} f'"
proof -
  have "balanced f m [] {#} (put_link l st f)"
    by (rule balanced_put [OF assms(4)]) (use assms in \<open>simp_all add: permits_def credit_def\<close>)
  moreover obtain as f' where s: "try_send_one l (put_link l st f) = Inr (as, f')" "forward_inv f'"
      "links_only (put_link l st f) f'" "balanced (put_link l st f) {#} as {#} f'"
    using try_send_one_step [OF forward_inv_put [OF assms(1,2,3)]] by blast
  ultimately have "balanced f m ([] @ as) {#} f'" by (intro balanced_trans)
  then show ?thesis using s links_only_trans [OF links_only_put s(3)] by auto
qed

section \<open>Enqueueing\<close>

lemma replace_first_Some:
  "replace_first P y xs = Some (old, ys) \<Longrightarrow>
   \<exists>us vs. xs = us @ old # vs \<and> ys = us @ y # vs \<and> P old \<and> (\<forall>u \<in> set us. \<not> P u)"
proof (induction xs arbitrary: ys)
  case (Cons x xs)
  show ?case
  proof (cases "P x")
    case True
    with Cons.prems show ?thesis by (intro exI [of _ "[]"] exI [of _ xs]) simp
  next
    case False
    with Cons.prems obtain zs where zs: "replace_first P y xs = Some (old, zs)" "ys = x # zs" by auto
    from Cons.IH [OF zs(1)] obtain us vs where "xs = us @ old # vs" "zs = us @ y # vs" "P old" "\<forall>u \<in> set us. \<not> P u"
      by blast
    with False zs(2) show ?thesis by (intro exI [of _ "x # us"] exI [of _ vs]) simp
  qed
qed simp

lemma replace_first_None: "replace_first P y xs = None \<longleftrightarrow> (\<forall>x \<in> set xs. \<not> P x)"
  by (induction xs) auto

lemma conflate_Some:
  assumes "conflate y q = Some (old, q')"
  obtains us vs key where "q = us @ old # vs" "q' = us @ y # vs"
    "conflation_key_of (qp_packet old) = Some key" "conflation_key_of (qp_packet y) = Some key"
proof -
  obtain key where k: "conflation_key_of (qp_packet y) = Some key"
      "replace_first (\<lambda>other. conflation_key_of (qp_packet other) = Some key) y q = Some (old, q')"
    using assms unfolding conflate_def by (cases "conflation_key_of (qp_packet y)") simp_all
  from replace_first_Some [OF k(2)] k(1) that show thesis by blast
qed

lemma conflate_None_keys:
  "conflate y q = None \<Longrightarrow> conflation_key_of (qp_packet y) = Some key \<Longrightarrow> key \<notin> set (conflation_keys q)"
  by (auto simp: conflate_def replace_first_None conflation_keys_def map_filter_set)

lemma conflation_key_tag: "conflation_key_of p = Some key \<Longrightarrow> tag_conflatable (packet_tag p)"
  by (auto simp: conflation_key_of_def tag_conflatable_def packet_tag_def split: if_splits)

lemma packet_units_conflatable:
  "conflation_key_of p = Some key \<Longrightarrow> \<forall>u \<in># packet_units p. tag_conflatable (fst u)"
  using conflation_key_tag by (fastforce simp: packet_units_def units_to_def)

text \<open>Replacing one queue of a link by a legal one keeps the link legal.\<close>

lemma link_inv_queue:
  assumes "link_inv me l st" "i < 4" "queue_inv me l i q" "b = queue_bytes q" "q \<noteq> []"
  shows "link_inv me l (st\<lparr>lq_queues := (lq_queues st)(i := q), lq_queued_bytes := (lq_queued_bytes st)(i := b)\<rparr>)"
  using assms unfolding link_inv_def by auto

lemma queue_inv_append:
  assumes "queue_inv me l i q" "queued_ok me l i x" "length q < QUEUE_LIMIT_PACKETS i" "conflate x q = None"
  shows "queue_inv me l i (q @ [x])"
  using assms conflate_None_keys [OF assms(4)] by (auto simp: queue_inv_def split: option.split)

lemma queue_inv_replace:
  assumes "queue_inv me l i (us @ old # vs)" "queued_ok me l i x"
    "conflation_key_of (qp_packet old) = Some key" "conflation_key_of (qp_packet x) = Some key"
  shows "queue_inv me l i (us @ x # vs)"
  using assms by (simp add: queue_inv_def)

lemma enqueue_step:
  assumes inv: "forward_inv f" and ok: "packet_ok (fw_me f) p" and inc: "incoming \<noteq> Some l"
  shows "\<exists>as f'. enqueue l p incoming f = Inr (as, f') \<and> forward_inv f' \<and> links_only f f' \<and>
    balanced f (packet_units p) as {#} f'"
proof (cases "bt_contains (fw_down_links f) l")
  case True
  then show ?thesis using inv balanced_out [of "[FA_Drop DR_LinkDown p]" f] by (simp add: enqueue_def)
next
  case up: False
  define i where "i = priority_index (h_priority (p_header p))"
  define st where "st = link_or_default l f"
  define x where "x = \<lparr>qp_incoming = incoming, qp_packet = p\<rparr>"
  have i: "i < 4" unfolding i_def by (rule priority_index_less)
  have x: "queued_ok (fw_me f) l i x" using ok inc by (simp add: queued_ok_def x_def i_def)
  have li: "link_inv (fw_me f) l st" unfolding st_def by (rule link_inv_or_default [OF inv])
  then have qi: "queue_inv (fw_me f) l i (lq_queues st i)" "lq_queued_bytes st i = queue_bytes (lq_queues st i)"
    using i unfolding link_inv_def by blast+
  note e = enqueue_def [of l p incoming f, folded i_def st_def x_def, unfolded Let_def, folded i_def st_def x_def]
  show ?thesis
  proof (cases "conflate x (lq_queues st i)")
    case None
    show ?thesis
    proof (cases "length (lq_queues st i) < QUEUE_LIMIT_PACKETS i")
      case True
      let ?q = "lq_queues st i @ [x]"
      let ?st = "st\<lparr>lq_queues := (lq_queues st)(i := ?q), lq_queued_bytes := (lq_queued_bytes st)(i := queue_bytes ?q)\<rparr>"
      have q: "queue_inv (fw_me f) l i ?q" by (rule queue_inv_append [OF qi(1) x True None])
      then have b: "usize_add (lq_queued_bytes st i) (encoded_len p) = queue_bytes ?q"
        using queue_bytes_max [OF _ _ i, of "fw_me f" l ?q] qi(2)
        by (simp add: queue_inv_def usize_add_def x_def)
      have "\<exists>as f'. try_send_one l (put_link l ?st f) = Inr (as, f') \<and> forward_inv f' \<and> links_only f f' \<and>
          balanced f (packet_units p) as {#} f'"
        using link_units_update [OF i, of ?st st ?q]
        by (intro put_then_send [OF inv up link_inv_queue [OF li i q], where replaced = "{#}"])
          (simp_all add: st_def [symmetric] x_def ac_simps)
      then show ?thesis using True up None unfolding e b by simp
    next
      case False
      have "forward_inv (put_link l st f)" by (rule forward_inv_put [OF inv up li])
      moreover have "balanced f {#} [] {#} (put_link l st f)"
        by (rule balanced_put [of "{#}"]) (simp_all add: st_def permits_def credit_def)
      moreover have "balanced (put_link l st f) (packet_units p) [a] {#} (put_link l st f)"
        if "a = FA_Backpressure l p \<or> a = FA_Drop (QueueFull r) p" for a r
        using balanced_out [of "[a]"] that by auto
      ultimately show ?thesis
        using False up None balanced_trans [OF balanced_frame, of f "{#}" "[]" "{#}" "put_link l st f" "packet_units p"] unfolding e by auto
    qed
  next
    case (Some oq)
    obtain old q where oq: "oq = (old, q)" by fastforce
    from conflate_Some [OF Some [unfolded oq]] obtain us vs key where
      us: "lq_queues st i = us @ old # vs" "q = us @ x # vs" "conflation_key_of (qp_packet old) = Some key"
      "conflation_key_of (qp_packet x) = Some key" .
    let ?st = "st\<lparr>lq_queues := (lq_queues st)(i := q), lq_queued_bytes := (lq_queued_bytes st)(i := queue_bytes q)\<rparr>"
    have q: "queue_inv (fw_me f) l i q" unfolding us(2) by (rule queue_inv_replace [OF qi(1) [unfolded us(1)] x us(3,4)])
    then have "queue_bytes q \<le> USIZE_MAX" using queue_bytes_max [OF _ _ i, of "fw_me f" l q] by (simp add: queue_inv_def)
    then have b: "usize_add (usize_sub (lq_queued_bytes st i) (encoded_len (qp_packet old))) (encoded_len p) = queue_bytes q"
      by (simp add: qi(2) us(1,2) usize_add_def usize_sub_def x_def)
    have "\<exists>as f'. try_send_one l (put_link l ?st f) = Inr (as, f') \<and> forward_inv f' \<and> links_only f f' \<and>
        balanced f (packet_units p) as {#} f'"
      using link_units_update [OF i, of ?st st q] us
      by (intro put_then_send [OF inv up link_inv_queue [OF li i q] packet_units_conflatable [OF us(3)]])
        (simp_all add: st_def [symmetric] x_def ac_simps)
    then show ?thesis using up Some oq unfolding e b [symmetric] by simp
  qed
qed

section \<open>Multicast branches\<close>

text \<open>The destinations read so far are split over the branches, each of them exactly once.\<close>

definition branches_ok :: "node_id \<Rightarrow> link_id option \<Rightarrow> node_id list \<Rightarrow> branches \<Rightarrow> bool" where
  "branches_ok me incoming ds b \<longleftrightarrow>
    mset ds = mset (br_no_route b) + mset (br_looped b) + bt_sum mset (br_by_link b) +
      (if br_deliver_local b then {#me#} else {#}) \<and>
    (br_deliver_local b \<longrightarrow> me \<in> set ds) \<and> me \<notin> set (br_no_route b) \<and> me \<notin> set (br_looped b) \<and>
    (\<forall>l ns. bt_get (br_by_link b) l = Some ns \<longrightarrow> ns \<noteq> [] \<and> me \<notin> set ns \<and> incoming \<noteq> Some l)"

lemma branches_ok_empty: "branches_ok me incoming [] branches_empty"
  by (simp add: branches_ok_def branches_empty_def)

lemma bt_sum_push:
  "bt_sum mset (bt_upsert l (\<lambda>ds. ds @ [d]) [d] m) = add_mset d (bt_sum mset m)"
proof (cases "bt_get m l")
  case (Some ds)
  have "bt_sum mset (bt_insert l (ds @ [d]) m) + mset ds = add_mset d (bt_sum mset m) + mset ds"
    using bt_sum_insert [of mset l "ds @ [d]" m] Some by simp
  then show ?thesis using Some by (simp add: bt_upsert_def)
qed (simp add: bt_upsert_def bt_sum_insert_new)

lemma branches_ok_steps:
  assumes "branches_ok me incoming ds b"
  shows "me \<notin> set ds \<Longrightarrow> branches_ok me incoming (ds @ [me]) (b\<lparr>br_deliver_local := True\<rparr>)"
    and "d \<noteq> me \<Longrightarrow> branches_ok me incoming (ds @ [d]) (b\<lparr>br_no_route := br_no_route b @ [d]\<rparr>)"
    and "d \<noteq> me \<Longrightarrow> branches_ok me incoming (ds @ [d]) (b\<lparr>br_looped := br_looped b @ [d]\<rparr>)"
    and "d \<noteq> me \<Longrightarrow> incoming \<noteq> Some l \<Longrightarrow>
      branches_ok me incoming (ds @ [d]) (b\<lparr>br_by_link := bt_upsert l (\<lambda>ds. ds @ [d]) [d] (br_by_link b)\<rparr>)"
  using assms by (auto simp: branches_ok_def bt_sum_push split: option.splits)

lemma branches_ok_fold:
  assumes "\<And>ds d b. branches_ok me incoming ds b \<Longrightarrow> d \<notin> set ds \<Longrightarrow> branches_ok me incoming (ds @ [d]) (step d b)"
    and "distinct ds"
  shows "branches_ok me incoming ds (fold step ds branches_empty)"
  using assms(2) by (induction ds rule: rev_induct) (simp_all add: branches_ok_empty assms(1))

lemma classify_ok:
  "distinct ds \<Longrightarrow> branches_ok (fw_me f) incoming ds (fold (classify_destination incoming f) ds branches_empty)"
  by (rule branches_ok_fold) (auto simp: classify_destination_def branches_ok_steps split: option.split)

lemma reroute_link_Some: "reroute_link d incoming f = Some l \<Longrightarrow> incoming \<noteq> Some l \<and> \<not> bt_contains (fw_down_links f) l"
  by (auto simp: reroute_link_def split: option.splits if_splits)

lemma reclassify_ok:
  "distinct ds \<Longrightarrow> branches_ok (fw_me f) incoming ds (fold (reclassify_destination incoming f) ds branches_empty)"
  by (rule branches_ok_fold)
    (auto simp: reclassify_destination_def branches_ok_steps split: option.split dest!: reroute_link_Some)

lemma reclassify_looped: "br_looped (fold (reclassify_destination incoming f) ds b) = br_looped b"
proof -
  have "br_looped (reclassify_destination incoming f d b) = br_looped b" for d b
    by (simp add: reclassify_destination_def split: option.split)
  then show ?thesis by (induction ds arbitrary: b) simp_all
qed

text \<open>Each branch is a legal multicast of its own.\<close>

lemma multicast_valid_sub:
  assumes "multicast_valid ds body" "mset ns \<subseteq># mset ds" "ns \<noteq> []" shows "multicast_valid ns body"
proof -
  have "length ns \<le> length ds" using size_mset_mono [OF assms(2)] by simp
  moreover have "distinct ns"
  proof -
    have "count (mset ns) a \<le> 1" for a
    proof -
      have "distinct ds" using assms(1) by (simp add: multicast_valid_def)
      then have "count (mset ds) a \<le> 1" by (simp add: distinct_count_atmost_1)
      then show ?thesis using mset_subset_eq_count [OF assms(2), of a] by linarith
    qed
    then have "count (mset ns) a = (if a \<in> set ns then 1 else 0)" for a
      by (metis count_eq_zero_iff le_antisym less_one not_less set_mset_mset)
    then show ?thesis by (simp add: distinct_count_atmost_1)
  qed
  ultimately show ?thesis using assms(1,3) unfolding multicast_valid_def by linarith
qed

definition subset_packet :: "forward_packet \<Rightarrow> node_id list \<Rightarrow> u8 \<Rightarrow> forward_packet" where
  "subset_packet p ds ttl =
    p\<lparr>p_header := (p_header p)\<lparr>h_packet_type := Multicast, h_destination := default_node, h_ttl := ttl\<rparr>,
      p_multicast_destinations := sort ds\<rparr>"

lemma multicast_subset_packet_valid:
  "multicast_valid ds (p_payload p) \<Longrightarrow> multicast_subset_packet p ds (p_payload p) ttl = Inr (subset_packet p ds ttl)"
  by (cases "multicast_payload_new ds (p_payload p)")
    (auto simp: multicast_subset_packet_def subset_packet_def multicast_payload_new_Inr_iff
      multicast_payload_new_Inr_iff [THEN iffD2])

lemma subset_packet_simps [simp]:
  "packet_units (subset_packet p ds ttl) = units_to p ds"
  "packet_ok me (subset_packet p ds ttl) \<longleftrightarrow> multicast_valid ds (p_payload p) \<and> me \<notin> set ds"
  "h_priority (p_header (subset_packet p ds ttl)) = h_priority (p_header p)"
  by (simp_all add: packet_units_def units_to_def subset_packet_def packet_tag_def packet_ok_def multicast_valid_sort)

lemma units_to_simps [simp]:
  "units_to p [] = {#}" "units_to p (d # ds) = add_mset (packet_tag p, d) (units_to p ds)"
  "units_to p (ds @ es) = units_to p ds + units_to p es"
  by (simp_all add: units_to_def)

lemma drop_subset_step:
  assumes "ns = [] \<or> multicast_valid ns (p_payload p)"
  shows "\<exists>as. drop_subset reason p ns (p_payload p) = Inr as \<and> actions_units as = units_to p ns \<and>
    (\<forall>l. sends l as = 0 \<and> sent_bytes l as = 0)"
  using assms by (cases "ns = []") (auto simp: drop_subset_def multicast_subset_packet_valid)

lemma enqueue_branches_step:
  assumes "forward_inv f" and "list_all (\<lambda>(l, ns). multicast_valid ns (p_payload p) \<and> fw_me f \<notin> set ns \<and> incoming \<noteq> Some l) es"
  shows "\<exists>bs f'. rfold (enqueue_branch incoming p (p_payload p) ttl) es (as, f) = Inr (as @ bs, f') \<and> forward_inv f' \<and>
    links_only f f' \<and> balanced f (sum_list (map (\<lambda>(_, ns). units_to p ns) es)) bs {#} f'"
  using assms
proof (induction es arbitrary: as f)
  case Nil
  then show ?case by (intro exI [of _ "[]"] exI [of _ f]) simp
next
  case (Cons e es)
  obtain l ns where e: "e = (l, ns)" by fastforce
  with Cons.prems have ns: "multicast_valid ns (p_payload p)" "fw_me f \<notin> set ns" "incoming \<noteq> Some l" by simp_all
  then obtain bs f1 where 1: "enqueue l (subset_packet p ns ttl) incoming f = Inr (bs, f1)" "forward_inv f1"
      "links_only f f1" "balanced f (units_to p ns) bs {#} f1"
    using enqueue_step [OF Cons.prems(1), of "subset_packet p ns ttl" incoming l] by auto
  have "fw_me f1 = fw_me f" using 1(3) by (simp add: links_only_def)
  with Cons.IH [OF 1(2), of "as @ bs"] Cons.prems obtain cs f' where
    2: "rfold (enqueue_branch incoming p (p_payload p) ttl) es (as @ bs, f1) = Inr ((as @ bs) @ cs, f')"
      "forward_inv f'" "links_only f1 f'" "balanced f1 (sum_list (map (\<lambda>(_, ns). units_to p ns) es)) cs {#} f'"
    by auto
  from balanced_trans [OF balanced_frame [OF 1(4)], of "sum_list (map (\<lambda>(_, ns). units_to p ns) es)"] 2(4)
  have "balanced f (units_to p ns + sum_list (map (\<lambda>(_, ns). units_to p ns) es)) (bs @ cs) {#} f'" by simp
  moreover have "rfold (enqueue_branch incoming p (p_payload p) ttl) (e # es) (as, f) = Inr (as @ bs @ cs, f')"
    using 1(1) 2(1) ns by (simp add: e enqueue_branch_def multicast_subset_packet_valid)
  ultimately show ?case using 2(2) links_only_trans [OF 1(3) 2(3)] by (intro exI [of _ "bs @ cs"] exI [of _ f']) (simp add: e)
qed

lemma units_to_sum: "image_mset (Pair (packet_tag p)) (sum_list (map (\<lambda>(_, ns). mset ns) es)) = sum_list (map (\<lambda>(_, ns). units_to p ns) es)"
  by (induction es) (auto simp: units_to_def)

lemma branches_units:
  assumes "branches_ok me incoming ds b"
  shows "units_to p ds = units_to p (br_no_route b) + units_to p (br_looped b) +
    sum_list (map (\<lambda>(_, ns). units_to p ns) (bt_entries (br_by_link b))) +
    (if br_deliver_local b then units_to p [me] else {#})"
proof -
  have "mset ds = mset (br_no_route b) + mset (br_looped b) + bt_sum mset (br_by_link b) +
      (if br_deliver_local b then {#me#} else {#})"
    using assms unfolding branches_ok_def by blast
  from arg_cong [OF this, of "image_mset (Pair (packet_tag p))"] show ?thesis
    by (simp add: units_to_def [of p] bt_sum_def units_to_sum)
qed

lemma branches_valid:
  assumes "branches_ok me incoming ds b" "multicast_valid ds body"
  shows "br_no_route b = [] \<or> multicast_valid (br_no_route b) body"
    and "br_looped b = [] \<or> multicast_valid (br_looped b) body"
    and "list_all (\<lambda>(l, ns). multicast_valid ns body \<and> me \<notin> set ns \<and> incoming \<noteq> Some l) (bt_entries (br_by_link b))"
proof -
  have m: "mset ds = mset (br_no_route b) + mset (br_looped b) + bt_sum mset (br_by_link b) +
      (if br_deliver_local b then {#me#} else {#})"
    using assms(1) unfolding branches_ok_def by blast
  show "br_no_route b = [] \<or> multicast_valid (br_no_route b) body"
    using multicast_valid_sub [OF assms(2), of "br_no_route b"] by (auto simp: m add.assoc)
  show "br_looped b = [] \<or> multicast_valid (br_looped b) body"
    using multicast_valid_sub [OF assms(2), of "br_looped b"]
    by (auto simp: m add.assoc add.left_commute [of _ "mset (br_looped b)"])
  have "multicast_valid ns body \<and> me \<notin> set ns \<and> incoming \<noteq> Some l" if e: "bt_get (br_by_link b) l = Some ns" for l ns
  proof -
    have ns: "ns \<noteq> [] \<and> me \<notin> set ns \<and> incoming \<noteq> Some l" using assms(1) e unfolding branches_ok_def by blast
    have "mset ns \<subseteq># bt_sum mset (br_by_link b)" unfolding bt_sum_remove [OF e, of mset] by simp
    then have "mset ns \<subseteq># mset ds" unfolding m by (simp add: subset_mset.add_increasing subset_mset.add_increasing2)
    with multicast_valid_sub [OF assms(2)] ns show ?thesis by blast
  qed
  then show "list_all (\<lambda>(l, ns). multicast_valid ns body \<and> me \<notin> set ns \<and> incoming \<noteq> Some l) (bt_entries (br_by_link b))"
    unfolding list_all_iff by (intro ballI) (simp only: split_paired_all prod.case bt_entries_iff simp_thms)
qed

lemma local_copy_units [simp]: "action_units (FA_DeliverLocal (local_copy p (p_payload p) f)) = units_to p [fw_me f]"
  by (simp add: units_to_def local_copy_def packet_tag_def)

lemma balanced_actions:
  assumes "actions_units as = m" "\<forall>l. sends l as = 0 \<and> sent_bytes l as = 0" "balanced f m' bs m'' f'"
  shows "balanced f (m + m') (as @ bs) m'' f'"
proof -
  have "balanced f (m + m') as ({#} + m') f" using balanced_frame [OF balanced_out [OF assms(2), of f]] assms(1) by blast
  with assms(3) show ?thesis by (auto intro: balanced_trans)
qed

lemma multicast_units: "h_packet_type (p_header p) = Multicast \<Longrightarrow> packet_units p = units_to p (p_multicast_destinations p)"
  by (simp add: packet_units_def)

lemma units_to_sort [simp]: "units_to p (sort ds) = units_to p ds"
  by (simp add: units_to_def)

lemma forward_multicast_step:
  assumes inv: "forward_inv f" and ty: "h_packet_type (p_header p) = Multicast" and ttl: "h_ttl (p_header p) \<noteq> 0"
  shows "\<exists>as f'. forward_multicast incoming p f = Inr (as, f') \<and> forward_inv f' \<and> links_only f f' \<and>
    balanced f (packet_units p) as {#} f'"
proof (cases "multicast_payload_new (p_multicast_destinations p) (p_payload p)")
  case (Inl e)
  then show ?thesis using inv balanced_out [of "[FA_Drop (InvalidMulticast e) p]" f] by (simp add: forward_multicast_def)
next
  case (Inr mp)
  let ?ds = "sort (p_multicast_destinations p)"
  define b where "b = fold (classify_destination incoming f) ?ds branches_empty"
  define loc where "loc = (if br_deliver_local b then [FA_DeliverLocal (local_copy p (p_payload p) f)] else [])"
  have mp: "mp = \<lparr>mp_destinations = ?ds, mp_body = p_payload p\<rparr>" and v: "multicast_valid ?ds (p_payload p)"
    using Inr by (simp_all add: multicast_payload_new_Inr_iff multicast_valid_sort)
  then have ok: "branches_ok (fw_me f) incoming ?ds b"
    unfolding b_def by (intro classify_ok) (simp add: multicast_valid_def)
  note bv = branches_valid [OF ok v]
  obtain nr where nr: "drop_subset NoRoute p (br_no_route b) (p_payload p) = Inr nr"
      "actions_units nr = units_to p (br_no_route b)" "\<forall>l. sends l nr = 0 \<and> sent_bytes l nr = 0"
    using drop_subset_step [OF bv(1)] by blast
  obtain lo where lo: "drop_subset LoopDetected p (br_looped b) (p_payload p) = Inr lo"
      "actions_units lo = units_to p (br_looped b)" "\<forall>l. sends l lo = 0 \<and> sent_bytes l lo = 0"
    using drop_subset_step [OF bv(2)] by blast
  obtain bs f' where br: "rfold (enqueue_branch incoming p (p_payload p) (h_ttl (p_header p) - 1)) (bt_entries (br_by_link b))
      (loc @ nr @ lo, f) = Inr ((loc @ nr @ lo) @ bs, f')" "forward_inv f'" "links_only f f'"
      "balanced f (sum_list (map (\<lambda>(_, ns). units_to p ns) (bt_entries (br_by_link b)))) bs {#} f'"
    using enqueue_branches_step [OF inv bv(3)] by blast
  have "forward_multicast incoming p f = Inr ((loc @ nr @ lo) @ bs, f')"
    using Inr nr(1) lo(1) br(1) ttl by (simp add: forward_multicast_def mp Let_def b_def [symmetric] loc_def [symmetric])
  moreover have "balanced f (packet_units p) ((loc @ nr @ lo) @ bs) {#} f'"
  proof -
    have "\<forall>l. sends l (loc @ nr @ lo) = 0 \<and> sent_bytes l (loc @ nr @ lo) = 0" using nr(3) lo(3) by (simp add: loc_def)
    moreover have "actions_units (loc @ nr @ lo) + sum_list (map (\<lambda>(_, ns). units_to p ns) (bt_entries (br_by_link b))) = packet_units p"
      unfolding multicast_units [OF ty] units_to_sort [of p "p_multicast_destinations p", symmetric] branches_units [OF ok, of p]
      using nr(2) lo(2) local_copy_units by (simp add: loc_def ac_simps)
    ultimately show ?thesis using balanced_actions [OF refl _ br(4)] by metis
  qed
  ultimately show ?thesis using br(2,3) by blast
qed

section \<open>Packets and rerouting\<close>

lemma process_packet_step:
  assumes inv: "forward_inv f" and len: "length (p_payload p) \<le> MAX_FORWARD_PAYLOAD_LEN"
  shows "\<exists>as f'. process_packet incoming p f = Inr (as, f') \<and> forward_inv f' \<and> links_only f f' \<and>
    balanced f (packet_units p) as {#} f'"
proof (cases "h_ttl (p_header p) = 0")
  case True
  then show ?thesis using inv balanced_out [of "[FA_Drop TtlExceeded p]" f] by (simp add: process_packet_def)
next
  case ttl: False
  show ?thesis
  proof (cases "h_packet_type (p_header p)")
    case Unicast
    let ?d = "h_destination (p_header p)" and ?p = "p\<lparr>p_header := (p_header p)\<lparr>h_ttl := h_ttl (p_header p) - 1\<rparr>\<rparr>"
    have u: "units_to p [?d] = packet_units p" "packet_units ?p = packet_units p"
      using Unicast by (simp_all add: packet_units_def units_to_def packet_tag_def)
    have out: "balanced f (packet_units p) [a] {#} f" if "a = FA_DeliverLocal p \<or> a = FA_Drop r p" for a r
      using balanced_out [of "[a]" f] that u(1) by (auto simp del: units_to_simps)
    have "?d \<noteq> fw_me f \<Longrightarrow> packet_ok (fw_me f) ?p" using Unicast len by (simp add: packet_ok_def)
    then have "?d \<noteq> fw_me f \<Longrightarrow> incoming \<noteq> Some l \<Longrightarrow> \<exists>as f'. enqueue l ?p incoming f = Inr (as, f') \<and> forward_inv f' \<and>
        links_only f f' \<and> balanced f (packet_units p) as {#} f'" for l
      using enqueue_step [OF inv, of ?p incoming l] unfolding u(2) by blast
    then show ?thesis
      using Unicast ttl inv out
      by (auto simp: process_packet_def forward_unicast_def dec_ttl_def split: option.split)
  next
    case Multicast
    then show ?thesis using forward_multicast_step [OF inv Multicast ttl] ttl by (simp add: process_packet_def)
  qed (use ttl inv balanced_out [of "[FA_Drop (UnsupportedPacketType _) p]" f] in \<open>simp_all add: process_packet_def\<close>)
qed

lemma reroute_unicast_step:
  assumes inv: "forward_inv f" and ok: "packet_ok (fw_me f) (qp_packet x)" and ty: "h_packet_type (p_header (qp_packet x)) = Unicast"
  shows "\<exists>as rem f'. reroute_unicast x f = Inr (as, rem, f') \<and> forward_inv f' \<and> links_only f f' \<and>
    balanced f (packet_units (qp_packet x)) as (queue_units rem) f' \<and> set rem \<subseteq> {x}"
proof (cases "reroute_link (h_destination (p_header (qp_packet x))) (qp_incoming x) f")
  case None
  then show ?thesis using inv ok ty by (simp add: reroute_unicast_def packet_ok_def)
next
  case (Some l)
  then show ?thesis
    using enqueue_step [OF inv ok conjunct1 [OF reroute_link_Some [OF Some]]] ok ty
    by (auto simp: reroute_unicast_def packet_ok_def)
qed

definition waiting_ok :: "node_id \<Rightarrow> priority \<Rightarrow> queued_packet \<Rightarrow> bool" where
  "waiting_ok me priority x \<longleftrightarrow> packet_ok me (qp_packet x) \<and> h_priority (p_header (qp_packet x)) = priority"

lemma reroute_multicast_step:
  assumes inv: "forward_inv f" and ok: "packet_ok (fw_me f) (qp_packet x)" and ty: "h_packet_type (p_header (qp_packet x)) = Multicast"
  shows "\<exists>as rem f'. reroute_multicast x f = Inr (as, rem, f') \<and> forward_inv f' \<and> links_only f f' \<and>
    balanced f (packet_units (qp_packet x)) as (queue_units rem) f' \<and>
    list_all (waiting_ok (fw_me f) (h_priority (p_header (qp_packet x)))) rem"
proof -
  define p where "p = qp_packet x"
  let ?ds = "sort (p_multicast_destinations p)"
  define b where "b = fold (reclassify_destination (qp_incoming x) f) ?ds branches_empty"
  have v: "multicast_valid (p_multicast_destinations p) (p_payload p)" "multicast_valid ?ds (p_payload p)"
    and me: "fw_me f \<notin> set ?ds"
    using ok ty by (simp_all add: packet_ok_def p_def [symmetric] multicast_valid_sort)
  then have new: "multicast_payload_new (p_multicast_destinations p) (p_payload p) = Inr \<lparr>mp_destinations = ?ds, mp_body = p_payload p\<rparr>"
    by (simp add: multicast_payload_new_Inr_iff)
  have bok: "branches_ok (fw_me f) (qp_incoming x) ?ds b"
    unfolding b_def using v by (intro reclassify_ok) (simp add: multicast_valid_def)
  note bv = branches_valid [OF bok v(2)]
  have nl: "\<not> br_deliver_local b" and nr: "fw_me f \<notin> set (br_no_route b)" using bok me unfolding branches_ok_def by blast+
  have lo: "br_looped b = []" unfolding b_def reclassify_looped by (simp add: branches_empty_def)
  obtain bs f' where br: "rfold (enqueue_branch (qp_incoming x) p (p_payload p) (h_ttl (p_header p))) (bt_entries (br_by_link b))
      ([], f) = Inr ([] @ bs, f')" "forward_inv f'" "links_only f f'"
      "balanced f (sum_list (map (\<lambda>(_, ns). units_to p ns) (bt_entries (br_by_link b)))) bs {#} f'"
    using enqueue_branches_step [OF inv bv(3)] by blast
  define rem where "rem = (if br_no_route b = [] then []
    else [\<lparr>qp_incoming = qp_incoming x, qp_packet = subset_packet p (br_no_route b) (h_ttl (p_header p))\<rparr>])"
  have "reroute_multicast x f = Inr (bs, rem, f')"
    using br(1) nl bv(1)
    by (auto simp: reroute_multicast_def Let_def p_def [symmetric] new b_def [symmetric] rem_def multicast_subset_packet_valid)
  moreover have "balanced f (packet_units p) bs (queue_units rem) f'"
  proof -
    have "queue_units rem = units_to p (br_no_route b)" by (simp add: rem_def)
    moreover have "packet_units p = sum_list (map (\<lambda>(_, ns). units_to p ns) (bt_entries (br_by_link b))) + units_to p (br_no_route b)"
      unfolding multicast_units [OF ty [folded p_def]] units_to_sort [of p "p_multicast_destinations p", symmetric] branches_units [OF bok, of p]
      using nl lo by (simp add: ac_simps)
    ultimately show ?thesis using balanced_frame [OF br(4), of "units_to p (br_no_route b)"] by simp
  qed
  moreover have "list_all (waiting_ok (fw_me f) (h_priority (p_header p))) rem"
    using bv(1) nr by (auto simp: rem_def waiting_ok_def)
  ultimately show ?thesis using br(2,3) unfolding p_def by blast
qed

lemma reroute_queued_step:
  assumes inv: "forward_inv f" and ok: "packet_ok (fw_me f) (qp_packet x)"
  shows "\<exists>as rem f'. reroute_queued x f = Inr (as, rem, f') \<and> forward_inv f' \<and> links_only f f' \<and>
    balanced f (packet_units (qp_packet x)) as (queue_units rem) f' \<and>
    list_all (waiting_ok (fw_me f) (h_priority (p_header (qp_packet x)))) rem"
proof (cases "h_packet_type (p_header (qp_packet x)) = Multicast")
  case True
  then show ?thesis using reroute_multicast_step [OF inv ok True] by (simp add: reroute_queued_def)
next
  case False
  then have ty: "h_packet_type (p_header (qp_packet x)) = Unicast" using ok by (simp add: packet_ok_def)
  then have e: "reroute_queued x f = reroute_unicast x f" by (simp add: reroute_queued_def)
  obtain as rem f' where r: "reroute_unicast x f = Inr (as, rem, f')" "forward_inv f'" "links_only f f'"
      "balanced f (packet_units (qp_packet x)) as (queue_units rem) f'" "set rem \<subseteq> {x}"
    using reroute_unicast_step [OF inv ok ty] by blast
  have "list_all (waiting_ok (fw_me f) (h_priority (p_header (qp_packet x)))) rem"
    unfolding list_all_iff waiting_ok_def using r(5) ok by blast
  with r e show ?thesis by simp
qed

lemma drop_queued_units [simp]:
  "actions_units (drop_queued_packets q r) = queue_units q"
  "sends l (drop_queued_packets q r) = 0" "sent_bytes l (drop_queued_packets q r) = 0"
  by (induction q) (simp_all add: drop_queued_packets_def)

lemma drop_queued_step: "balanced f (queue_units q) (drop_queued_packets q r) {#} f"
  using balanced_out [of "drop_queued_packets q r" f] by simp

lemma retry_packets_step:
  assumes "forward_inv f" "list_all (waiting_ok (fw_me f) priority) q"
  shows "\<exists>bs rs f'. rfold retry_packet q (as, rem, f) = Inr (as @ bs, rem @ rs, f') \<and> forward_inv f' \<and> links_only f f' \<and>
    balanced f (queue_units q) bs (queue_units rs) f' \<and> list_all (waiting_ok (fw_me f) priority) rs"
  using assms
proof (induction q arbitrary: as rem f)
  case Nil
  then show ?case by (intro exI [of _ "[]"] exI [of _ f]) simp
next
  case (Cons x q)
  have "packet_ok (fw_me f) (qp_packet x)" and x: "h_priority (p_header (qp_packet x)) = priority"
    using Cons.prems(2) by (simp_all add: waiting_ok_def)
  from reroute_queued_step [OF Cons.prems(1) this(1)] obtain bs rs f1 where
    1: "reroute_queued x f = Inr (bs, rs, f1)" "forward_inv f1" "links_only f f1"
      "balanced f (packet_units (qp_packet x)) bs (queue_units rs) f1" "list_all (waiting_ok (fw_me f) priority) rs"
    unfolding x by blast
  have me: "fw_me f1 = fw_me f" using 1(3) by (simp add: links_only_def)
  with Cons.IH [OF 1(2), of "as @ bs" "rem @ rs"] Cons.prems(2) obtain cs ts f' where
    2: "rfold retry_packet q (as @ bs, rem @ rs, f1) = Inr ((as @ bs) @ cs, (rem @ rs) @ ts, f')" "forward_inv f'"
      "links_only f1 f'" "balanced f1 (queue_units q) cs (queue_units ts) f'" "list_all (waiting_ok (fw_me f) priority) ts"
    by auto
  have "balanced f (queue_units (x # q)) (bs @ cs) (queue_units (rs @ ts)) f'"
  proof (rule balanced_trans)
    show "balanced f (queue_units (x # q)) bs (queue_units rs + queue_units q) f1"
      using balanced_frame [OF 1(4), of "queue_units q"] by simp
    show "balanced f1 (queue_units rs + queue_units q) cs (queue_units (rs @ ts)) f'"
      using balanced_frame [OF 2(4), of "queue_units rs"] by (simp add: add.commute)
  qed
  moreover have "rfold retry_packet (x # q) (as, rem, f) = Inr (as @ bs @ cs, rem @ rs @ ts, f')"
    using 1(1) 2(1) by (simp add: retry_packet_def)
  ultimately show ?case using 2(2,5) 1(5) links_only_trans [OF 1(3) 2(3)]
    by (intro exI [of _ "bs @ cs"] exI [of _ "rs @ ts"] exI [of _ f']) (simp add: list_all_append)
qed

text \<open>Rerouting for a failed link is a retry whose remainder is dropped.\<close>

lemma reroute_p2_step:
  assumes "forward_inv f" "list_all (waiting_ok (fw_me f) priority) q"
  shows "\<exists>bs f'. rfold reroute_p2 q (as, f) = Inr (as @ bs, f') \<and> forward_inv f' \<and> links_only f f' \<and>
    balanced f (queue_units q) bs {#} f'"
  using assms
proof (induction q arbitrary: as f)
  case Nil
  then show ?case by (intro exI [of _ "[]"] exI [of _ f]) simp
next
  case (Cons x q)
  have "packet_ok (fw_me f) (qp_packet x)" using Cons.prems(2) by (simp add: waiting_ok_def)
  from reroute_queued_step [OF Cons.prems(1) this] obtain bs rs f1 where
    1: "reroute_queued x f = Inr (bs, rs, f1)" "forward_inv f1" "links_only f f1"
      "balanced f (packet_units (qp_packet x)) bs (queue_units rs) f1" by blast
  have me: "fw_me f1 = fw_me f" using 1(3) by (simp add: links_only_def)
  let ?bs = "bs @ drop_queued_packets rs DR_LinkDown"
  have b1: "balanced f (packet_units (qp_packet x)) ?bs {#} f1" by (rule balanced_trans [OF 1(4) drop_queued_step])
  from Cons.IH [OF 1(2), of "as @ ?bs"] Cons.prems(2) me obtain cs f' where
    2: "rfold reroute_p2 q (as @ ?bs, f1) = Inr ((as @ ?bs) @ cs, f')" "forward_inv f'" "links_only f1 f'"
      "balanced f1 (queue_units q) cs {#} f'" by auto
  have "balanced f (queue_units (x # q)) (?bs @ cs) {#} f'"
    using balanced_trans [OF balanced_frame [OF b1, of "queue_units q"]] 2(4) by simp
  moreover have "rfold reroute_p2 (x # q) (as, f) = Inr (as @ ?bs @ cs, f')" using 1(1) 2(1) by (simp add: reroute_p2_def)
  ultimately show ?case using 2(2) links_only_trans [OF 1(3) 2(3)] by blast
qed

end
