(* ===== verification/ForwardProps.thy ===== *)
theory ForwardProps
  imports ForwardStep
begin

text \<open>
  Link failure, the waiting room of P0 packets and the event handler of the forwarder: every event
  returns, keeps the invariant and balances its account. The properties of \<open>mb-forward\<close> follow.
\<close>

section \<open>Generations\<close>

lemma pending_generation_loop_Inr:
  "pending_generation_loop n f = Inr (g, f') \<Longrightarrow>
   \<not> bt_contains (fw_pending_p0 f) g \<and> f' = f\<lparr>fw_next_pending_generation := g + 1\<rparr>"
  by (induction n f rule: pending_generation_loop.induct) (auto simp: Let_def split: if_splits)

lemma pending_generation_loop_Inl:
  "pending_generation_loop n f = Inl e \<Longrightarrow> k < n \<Longrightarrow> bt_contains (fw_pending_p0 f) (fw_next_pending_generation f + of_nat k)"
proof (induction n f arbitrary: k rule: pending_generation_loop.induct)
  case (2 n f)
  let ?f = "f\<lparr>fw_next_pending_generation := fw_next_pending_generation f + 1\<rparr>"
  have c: "bt_contains (fw_pending_p0 f) (fw_next_pending_generation f)" and l: "pending_generation_loop n ?f = Inl e"
    using "2.prems"(1) by (auto simp: Let_def split: if_splits)
  show ?case
  proof (cases k)
    case (Suc j)
    then show ?thesis using "2.IH" [of _ ?f j] c l "2.prems"(2) by (simp add: add.assoc add.left_commute)
  qed (use c in simp)
qed simp

lemma next_pending_generation_fresh:
  assumes "bt_len (fw_pending_p0 f) < 2 ^ 64"
  obtains g where "next_pending_generation f = Inr (g, f\<lparr>fw_next_pending_generation := g + 1\<rparr>)"
    "bt_get (fw_pending_p0 f) g = None"
proof (cases "next_pending_generation f")
  case (Inl e)
  let ?n = "Suc (bt_len (fw_pending_p0 f))" and ?K = "{k. bt_get (fw_pending_p0 f) k \<noteq> None}"
  let ?g = "\<lambda>k. fw_next_pending_generation f + of_nat k :: u64"
  have sub: "?g ` {..< ?n} \<subseteq> ?K"
    using pending_generation_loop_Inl [OF Inl [unfolded next_pending_generation_def]] by (auto simp: bt_contains_def)
  have inj: "inj_on ?g {..< ?n}"
  proof (rule inj_onI)
    fix i j assume *: "i \<in> {..< ?n}" "j \<in> {..< ?n}" "?g i = ?g j"
    then have "(of_nat i :: u64) = of_nat j" by simp
    moreover have "i < 2 ^ 64" "j < 2 ^ 64" using * assms by auto
    ultimately show "i = j" by (simp add: word_of_nat_eq_iff take_bit_nat_eq_self)
  qed
  have "?n \<le> card ?K" using card_mono [OF bt_finite sub] card_image [OF inj] by simp
  moreover have "bt_len (fw_pending_p0 f) = card ?K" unfolding bt_len_def by (rule bt.length_entries)
  ultimately show thesis by simp
next
  case (Inr r)
  obtain g f' where r: "r = (g, f')" by fastforce
  from pending_generation_loop_Inr [OF Inr [unfolded next_pending_generation_def r]] Inr r that
  show thesis by (simp add: bt_contains_def)
qed

section \<open>The waiting room\<close>

definition but_pending :: "forwarder \<Rightarrow> forwarder \<Rightarrow> bool" where
  "but_pending f f' \<longleftrightarrow> fw_me f' = fw_me f \<and> fw_routes f' = fw_routes f \<and> fw_down_links f' = fw_down_links f"

lemma links_only_but_pending: "links_only f f' \<Longrightarrow> but_pending f f'"
  by (simp add: links_only_def but_pending_def)

definition put_batch :: "u64 \<Rightarrow> pending_p0_batch \<Rightarrow> forwarder \<Rightarrow> forwarder" where
  "put_batch g b f = f\<lparr>fw_pending_p0 := bt_insert g b (fw_pending_p0 f)\<rparr>"

lemma put_batch_step:
  assumes "forward_inv f" "batch_inv (fw_me f) b" "bt_get (fw_pending_p0 f) g = None"
  shows "forward_inv (put_batch g b f)" "balanced f (batch_units b) [] {#} (put_batch g b f)" "but_pending f (put_batch g b f)"
proof -
  show "forward_inv (put_batch g b f)" using assms unfolding forward_inv_def put_batch_def by (auto split: if_splits)
  have "held (put_batch g b f) = held f + batch_units b"
    using bt_sum_insert_new [OF assms(3), of batch_units b] by (simp add: held_def put_batch_def ac_simps)
  moreover have "link_or_default l (put_batch g b f) = link_or_default l f" for l
    by (simp add: link_or_default_def put_batch_def)
  ultimately show "balanced f (batch_units b) [] {#} (put_batch g b f)"
    unfolding balanced_def permits_def credit_def by (auto intro!: exI [of _ "{#}"])
  show "but_pending f (put_batch g b f)" by (simp add: but_pending_def put_batch_def)
qed

lemma batch_inv_waiting:
  "batch_inv me b \<longleftrightarrow> pb_packets b \<noteq> [] \<and> list_all (waiting_ok me P0) (pb_packets b)"
  by (simp add: batch_inv_def list_all_iff waiting_ok_def)

lemma park_p0_step:
  assumes "forward_inv f" "list_all (waiting_ok (fw_me f) P0) q" "bt_len (fw_pending_p0 f) < 2 ^ 64" "q \<noteq> []"
  obtains g f' where "bt_get (fw_pending_p0 f) g = None"
    "park_p0 now q f = Inr ([FA_SetTimer (PendingP0 g) (sat_add now P0_ROUTE_WAIT_MS)], f')"
    "fw_pending_p0 f' = bt_insert g \<lparr>pb_expires_at = sat_add now P0_ROUTE_WAIT_MS, pb_packets = q\<rparr> (fw_pending_p0 f)"
    "forward_inv f'" "but_pending f f'"
    "balanced f (queue_units q) [FA_SetTimer (PendingP0 g) (sat_add now P0_ROUTE_WAIT_MS)] {#} f'"
proof -
  from next_pending_generation_fresh [OF assms(3)] obtain g where
    g: "next_pending_generation f = Inr (g, f\<lparr>fw_next_pending_generation := g + 1\<rparr>)" "bt_get (fw_pending_p0 f) g = None" .
  let ?b = "\<lparr>pb_expires_at = sat_add now P0_ROUTE_WAIT_MS, pb_packets = q\<rparr>"
  let ?f1 = "f\<lparr>fw_next_pending_generation := g + 1\<rparr>"
  have 0: "balanced f m [] m ?f1" for m
    unfolding balanced_def by (auto simp: held_def permits_def credit_def link_or_default_def intro!: exI [of _ "{#}"])
  have b: "batch_inv (fw_me ?f1) ?b" "forward_inv ?f1" "bt_get (fw_pending_p0 ?f1) g = None"
    using assms g(2) by (simp_all add: batch_inv_waiting forward_inv_def)
  note s = put_batch_step [OF b(2,1,3)]
  have "balanced f (queue_units q) ([] @ []) {#} (put_batch g ?b ?f1)"
    using balanced_trans [OF 0 s(2)] by (simp add: batch_units_def)
  then have "balanced f (queue_units q) [FA_SetTimer (PendingP0 g) (sat_add now P0_ROUTE_WAIT_MS)] {#} (put_batch g ?b ?f1)"
    unfolding balanced_def by simp
  moreover have "but_pending f (put_batch g ?b ?f1)" using s(3) by (simp add: but_pending_def)
  ultimately show thesis
    using that [OF g(2), of "put_batch g ?b ?f1"] g assms(4) s(1) by (simp add: park_p0_def put_batch_def Let_def)
qed

lemma retry_batch_step:
  assumes inv: "forward_inv f" "batch_inv (fw_me f) b" and fresh: "bt_get (fw_pending_p0 f) g = None"
  shows "\<exists>bs f'. retry_batch now (g, b) (as, f) = Inr (as @ bs, f') \<and> forward_inv f' \<and> but_pending f f' \<and>
    balanced f (batch_units b) bs {#} f' \<and> (\<forall>h. h \<noteq> g \<longrightarrow> bt_get (fw_pending_p0 f') h = bt_get (fw_pending_p0 f) h) \<and>
    (\<forall>b'. bt_get (fw_pending_p0 f') g = Some b' \<longrightarrow> pb_expires_at b' = pb_expires_at b \<and> now < pb_expires_at b)"
proof (cases "now \<ge> pb_expires_at b")
  case True
  then show ?thesis
    using inv(1) fresh drop_queued_step [of f "pb_packets b" RouteWaitExpired]
    by (simp add: retry_batch_def batch_units_def but_pending_def)
next
  case False
  have "list_all (waiting_ok (fw_me f) P0) (pb_packets b)" using inv(2) by (simp add: batch_inv_waiting)
  from retry_packets_step [OF inv(1) this, of as "[]"] obtain bs rs f1 where
    1: "rfold retry_packet (pb_packets b) (as, [], f) = Inr (as @ bs, rs, f1)" "forward_inv f1" "links_only f f1"
      "balanced f (batch_units b) bs (queue_units rs) f1" "list_all (waiting_ok (fw_me f) P0) rs"
    unfolding batch_units_def append_Nil by blast
  have p1: "fw_pending_p0 f1 = fw_pending_p0 f" "fw_me f1 = fw_me f" using 1(3) by (simp_all add: links_only_def)
  show ?thesis
  proof (cases "rs = []")
    case True
    then have "retry_batch now (g, b) (as, f) = Inr (as @ bs, f1)" using 1(1) False by (simp add: retry_batch_def)
    then show ?thesis using 1 True links_only_but_pending [OF 1(3)] fresh p1(1) by simp
  next
    case rs: False
    let ?b = "\<lparr>pb_expires_at = pb_expires_at b, pb_packets = rs\<rparr>"
    have "batch_inv (fw_me f1) ?b" using rs 1(5) p1 by (simp add: batch_inv_waiting)
    note s = put_batch_step [OF 1(2) this, of g, unfolded p1, OF fresh]
    have "retry_batch now (g, b) (as, f) = Inr (as @ bs, put_batch g ?b f1)"
      using 1(1) False rs by (simp add: retry_batch_def put_batch_def)
    moreover have "balanced f (batch_units b) (bs @ []) {#} (put_batch g ?b f1)"
      by (rule balanced_trans [OF 1(4)]) (use s(2) in \<open>simp add: batch_units_def\<close>)
    moreover have "but_pending f (put_batch g ?b f1)"
      using s(3) links_only_but_pending [OF 1(3)] unfolding but_pending_def by simp
    moreover have "fw_pending_p0 (put_batch g ?b f1) = bt_insert g ?b (fw_pending_p0 f)" by (simp add: put_batch_def p1)
    ultimately show ?thesis using s(1) False by simp
  qed
qed

lemma retry_batches_step:
  assumes "forward_inv f" "\<forall>(g, b) \<in> set es. batch_inv (fw_me f) b \<and> bt_get (fw_pending_p0 f) g = None" "distinct (map fst es)"
  shows "\<exists>bs f'. rfold (retry_batch now) es (as, f) = Inr (as @ bs, f') \<and> forward_inv f' \<and> but_pending f f' \<and>
    balanced f (sum_list (map (\<lambda>(_, b). batch_units b) es)) bs {#} f' \<and>
    (\<forall>g b'. bt_get (fw_pending_p0 f') g = Some b' \<longrightarrow> bt_get (fw_pending_p0 f) g = Some b' \<or>
       (\<exists>b. (g, b) \<in> set es \<and> pb_expires_at b' = pb_expires_at b \<and> now < pb_expires_at b))"
  using assms
proof (induction es arbitrary: as f)
  case Nil
  then show ?case by (intro exI [of _ "[]"] exI [of _ f]) (simp add: but_pending_def)
next
  case (Cons e es)
  obtain g b where e: "e = (g, b)" by fastforce
  have gb: "batch_inv (fw_me f) b" "bt_get (fw_pending_p0 f) g = None" using Cons.prems(2) e by auto
  from retry_batch_step [OF Cons.prems(1) gb, of now as] obtain bs f1 where
    1: "retry_batch now (g, b) (as, f) = Inr (as @ bs, f1)" "forward_inv f1" "but_pending f f1"
      "balanced f (batch_units b) bs {#} f1" "\<forall>h. h \<noteq> g \<longrightarrow> bt_get (fw_pending_p0 f1) h = bt_get (fw_pending_p0 f) h"
      "\<forall>b'. bt_get (fw_pending_p0 f1) g = Some b' \<longrightarrow> pb_expires_at b' = pb_expires_at b \<and> now < pb_expires_at b"
    by blast
  have "\<forall>(h, c) \<in> set es. batch_inv (fw_me f1) c \<and> bt_get (fw_pending_p0 f1) h = None"
  proof clarify
    fix h c assume hc: "(h, c) \<in> set es"
    then have "h \<noteq> g" using Cons.prems(3) e by (auto simp: image_iff)
    then show "batch_inv (fw_me f1) c \<and> bt_get (fw_pending_p0 f1) h = None"
      using hc Cons.prems(2) 1(3,5) by (auto simp: but_pending_def)
  qed
  with Cons.IH [OF 1(2), of "as @ bs"] Cons.prems(3) obtain cs f' where
    2: "rfold (retry_batch now) es (as @ bs, f1) = Inr ((as @ bs) @ cs, f')" "forward_inv f'" "but_pending f1 f'"
      "balanced f1 (sum_list (map (\<lambda>(_, b). batch_units b) es)) cs {#} f'"
      "\<forall>g b'. bt_get (fw_pending_p0 f') g = Some b' \<longrightarrow> bt_get (fw_pending_p0 f1) g = Some b' \<or>
        (\<exists>b. (g, b) \<in> set es \<and> pb_expires_at b' = pb_expires_at b \<and> now < pb_expires_at b)"
    by auto
  have "balanced f (sum_list (map (\<lambda>(_, b). batch_units b) (e # es))) (bs @ cs) {#} f'"
    using balanced_trans [OF balanced_frame [OF 1(4)], of "sum_list (map (\<lambda>(_, b). batch_units b) es)"] 2(4) by (simp add: e)
  moreover have "rfold (retry_batch now) (e # es) (as, f) = Inr (as @ (bs @ cs), f')" using 1(1) 2(1) e by simp
  moreover have "but_pending f f'" using 1(3) 2(3) by (simp add: but_pending_def)
  moreover have "bt_get (fw_pending_p0 f) h = Some b' \<or> (\<exists>b. (h, b) \<in> set (e # es) \<and> pb_expires_at b' = pb_expires_at b \<and> now < pb_expires_at b)"
    if "bt_get (fw_pending_p0 f') h = Some b'" for h b'
  proof -
    from 2(5) that consider "bt_get (fw_pending_p0 f1) h = Some b'"
      | "\<exists>b. (h, b) \<in> set es \<and> pb_expires_at b' = pb_expires_at b \<and> now < pb_expires_at b" by blast
    then show ?thesis
    proof cases
      case 1
      then show ?thesis using \<open>\<forall>h. h \<noteq> g \<longrightarrow> bt_get (fw_pending_p0 f1) h = bt_get (fw_pending_p0 f) h\<close>
          \<open>\<forall>b'. bt_get (fw_pending_p0 f1) g = Some b' \<longrightarrow> pb_expires_at b' = pb_expires_at b \<and> now < pb_expires_at b\<close> e
        by (cases "h = g") auto
    qed auto
  qed
  ultimately show ?case using 2(2) by blast
qed

section \<open>The event handler\<close>

text \<open>What an event offers: the units of its packet, permission to write, credit. An outbound multicast
  that is not valid is dropped as the packet it came with.\<close>

fun offered :: "forward_event \<Rightarrow> units" where
  "offered (FE_Outbound p) = packet_units p"
| "offered (FE_Inbound _ p) = packet_units p"
| "offered (FE_OutboundMulticast ds p) =
    units_to p (if multicast_valid ds (p_payload p) then ds else p_multicast_destinations p)"
| "offered _ = {#}"

fun offered_permits :: "link_id \<Rightarrow> forward_event \<Rightarrow> nat" where
  "offered_permits l (FE_LinkWritable l') = of_bool (l' = l)"
| "offered_permits l _ = 0"

fun offered_credit :: "link_id \<Rightarrow> forward_event \<Rightarrow> nat" where
  "offered_credit l (FE_LinkCredit l' bytes) = (if l' = l then bytes else 0)"
| "offered_credit l _ = 0"

definition conserved :: "forwarder \<Rightarrow> units \<Rightarrow> forward_action list \<Rightarrow> forwarder \<Rightarrow> bool" where
  "conserved f m as f' \<longleftrightarrow>
    (\<exists>replaced. (\<forall>u \<in># replaced. tag_conflatable (fst u)) \<and> held f + m = held f' + actions_units as + replaced)"

definition within_budget :: "link_id \<Rightarrow> forwarder \<Rightarrow> forward_event \<Rightarrow> forward_action list \<Rightarrow> forwarder \<Rightarrow> bool" where
  "within_budget l f e as f' \<longleftrightarrow>
    permits l f' + sends l as \<le> permits l f + offered_permits l e \<and>
    credit l f' + sent_bytes l as \<le> credit l f + offered_credit l e"

definition timers_armed :: "mono_time \<Rightarrow> forwarder \<Rightarrow> forward_event \<Rightarrow> forward_action list \<Rightarrow> forwarder \<Rightarrow> bool" where
  "timers_armed now f e as f' \<longleftrightarrow>
    (\<forall>g b'. bt_get (fw_pending_p0 f') g = Some b' \<longrightarrow>
      (if \<exists>b. bt_get (fw_pending_p0 f) g = Some b \<and> pb_expires_at b = pb_expires_at b'
       then e = FE_Timer (PendingP0 g) \<longrightarrow> FA_SetTimer (PendingP0 g) (pb_expires_at b') \<in> set as
       else (\<exists>l. e = FE_LinkDown l) \<and> pb_expires_at b' = sat_add now P0_ROUTE_WAIT_MS \<and>
         FA_SetTimer (PendingP0 g) (pb_expires_at b') \<in> set as))"

definition accounted :: "mono_time \<Rightarrow> forwarder \<Rightarrow> forward_event \<Rightarrow> forward_action list \<Rightarrow> forwarder \<Rightarrow> bool" where
  "accounted now f e as f' \<longleftrightarrow>
    conserved f (offered e) as f' \<and> (\<forall>l. within_budget l f e as f') \<and> timers_armed now f e as f' \<and> fw_me f' = fw_me f"

lemma balanced_accounted:
  assumes "balanced f (offered e) as {#} f'" "timers_armed now f e as f'" "fw_me f' = fw_me f"
  shows "accounted now f e as f'"
proof -
  have "conserved f (offered e) as f'" using assms(1) unfolding balanced_def conserved_def by simp
  moreover have "within_budget l f e as f'" for l
    using assms(1) unfolding balanced_def within_budget_def by (auto intro: trans_le_add1)
  ultimately show ?thesis using assms(2,3) unfolding accounted_def by blast
qed

lemma links_only_armed: "links_only f f' \<Longrightarrow> \<forall>g. e \<noteq> FE_Timer g \<Longrightarrow> timers_armed now f e as f'"
  unfolding timers_armed_def links_only_def by auto

lemma links_only_accounted:
  assumes "links_only f f'" "balanced f (offered e) as {#} f'" "\<forall>g. e \<noteq> FE_Timer g" shows "accounted now f e as f'"
  using balanced_accounted [OF assms(2) links_only_armed [OF assms(1,3)]] assms(1) by (simp add: links_only_def)

lemma outbound_multicast_step:
  assumes inv: "forward_inv f"
  shows "\<exists>as f'. process_outbound_multicast ds p f = Inr (as, f') \<and> forward_inv f' \<and> links_only f f' \<and>
    balanced f (offered (FE_OutboundMulticast ds p)) as {#} f'"
proof (cases "multicast_payload_new ds (p_payload p)")
  case (Inl e)
  let ?p = "p\<lparr>p_header := (p_header p)\<lparr>h_packet_type := Multicast, h_destination := default_node\<rparr>\<rparr>"
  have "\<not> multicast_valid ds (p_payload p)" using Inl by (metis Inl_Inr_False multicast_payload_new_Inr_iff)
  moreover have "packet_units ?p = units_to p (p_multicast_destinations p)"
    by (simp add: packet_units_def units_to_def packet_tag_def)
  ultimately have "balanced f (offered (FE_OutboundMulticast ds p)) [FA_Drop (InvalidMulticast e) ?p] {#} f"
    using balanced_out [of "[FA_Drop (InvalidMulticast e) ?p]" f] by simp
  then show ?thesis using Inl inv by (simp add: process_outbound_multicast_def Let_def)
next
  case (Inr mp)
  let ?p = "p\<lparr>p_header := (p_header p)\<lparr>h_packet_type := Multicast, h_destination := default_node\<rparr>,
    p_multicast_destinations := sort ds, p_payload := p_payload p\<rparr>"
  have v: "multicast_valid ds (p_payload p)" "mp = \<lparr>mp_destinations = sort ds, mp_body = p_payload p\<rparr>"
    using Inr by (simp_all add: multicast_payload_new_Inr_iff)
  then have "length (p_payload ?p) \<le> MAX_FORWARD_PAYLOAD_LEN" by (simp add: multicast_valid_def)
  moreover have "packet_units ?p = units_to p ds" by (simp add: packet_units_def units_to_def packet_tag_def)
  moreover have "process_outbound_multicast ds p f = process_packet None ?p f"
    using Inr v(2) by (simp add: process_outbound_multicast_def Let_def)
  ultimately show ?thesis using process_packet_step [OF inv, of ?p None] v(1) by simp
qed

text \<open>A grant to an up link: the budget grows by what the event offers, then the link may send.\<close>

lemma grant_then_send:
  assumes inv: "forward_inv f" and up: "\<not> bt_contains (fw_down_links f) l" and st: "link_inv (fw_me f) l st"
    and u: "link_units st = link_units (link_or_default l f)"
    and p: "of_bool (lq_writable st) \<le> permits l f + offered_permits l e"
    and c: "lq_available_credit_bytes st \<le> credit l f + offered_credit l e"
    and e: "offered e = {#}" "\<forall>g. e \<noteq> FE_Timer g"
  shows "\<exists>as f'. try_send_one l (put_link l st f) = Inr (as, f') \<and> forward_inv f' \<and> accounted now f e as f'"
proof -
  let ?f = "put_link l st f"
  obtain as f' where s: "try_send_one l ?f = Inr (as, f')" "forward_inv f'" "links_only ?f f'" "balanced ?f {#} as {#} f'"
    using try_send_one_step [OF forward_inv_put [OF inv up st]] by blast
  have lo: "links_only f f'" by (rule links_only_trans [OF links_only_put s(3)])
  have "held ?f = held f" using held_put [of l st f] u by simp
  then have "conserved f (offered e) as f'" using s(4) e(1) unfolding balanced_def conserved_def by simp
  moreover have "within_budget k f e as f'" for k
  proof -
    have "permits k f' + sends k as \<le> permits k ?f" "credit k f' + sent_bytes k as \<le> credit k ?f"
      using s(4) unfolding balanced_def by blast+
    moreover have "permits k ?f \<le> permits k f + offered_permits k e" "credit k ?f \<le> credit k f + offered_credit k e"
      using p c by (simp_all add: permits_def credit_def)
    ultimately show ?thesis unfolding within_budget_def by linarith
  qed
  ultimately have "accounted now f e as f'"
    using links_only_armed [OF lo e(2)] lo unfolding accounted_def links_only_def by blast
  then show ?thesis using s(1,2) by blast
qed

lemma usize_add_le: "usize_add a b \<le> a + b"
  by (simp add: usize_add_def)

lemma grant_credit_step:
  assumes "forward_inv f"
  shows "\<exists>as f'. grant_credit l bytes f = Inr (as, f') \<and> forward_inv f' \<and> accounted now f (FE_LinkCredit l bytes) as f'"
proof (cases "bt_contains (fw_down_links f) l")
  case True
  then show ?thesis using assms links_only_accounted [of f f "FE_LinkCredit l bytes" "[]"] by (simp add: grant_credit_def)
next
  case False
  let ?st = "link_or_default l f"
  have "\<exists>as f'. try_send_one l (put_link l (?st\<lparr>lq_available_credit_bytes := usize_add (lq_available_credit_bytes ?st) bytes\<rparr>) f) =
      Inr (as, f') \<and> forward_inv f' \<and> accounted now f (FE_LinkCredit l bytes) as f'"
    using link_inv_or_default [OF assms, of l] usize_add_le
    by (intro grant_then_send [OF assms False]) (simp_all add: link_inv_def link_units_def permits_def credit_def)
  then show ?thesis using False by (simp add: grant_credit_def Let_def)
qed

lemma mark_writable_step:
  assumes "forward_inv f"
  shows "\<exists>as f'. mark_writable l f = Inr (as, f') \<and> forward_inv f' \<and> accounted now f (FE_LinkWritable l) as f'"
proof (cases "bt_contains (fw_down_links f) l")
  case True
  then show ?thesis using assms links_only_accounted [of f f "FE_LinkWritable l" "[]"] by (simp add: mark_writable_def)
next
  case False
  have "\<exists>as f'. try_send_one l (put_link l ((link_or_default l f)\<lparr>lq_writable := True\<rparr>) f) =
      Inr (as, f') \<and> forward_inv f' \<and> accounted now f (FE_LinkWritable l) as f'"
    using link_inv_or_default [OF assms, of l]
    by (intro grant_then_send [OF assms False]) (simp_all add: link_inv_def link_units_def permits_def credit_def)
  then show ?thesis using False by (simp add: mark_writable_def)
qed

lemma balanced_seq:
  "balanced f m as {#} g \<Longrightarrow> balanced g m' bs {#} h \<Longrightarrow> balanced f (m + m') (as @ bs) {#} h"
  using balanced_trans [OF balanced_frame [of f m as "{#}" g m']] by simp

lemma park_p0_total:
  assumes "forward_inv f" "list_all (waiting_ok (fw_me f) P0) q" "bt_len (fw_pending_p0 f) < 2 ^ 64"
  shows "\<exists>as f'. park_p0 now q f = Inr (as, f') \<and> forward_inv f' \<and> but_pending f f' \<and> balanced f (queue_units q) as {#} f' \<and>
    (\<forall>g b. bt_get (fw_pending_p0 f') g = Some b \<longrightarrow>
      bt_get (fw_pending_p0 f) g = Some b \<or>
      pb_expires_at b = sat_add now P0_ROUTE_WAIT_MS \<and> FA_SetTimer (PendingP0 g) (pb_expires_at b) \<in> set as)"
proof (cases "q = []")
  case True
  then show ?thesis using assms(1) by (simp add: park_p0_def but_pending_def)
next
  case False
  from park_p0_step [OF assms False, of now] obtain g f' where
    "park_p0 now q f = Inr ([FA_SetTimer (PendingP0 g) (sat_add now P0_ROUTE_WAIT_MS)], f')"
    "fw_pending_p0 f' = bt_insert g \<lparr>pb_expires_at = sat_add now P0_ROUTE_WAIT_MS, pb_packets = q\<rparr> (fw_pending_p0 f)"
    "forward_inv f'" "but_pending f f'"
    "balanced f (queue_units q) [FA_SetTimer (PendingP0 g) (sat_add now P0_ROUTE_WAIT_MS)] {#} f'" .
  then show ?thesis by auto
qed

lemma priority_index_inj: "priority_index p = priority_index r \<longleftrightarrow> p = r"
  by (cases p; cases r) simp_all

lemma link_inv_waiting: "link_inv me l st \<Longrightarrow> list_all (waiting_ok me r) (lq_queues st (priority_index r))"
  using priority_index_less [of r] unfolding link_inv_def queue_inv_def
  by (auto simp: list_all_iff waiting_ok_def queued_ok_def priority_index_inj)

lemma remove_link_step:
  assumes inv: "forward_inv f" and st: "bt_get (fw_links f) l = Some st"
    and f1: "f1 = f\<lparr>fw_down_links := d, fw_links := bt_remove l (fw_links f)\<rparr>"
    and d: "\<And>k. bt_contains d k \<longleftrightarrow> k = l \<or> bt_contains (fw_down_links f) k"
  shows "forward_inv f1" "balanced f {#} [] (link_units st) f1"
proof -
  show "forward_inv f1" using inv d unfolding forward_inv_def f1 by (auto split: if_splits)
  have "held f = held f1 + link_units st"
    using bt_sum_remove [OF st, of link_units] by (simp add: held_def f1 ac_simps)
  moreover have "permits k f1 \<le> permits k f" "credit k f1 \<le> credit k f" for k
    by (auto simp: permits_def credit_def f1 link_or_default_def link_queues_default_def)
  ultimately show "balanced f {#} [] (link_units st) f1"
    unfolding balanced_def by (auto intro!: exI [of _ "{#}"])
qed

lemma link_down_step:
  assumes inv: "forward_inv f" and len: "bt_len (fw_pending_p0 f) < 2 ^ 64"
  shows "\<exists>as f'. handle_link_down now l f = Inr (as, f') \<and> forward_inv f' \<and> accounted now f (FE_LinkDown l) as f'"
proof (cases "bt_get (fw_links f) l")
  case None
  let ?f = "f\<lparr>fw_down_links := bs_insert l (fw_down_links f)\<rparr>"
  have "forward_inv ?f" using inv None unfolding forward_inv_def by auto
  moreover have "balanced f {#} [] {#} ?f"
    unfolding balanced_def by (auto simp: held_def permits_def credit_def link_or_default_def intro!: exI [of _ "{#}"])
  then have "accounted now f (FE_LinkDown l) [] ?f" by (intro balanced_accounted) (simp_all add: timers_armed_def)
  ultimately show ?thesis using None by (simp add: handle_link_down_def Let_def)
next
  case (Some st)
  define f1 where "f1 = f\<lparr>fw_down_links := bs_insert l (fw_down_links f), fw_links := bt_remove l (fw_links f)\<rparr>"
  note r = remove_link_step [OF inv Some f1_def, simplified]
  have me: "fw_me f1 = fw_me f" "fw_pending_p0 f1 = fw_pending_p0 f" by (simp_all add: f1_def)
  have li: "link_inv (fw_me f1) l st" using inv Some unfolding forward_inv_def me by blast
  note w = link_inv_waiting [OF li]
  from park_p0_total [OF r(1) w [of P0, simplified], of now] len me(2) obtain as f2 where
    2: "park_p0 now (lq_queues st 0) f1 = Inr (as, f2)" "forward_inv f2" "but_pending f1 f2"
      "balanced f1 (queue_units (lq_queues st 0)) as {#} f2"
      "\<forall>g b. bt_get (fw_pending_p0 f2) g = Some b \<longrightarrow>
        bt_get (fw_pending_p0 f) g = Some b \<or>
        pb_expires_at b = sat_add now P0_ROUTE_WAIT_MS \<and> FA_SetTimer (PendingP0 g) (pb_expires_at b) \<in> set as"
    by auto
  have me2: "fw_me f2 = fw_me f1" using 2(3) by (simp add: but_pending_def)
  let ?d1 = "drop_queued_packets (lq_queues st 1) DR_LinkDown" and ?d3 = "drop_queued_packets (lq_queues st 3) DR_LinkDown"
  obtain bs f3 where 3: "rfold reroute_p2 (lq_queues st 2) (as @ ?d1, f2) = Inr ((as @ ?d1) @ bs, f3)" "forward_inv f3"
      "links_only f2 f3" "balanced f2 (queue_units (lq_queues st 2)) bs {#} f3"
    using reroute_p2_step [OF 2(2), of P2 "lq_queues st 2" "as @ ?d1"] w [of P2] me2 by auto
  let ?as = "((as @ ?d1) @ bs) @ ?d3"
  have "handle_link_down now l f = Inr (?as, f3)"
    using Some 2(1) 3(1) by (simp add: handle_link_down_def Let_def f1_def)
  moreover have "accounted now f (FE_LinkDown l) ?as f3"
  proof (rule balanced_accounted)
    have "balanced f1 (link_units st) ?as {#} f3"
      unfolding link_units_def
      by (intro balanced_seq [OF balanced_seq [OF balanced_seq [OF 2(4)] 3(4)]] drop_queued_step)
    then show "balanced f (offered (FE_LinkDown l)) ?as {#} f3" using balanced_trans [OF r(2)] by simp
    show "timers_armed now f (FE_LinkDown l) ?as f3"
      using 2(5) 3(3) unfolding timers_armed_def links_only_def by auto
    show "fw_me f3 = fw_me f" using me me2 3(3) by (simp add: links_only_def)
  qed
  ultimately show ?thesis using 3(2) by blast
qed

lemma routes_updated_step:
  assumes inv: "forward_inv f"
  shows "\<exists>as f'. handle_routes_updated now routes f = Inr (as, f') \<and> forward_inv f' \<and> accounted now f (FE_RoutesUpdated routes) as f'"
proof -
  define refs where "refs = bs_of_list (map (\<lambda>(_, route). rt_next_hop route) (route_iter routes))"
  define f1 where "f1 = f\<lparr>fw_routes := routes, fw_down_links := bt_retain (\<lambda>link _. bt_contains refs link) (fw_down_links f)\<rparr>"
  define f2 where "f2 = f1\<lparr>fw_pending_p0 := bt_empty\<rparr>"
  have inv2: "forward_inv f2"
    using inv unfolding forward_inv_def f2_def f1_def by (auto simp: bt_contains_def split: option.splits)
  have es: "\<forall>(g, b) \<in> set (bt_entries (fw_pending_p0 f)). batch_inv (fw_me f2) b \<and> bt_get (fw_pending_p0 f2) g = None"
    using inv unfolding forward_inv_def f2_def f1_def by (auto simp: bt_entries_iff)
  obtain bs f' where r: "rfold (retry_batch now) (bt_entries (fw_pending_p0 f)) ([], f2) = Inr ([] @ bs, f')" "forward_inv f'"
      "but_pending f2 f'" "balanced f2 (sum_list (map (\<lambda>(_, b). batch_units b) (bt_entries (fw_pending_p0 f)))) bs {#} f'"
      "\<forall>g b'. bt_get (fw_pending_p0 f') g = Some b' \<longrightarrow> bt_get (fw_pending_p0 f2) g = Some b' \<or>
        (\<exists>b. (g, b) \<in> set (bt_entries (fw_pending_p0 f)) \<and> pb_expires_at b' = pb_expires_at b \<and> now < pb_expires_at b)"
    using retry_batches_step [OF inv2 es bt_entries_keys_distinct, of now "[]"] by blast
  have "handle_routes_updated now routes f = Inr (bs, f')"
    using r(1) by (simp add: handle_routes_updated_def retry_pending_p0_def Let_def refs_def f1_def f2_def)
  moreover have "accounted now f (FE_RoutesUpdated routes) bs f'"
  proof (rule balanced_accounted)
    have "balanced f {#} [] (bt_sum batch_units (fw_pending_p0 f)) f2"
      unfolding balanced_def by (auto simp: held_def f1_def f2_def permits_def credit_def link_or_default_def intro!: exI [of _ "{#}"])
    then show "balanced f (offered (FE_RoutesUpdated routes)) bs {#} f'"
      using balanced_trans r(4) unfolding bt_sum_def by fastforce
    have "bt_get (fw_pending_p0 f2) g = None" for g by (simp add: f2_def)
    then show "timers_armed now f (FE_RoutesUpdated routes) bs f'"
      using r(5) unfolding timers_armed_def bt_entries_iff by (metis forward_event.distinct(43) option.distinct(1))
    show "fw_me f' = fw_me f" using r(3) by (simp add: but_pending_def f1_def f2_def)
  qed
  ultimately show ?thesis using r(2) by blast
qed

lemma timer_step:
  assumes inv: "forward_inv f"
  shows "\<exists>as f'. handle_timer now (PendingP0 g) f = Inr (as, f') \<and> forward_inv f' \<and> accounted now f (FE_Timer (PendingP0 g)) as f'"
proof (cases "bt_get (fw_pending_p0 f) g")
  case None
  then have "timers_armed now f (FE_Timer (PendingP0 g)) [] f" unfolding timers_armed_def by auto
  then show ?thesis using None inv balanced_accounted [of f "FE_Timer (PendingP0 g)" "[]" f] by (simp add: handle_timer_def)
next
  case (Some b)
  show ?thesis
  proof (cases "now < pb_expires_at b")
    case True
    have "balanced f {#} [FA_SetTimer (PendingP0 g) (pb_expires_at b)] {#} f"
      using balanced_out [of "[FA_SetTimer (PendingP0 g) (pb_expires_at b)]" f] by simp
    then have "accounted now f (FE_Timer (PendingP0 g)) [FA_SetTimer (PendingP0 g) (pb_expires_at b)] f"
      by (intro balanced_accounted) (use Some in \<open>auto simp: timers_armed_def\<close>)
    then show ?thesis using True Some inv by (simp add: handle_timer_def)
  next
    case False
    let ?f = "f\<lparr>fw_pending_p0 := bt_remove g (fw_pending_p0 f)\<rparr>"
    have "forward_inv ?f" using inv unfolding forward_inv_def by auto
    moreover have "balanced f {#} [] (queue_units (pb_packets b)) ?f"
      using bt_sum_remove [OF Some, of batch_units]
      unfolding balanced_def by (auto simp: held_def permits_def credit_def link_or_default_def batch_units_def ac_simps intro!: exI [of _ "{#}"])
    from balanced_trans [OF this drop_queued_step, of RouteWaitExpired]
    have "accounted now f (FE_Timer (PendingP0 g)) (drop_queued_packets (pb_packets b) RouteWaitExpired) ?f"
      by (intro balanced_accounted) (auto simp: timers_armed_def)
    ultimately show ?thesis using False Some by (simp add: handle_timer_def)
  qed
qed

lemma forward_step:
  assumes inv: "forward_inv f" and adm: "forward_admissible f e"
  shows "\<exists>as f'. forward_handle now e f = Inr (as, f') \<and> forward_inv f' \<and> accounted now f e as f'"
proof (cases e)
  case (FE_Outbound p)
  then show ?thesis using process_packet_step [OF inv, of p None] adm links_only_accounted [of f _ e] by auto
next
  case (FE_OutboundMulticast ds p)
  then show ?thesis using outbound_multicast_step [OF inv, of ds p] links_only_accounted [of f _ e] by (auto simp del: offered.simps)
next
  case (FE_Inbound l p)
  then show ?thesis using process_packet_step [OF inv, of p "Some l"] adm links_only_accounted [of f _ e] by auto
next
  case (FE_Timer t)
  then show ?thesis using timer_step [OF inv] by (cases t) simp
qed (use grant_credit_step [OF inv] mark_writable_step [OF inv] routes_updated_step [OF inv] link_down_step [OF inv] adm in auto)

lemma forward_inv_new: "forward_inv (forwarder_new me routes)"
  by (simp add: forward_inv_def forwarder_new_def)

interpretation forward: component forward_handle forward_inv forward_admissible
  by unfold_locales (use forward_step in blast)

section \<open>A sample run\<close>

definition unicast_sample :: "priority \<Rightarrow> node_id \<Rightarrow> forward_packet" where
  "unicast_sample priority destination =
    \<lparr>p_header = \<lparr>h_packet_type = Unicast, h_priority = priority, h_ttl = 8, h_flags = CONFLATABLE,
       h_destination = destination, h_source = 1, h_flow_id = 5, h_conflate_key = 6\<rparr>,
     p_multicast_destinations = [], p_payload = [42]\<rparr>"

definition sample_routes :: route_table where
  "sample_routes = route_table_new 1 (bt_collect
    [(2, \<lparr>rt_next_hop = 7, rt_cost = 1, rt_hops = 1\<rparr>), (3, \<lparr>rt_next_hop = 8, rt_cost = 1, rt_hops = 1\<rparr>)])"

definition sample_forward_events :: "(mono_time \<times> forward_event) list" where
  "sample_forward_events =
    [(10, FE_Outbound (unicast_sample P0 2)), (11, FE_LinkCredit 7 100), (12, FE_Outbound (unicast_sample P1 2)),
     (13, FE_LinkWritable 7), (14, FE_OutboundMulticast [3, 2, 1] (unicast_sample P2 2)), (20, FE_Outbound (unicast_sample P0 2)),
     (30, FE_LinkDown 7)]"

definition sample_forward :: "(forward_event \<times> forward_action list) list \<times> forwarder" where
  "sample_forward =
    (case run_history forward_handle forward_admissible sample_forward_events (forwarder_new 1 sample_routes) of
       None \<Rightarrow> ([], forwarder_new 1 sample_routes) | Some r \<Rightarrow> r)"

lemma sample_forward_history: "forward.history (forwarder_new 1 sample_routes) (fst sample_forward) (snd sample_forward)"
proof (cases "run_history forward_handle forward_admissible sample_forward_events (forwarder_new 1 sample_routes)")
  case None
  then show ?thesis by (simp add: sample_forward_def forward.history.begin_history)
next
  case (Some r)
  obtain h f where r: "r = (h, f)" by fastforce
  from forward.run_history_history [OF Some [unfolded r] forward.history.begin_history] Some r
  show ?thesis by (simp add: sample_forward_def)
qed

lemma sample_forward_reachable: "forward.reachable (forwarder_new 1 sample_routes) (snd sample_forward)"
  by (rule forward.history_reachable [OF sample_forward_history])

lemma sample_forward_counts:
  "length (fst sample_forward) = 7"
  "sum_list (map (\<lambda>(_, as). sends 7 as) (fst sample_forward)) = 1"
  "map_option (\<lambda>b. (pb_expires_at b, length (pb_packets b))) (bt_get (fw_pending_p0 (snd sample_forward)) 0) = Some (2030, 1)"
  by code_simp+

end
