(* ===== verification/ForwardDelivery.thy ===== *)
theory ForwardDelivery
  imports ForwardProps
begin

text \<open>
  Crate \<open>mb-forward\<close>, local delivery: a packet handed to the local node is addressed to it and is the packet of
  the event that is being handled; nothing that waited in a queue is ever delivered locally.
\<close>

definition at_home :: "node_id \<Rightarrow> forward_action list \<Rightarrow> forwarder \<Rightarrow> bool" where
  "at_home me as f \<longleftrightarrow> fw_me f = me \<and> (\<forall>p. FA_DeliverLocal p \<in> set as \<longrightarrow> h_destination (p_header p) = me)"

lemma at_home_append: "at_home me as f \<Longrightarrow> at_home me bs f' \<Longrightarrow> at_home me (as @ bs) f'"
  by (auto simp: at_home_def)

lemma at_home_quiet: "fw_me f = me \<Longrightarrow> \<forall>p. FA_DeliverLocal p \<notin> set as \<Longrightarrow> at_home me as f"
  by (simp add: at_home_def)

lemma at_home_deliver: "h_destination (p_header p) = fw_me f \<Longrightarrow> at_home (fw_me f) [FA_DeliverLocal p] f"
  by (simp add: at_home_def)

lemma drop_queued_at_home: "fw_me f = me \<Longrightarrow> at_home me (drop_queued_packets q r) f"
  by (auto simp: at_home_def drop_queued_packets_def)

lemma try_send_one_at_home: "try_send_one l f = Inr (as, f') \<Longrightarrow> at_home (fw_me f) as f'"
  by (auto simp: try_send_one_def at_home_def res_simps split: option.splits if_splits list.splits)

lemma enqueue_at_home:
  assumes "enqueue l p inc f = Inr (as, f')"
  shows "at_home (fw_me f) as f'"
  using assms
  by (auto simp: enqueue_def Let_def at_home_quiet split: if_splits option.splits dest!: try_send_one_at_home)

lemma enqueue_branch_at_home:
  assumes "enqueue_branch inc p body ttl b (as, f) = Inr (as', f')" and "at_home me as f"
  shows "at_home me as' f'"
  using assms by (auto simp: enqueue_branch_def res_simps at_home_def split: prod.splits dest!: enqueue_at_home)

lemma rfold_at_home:
  assumes "\<And>x as f as' f'. step x (as, f) = Inr (as', f') \<Longrightarrow> at_home me as f \<Longrightarrow> at_home me as' f'"
    and "rfold step xs (as, f) = Inr (as', f')" and "at_home me as f"
  shows "at_home me as' f'"
  using assms(2,3)
proof (induction xs arbitrary: as f)
  case (Cons x xs)
  then obtain bs g where "step x (as, f) = Inr (bs, g)" "rfold step xs (bs, g) = Inr (as', f')"
    by (auto simp: res_simps)
  then show ?case using Cons.IH assms(1) Cons.prems(2) by blast
qed simp

lemma drop_subset_quiet: "drop_subset r p ds body = Inr as \<Longrightarrow> FA_DeliverLocal q \<notin> set as"
  by (auto simp: drop_subset_def res_simps split: if_splits)

lemma local_copy_destination [simp]: "h_destination (p_header (local_copy p body f)) = fw_me f"
  by (simp add: local_copy_def)

lemma forward_multicast_at_home:
  assumes "forward_multicast inc p f = Inr (as, f')"
  shows "at_home (fw_me f) as f'"
proof (cases "multicast_payload_new (p_multicast_destinations p) (p_payload p)")
  case (Inl e)
  then show ?thesis using assms by (auto simp: forward_multicast_def at_home_def)
next
  case (Inr m)
  define b where "b = fold (classify_destination inc f) (mp_destinations m) branches_empty"
  define loc where "loc = (if br_deliver_local b then [FA_DeliverLocal (local_copy p (mp_body m) f)] else [])"
  obtain nr lo ttl where r: "drop_subset NoRoute p (br_no_route b) (mp_body m) = Inr nr"
      "drop_subset LoopDetected p (br_looped b) (mp_body m) = Inr lo"
      "rfold (enqueue_branch inc p (mp_body m) ttl) (bt_entries (br_by_link b)) (loc @ nr @ lo, f) = Inr (as, f')"
    using assms Inr by (auto simp: forward_multicast_def Let_def res_simps simp flip: b_def loc_def)
  have "at_home (fw_me f) (loc @ nr @ lo) f"
    using drop_subset_quiet [OF r(1)] drop_subset_quiet [OF r(2)] by (auto simp: at_home_def loc_def split: if_splits)
  from rfold_at_home [OF _ r(3) this] show ?thesis using enqueue_branch_at_home by blast
qed

lemma process_packet_at_home:
  assumes "process_packet inc p f = Inr (as, f')"
  shows "at_home (fw_me f) as f'"
  using assms
  by (auto simp: process_packet_def forward_unicast_def res_simps
      split: if_splits packet_type.splits option.splits
      intro: at_home_quiet at_home_deliver dest: enqueue_at_home forward_multicast_at_home)

lemma enqueue_branches_at_home:
  assumes "rfold (enqueue_branch inc p body ttl) es (if d then [FA_DeliverLocal (local_copy p body f)] else [], f) = Inr (as, f')"
  shows "at_home (fw_me f) as f'"
  by (rule rfold_at_home [OF enqueue_branch_at_home assms]) (simp_all add: at_home_def)

lemma reroute_multicast_at_home:
  assumes "reroute_multicast q f = Inr (as, un, f')"
  shows "at_home (fw_me f) as f'"
proof (cases "multicast_payload_new (p_multicast_destinations (qp_packet q)) (p_payload (qp_packet q))")
  case (Inl e)
  then show ?thesis using assms by (auto simp: reroute_multicast_def Let_def at_home_quiet)
next
  case (Inr m)
  define b where "b = fold (reclassify_destination (qp_incoming q) f) (mp_destinations m) branches_empty"
  have "rfold (enqueue_branch (qp_incoming q) (qp_packet q) (mp_body m) (h_ttl (p_header (qp_packet q)))) (bt_entries (br_by_link b))
      (if br_deliver_local b then [FA_DeliverLocal (local_copy (qp_packet q) (mp_body m) f)] else [], f) = Inr (as, f')"
    using assms Inr
    by (cases "br_no_route b = []") (auto simp: reroute_multicast_def Let_def res_simps simp flip: b_def)
  then show ?thesis by (rule enqueue_branches_at_home)
qed

lemma reroute_queued_at_home:
  assumes "reroute_queued q f = Inr (as, un, f')"
  shows "at_home (fw_me f) as f'"
proof (cases "h_packet_type (p_header (qp_packet q))")
  case Unicast
  then show ?thesis using assms
    by (auto simp: reroute_queued_def reroute_unicast_def res_simps split: if_splits option.splits
        intro: at_home_quiet at_home_deliver dest: enqueue_at_home)
next
  case Multicast
  then show ?thesis using assms reroute_multicast_at_home by (simp add: reroute_queued_def)
qed (use assms in \<open>auto simp: reroute_queued_def at_home_def\<close>)

lemma reroute_p2_at_home:
  assumes "reroute_p2 q (as, f) = Inr (as', f')" and "at_home me as f"
  shows "at_home me as' f'"
proof -
  obtain routed un where r: "reroute_queued q f = Inr (routed, un, f')" "as' = as @ routed @ drop_queued_packets un DR_LinkDown"
    using assms(1) by (auto simp: reroute_p2_def res_simps)
  have "at_home me routed f'" using reroute_queued_at_home [OF r(1)] assms(2) by (simp add: at_home_def)
  moreover from this have "at_home me (drop_queued_packets un DR_LinkDown) f'"
    by (intro drop_queued_at_home) (simp add: at_home_def)
  ultimately show ?thesis unfolding r(2) using assms(2) by (intro at_home_append)
qed

lemma pending_generation_me: "pending_generation_loop n f = Inr (g, f') \<Longrightarrow> fw_me f' = fw_me f"
  by (induction n f rule: pending_generation_loop.induct) (auto simp: Let_def split: if_splits)

lemma park_p0_at_home: "park_p0 now q f = Inr (as, f') \<Longrightarrow> at_home (fw_me f) as f'"
  by (auto simp: park_p0_def next_pending_generation_def Let_def at_home_def res_simps split: if_splits
      dest: pending_generation_me)

lemma link_down_at_home:
  assumes "handle_link_down now l f = Inr (as, f')"
  shows "at_home (fw_me f) as f'"
proof (cases "bt_get (fw_links f) l")
  case None
  then show ?thesis using assms by (auto simp: handle_link_down_def Let_def at_home_def)
next
  case (Some st)
  let ?f = "f\<lparr>fw_down_links := bs_insert l (fw_down_links f), fw_links := bt_remove l (fw_links f)\<rparr>"
  obtain as1 f1 as2 where r: "park_p0 now (lq_queues st 0) ?f = Inr (as1, f1)"
      "rfold reroute_p2 (lq_queues st 2) (as1 @ drop_queued_packets (lq_queues st 1) DR_LinkDown, f1) = Inr (as2, f')"
      "as = as2 @ drop_queued_packets (lq_queues st 3) DR_LinkDown"
    using assms Some by (auto simp: handle_link_down_def Let_def res_simps)
  have 1: "at_home (fw_me f) as1 f1" using park_p0_at_home [OF r(1)] by simp
  then have "at_home (fw_me f) (as1 @ drop_queued_packets (lq_queues st 1) DR_LinkDown) f1"
    by (intro at_home_append drop_queued_at_home) (simp_all add: at_home_def)
  from rfold_at_home [OF reroute_p2_at_home r(2) this] have 2: "at_home (fw_me f) as2 f'" .
  then show ?thesis unfolding r(3) by (intro at_home_append drop_queued_at_home) (simp_all add: at_home_def)
qed

lemma retry_packet_eq:
  "retry_packet q (as, rest, f) = rbind (reroute_queued q f) (\<lambda>(routed, unresolved, f). Inr (as @ routed, rest @ unresolved, f))"
  by (simp add: retry_packet_def)

lemma retry_packets_at_home:
  "rfold retry_packet qs (as, rest, f) = Inr (as', rest', f') \<Longrightarrow> at_home me as f \<Longrightarrow> at_home me as' f'"
proof (induction qs arbitrary: as rest f)
  case (Cons q qs)
  then obtain routed un g where r: "reroute_queued q f = Inr (routed, un, g)"
      "rfold retry_packet qs (as @ routed, rest @ un, g) = Inr (as', rest', f')"
    by (auto simp: retry_packet_eq res_simps)
  have "at_home me (as @ routed) g"
    using reroute_queued_at_home [OF r(1)] Cons.prems(2) by (auto simp: at_home_def)
  then show ?case using Cons.IH r(2) by blast
qed simp

lemma retry_batch_at_home:
  assumes "retry_batch now b (as, f) = Inr (as', f')" and "at_home me as f"
  shows "at_home me as' f'"
proof (cases b)
  case (Pair g batch)
  show ?thesis
  proof (cases "pb_expires_at batch \<le> now")
    case True
    have "at_home me (as @ drop_queued_packets (pb_packets batch) RouteWaitExpired) f"
      using assms(2) by (intro at_home_append [OF assms(2)] drop_queued_at_home) (simp add: at_home_def)
    then show ?thesis using assms(1) Pair True by (simp add: retry_batch_def)
  next
    case False
    then obtain rest f1 where r: "rfold retry_packet (pb_packets batch) (as, [], f) = Inr (as', rest, f1)" "fw_me f' = fw_me f1"
      using assms(1) Pair by (auto simp: retry_batch_def res_simps split: if_splits)
    then show ?thesis using retry_packets_at_home [OF r(1) assms(2)] by (simp add: at_home_def)
  qed
qed

lemma forward_handle_at_home:
  assumes "forward_handle now e f = Inr (as, f')"
  shows "at_home (fw_me f) as f'"
proof (cases e)
  case (FE_OutboundMulticast ds p)
  then show ?thesis using assms
    by (auto simp: process_outbound_multicast_def Let_def at_home_quiet split: sum.splits dest: process_packet_at_home)
next
  case (FE_RoutesUpdated r)
  define g where "g = f\<lparr>fw_routes := r, fw_down_links := bt_retain (\<lambda>link _. bt_contains
    (bs_of_list (map (\<lambda>(_, route). rt_next_hop route) (route_iter r))) link) (fw_down_links f)\<rparr>"
  have run: "rfold (retry_batch now) (bt_entries (fw_pending_p0 g)) ([], g\<lparr>fw_pending_p0 := bt_empty\<rparr>) = Inr (as, f')"
    using assms FE_RoutesUpdated by (simp add: handle_routes_updated_def Let_def retry_pending_p0_def g_def)
  show ?thesis
  proof (rule rfold_at_home [where step = "retry_batch now", OF _ run])
    show "at_home (fw_me f) [] (g\<lparr>fw_pending_p0 := bt_empty\<rparr>)" by (simp add: at_home_def g_def)
  qed (rule retry_batch_at_home)
next
  case (FE_Timer t)
  then show ?thesis using assms
    by (cases t) (auto simp: handle_timer_def at_home_quiet drop_queued_at_home split: option.splits if_splits)
qed (use assms in \<open>auto simp: grant_credit_def mark_writable_def Let_def at_home_quiet split: if_splits
      dest: process_packet_at_home link_down_at_home dest!: try_send_one_at_home\<close>)

section \<open>What is delivered locally\<close>

lemma packet_units_me: "packet_ok me p \<Longrightarrow> (t, me) \<notin># packet_units p"
  by (auto simp: packet_ok_def packet_units_def units_to_def split: if_splits)

lemma queue_units_me: "list_all (\<lambda>x. packet_ok me (qp_packet x)) q \<Longrightarrow> (t, me) \<notin># queue_units q"
  by (induction q) (auto simp: queue_units_def packet_units_me)

lemma bt_sum_mem: "u \<in># bt_sum g m \<longleftrightarrow> (\<exists>k v. bt_get m k = Some v \<and> u \<in># g v)"
proof -
  have "u \<in># bt_sum g m \<longleftrightarrow> (\<exists>(k, v) \<in> set (bt_entries m). u \<in># g v)"
    unfolding bt_sum_def by (auto simp: split_beta)
  also have "\<dots> \<longleftrightarrow> (\<exists>k v. (k, v) \<in> set (bt_entries m) \<and> u \<in># g v)" by blast
  finally show ?thesis unfolding bt_entries_iff .
qed

lemma held_not_me: "forward_inv f \<Longrightarrow> (t, fw_me f) \<notin># held f"
proof -
  assume inv: "forward_inv f"
  have "(t, fw_me f) \<notin># link_units st" if l: "bt_get (fw_links f) l = Some st" for l st
  proof -
    have "list_all (\<lambda>x. packet_ok (fw_me f) (qp_packet x)) (lq_queues st i)" if "i < 4" for i
      using inv l that unfolding forward_inv_def link_inv_def queue_inv_def queued_ok_def by (auto simp: list_all_iff)
    then show ?thesis using queue_units_me by (simp add: link_units_def)
  qed
  moreover have "(t, fw_me f) \<notin># batch_units b" if "bt_get (fw_pending_p0 f) g = Some b" for g b
  proof -
    have "batch_inv (fw_me f) b" using inv that unfolding forward_inv_def by blast
    then have "list_all (\<lambda>x. packet_ok (fw_me f) (qp_packet x)) (pb_packets b)"
      unfolding batch_inv_def list_all_iff by blast
    then show ?thesis unfolding batch_units_def by (rule queue_units_me)
  qed
  ultimately show ?thesis unfolding held_def by (auto simp: bt_sum_mem)
qed

lemma actions_units_mem: "a \<in> set as \<Longrightarrow> u \<in># action_units a \<Longrightarrow> u \<in># actions_units as"
  by (induction as) (auto simp: actions_units_def)

text \<open>A local delivery carries the tag of the packet of the event, which lists the local node as a destination.\<close>

lemma delivered_was_offered:
  assumes "forward_inv f" and "forward_admissible f e" and "forward_handle now e f = Inr (as, f')"
    and "FA_DeliverLocal p \<in> set as"
  shows "(packet_tag p, fw_me f) \<in># offered e"
proof -
  have "h_destination (p_header p) = fw_me f" using forward_handle_at_home [OF assms(3)] assms(4) by (simp add: at_home_def)
  then have "(packet_tag p, fw_me f) \<in># actions_units as"
    using actions_units_mem [OF assms(4)] by (simp add: units_to_def)
  moreover have "conserved f (offered e) as f'"
    using forward_step [OF assms(1,2), of now] assms(3) unfolding accounted_def by auto
  ultimately have "(packet_tag p, fw_me f) \<in># held f + offered e" unfolding conserved_def by (metis union_iff)
  with held_not_me [OF assms(1)] show ?thesis by auto
qed

end
