(* ===== verification/ControlProps.thy ===== *)
theory ControlProps
  imports Control
begin

text \<open>
  Properties of the control plane. The link-state database is first given an abstract machine with
  four transitions (nothing, origination, learning a newer LSA, expiry); the event handler refines
  it, and what holds of the database along every step is read off the transitions.
\<close>

section \<open>The database as an abstract machine\<close>

inductive lsdb_step :: "control_plane \<Rightarrow> mono_time \<Rightarrow> control_event \<Rightarrow> control_plane \<Rightarrow> bool" for s now e s' where
  stutter: "cp_lsdb s' = cp_lsdb s \<Longrightarrow> cp_my_seq s' = cp_my_seq s \<Longrightarrow> lsdb_step s now e s'"
| originate: "cp_my_seq s \<noteq> - 1 \<Longrightarrow> cp_my_seq s' = cp_my_seq s + 1 \<Longrightarrow>
    cp_lsdb s' = bt_insert (cp_me s) (own_entry now s') (cp_lsdb s) \<Longrightarrow> lsdb_step s now e s'"
| learn: "e = CE_Frame l (CF_Lsa m) \<Longrightarrow> bt_contains (cp_adjacencies s) l \<Longrightarrow> valid_lsa (msg_lsa m) \<Longrightarrow>
    cp_verifier s m \<Longrightarrow> lsa_origin (msg_lsa m) \<noteq> cp_me s \<Longrightarrow> is_newer (msg_lsa m) s \<Longrightarrow>
    cp_my_seq s' = cp_my_seq s \<Longrightarrow>
    cp_lsdb s' = bt_insert (lsa_origin (msg_lsa m)) (fresh_entry now m) (cp_lsdb s) \<Longrightarrow> lsdb_step s now e s'"
| expire: "e = CE_Timer (CT_LsaExpire origin ep sq) \<Longrightarrow> bt_get (cp_lsdb s) origin = Some x \<Longrightarrow>
    le_version x = (ep, sq) \<Longrightarrow> entry_active x = Some a \<Longrightarrow> al_expires_at a \<le> now \<Longrightarrow>
    cp_my_seq s' = cp_my_seq s \<Longrightarrow>
    cp_lsdb s' = bt_insert origin (x\<lparr>le_state := LS_Tombstone\<rparr>) (cp_lsdb s) \<Longrightarrow> lsdb_step s now e s'"

definition same_identity :: "control_plane \<Rightarrow> control_plane \<Rightarrow> bool" where
  "same_identity s s' \<longleftrightarrow> cp_me s' = cp_me s \<and> cp_epoch s' = cp_epoch s \<and> cp_signer s' = cp_signer s \<and>
    cp_verifier s' = cp_verifier s"

lemma own_lsa_cong:
  "cp_me s = cp_me t \<Longrightarrow> cp_epoch s = cp_epoch t \<Longrightarrow> cp_my_seq s = cp_my_seq t \<Longrightarrow>
    cp_adjacencies s = cp_adjacencies t \<Longrightarrow> cp_local_topic_ads s = cp_local_topic_ads t \<Longrightarrow> own_lsa s = own_lsa t"
  by (simp add: own_lsa_def best_by_peer_def)

lemma mark_spf_dirty_fields:
  "mark_spf_dirty now s = Inr (d, s') \<Longrightarrow> spf_fields_only s s'"
  by (auto simp: mark_spf_dirty_def Let_def spf_fields_only_def res_simps split: if_splits)

lemma originate_step:
  assumes "originate_pre s" and "cp_my_seq s \<noteq> - 1" and "originate_lsa now s = Inr (as, s')"
  shows "cp_my_seq s' = cp_my_seq s + 1" "cp_lsdb s' = bt_insert (cp_me s) (own_entry now s') (cp_lsdb s)"
    "same_identity s s'" "cp_adjacencies s' = cp_adjacencies s" "cp_local_topic_ads s' = cp_local_topic_ads s"
proof -
  let ?t = "s\<lparr>cp_my_seq := cp_my_seq s + 1\<rparr>"
  obtain d where f: "spf_fields_only (?t\<lparr>cp_lsdb := bt_insert (cp_me s) (own_entry now ?t) (cp_lsdb s)\<rparr>) s'"
    using originate_lsa_eq [OF assms(1,2), of now] assms(3) by (metis Inr_inject prod.inject)
  note eqs = spf_fields_only_eqs [OF f, simplified]
  then show "cp_my_seq s' = cp_my_seq s + 1" "same_identity s s'"
    "cp_adjacencies s' = cp_adjacencies s" "cp_local_topic_ads s' = cp_local_topic_ads s"
    by (simp_all add: same_identity_def)
  have "own_lsa s' = own_lsa ?t" by (rule own_lsa_cong) (simp_all add: eqs)
  then show "cp_lsdb s' = bt_insert (cp_me s) (own_entry now s') (cp_lsdb s)"
    by (simp add: eqs own_entry_def)
qed

lemma originate_refines:
  assumes "originate_pre t" and "cp_my_seq t \<noteq> - 1" and "originate_lsa now t = Inr (as, s')"
    and "cp_my_seq t = cp_my_seq s" and "cp_lsdb t = cp_lsdb s" and "same_identity s t"
  shows "lsdb_step s now e s' \<and> same_identity s s'"
proof
  note o = originate_step [OF assms(1-3)]
  show "same_identity s s'" using o(3) assms(6) by (simp add: same_identity_def)
  show "lsdb_step s now e s'"
    using lsdb_step.originate [of s s' now e] o(1,2) assms(2,4-6) by (simp add: same_identity_def)
qed

lemma receive_lsa_refines:
  assumes "receive_lsa now l m s = Inr (as, s')"
  shows "lsdb_step s now (CE_Frame l (CF_Lsa m)) s' \<and> same_identity s s' \<and> cp_my_seq s' = cp_my_seq s"
proof (cases "bt_contains (cp_adjacencies s) l \<and> valid_lsa (msg_lsa m) \<and> cp_verifier s m \<and>
    lsa_origin (msg_lsa m) \<noteq> cp_me s \<and> is_newer (msg_lsa m) s \<and> install m now s \<noteq> None")
  case True
  let ?t = "s\<lparr>cp_lsdb := bt_insert (lsa_origin (msg_lsa m)) (fresh_entry now m) (cp_lsdb s)\<rparr>"
  obtain d where "mark_spf_dirty now ?t = Inr (d, s')"
    using True assms by (auto simp: receive_lsa_def install_eq res_simps split: if_splits)
  note eqs = spf_fields_only_eqs [OF mark_spf_dirty_fields [OF this], simplified]
  show ?thesis using True eqs by (auto simp: same_identity_def intro: lsdb_step.learn)
next
  case False
  then have "s' = s" using assms by (auto simp: receive_lsa_def split: if_splits option.splits)
  then show ?thesis by (simp add: lsdb_step.stutter same_identity_def)
qed

lemma handle_expire_refines:
  assumes "handle_expire_timer now origin ep sq s = Inr (as, s')"
  shows "lsdb_step s now (CE_Timer (CT_LsaExpire origin ep sq)) s' \<and> same_identity s s' \<and> cp_my_seq s' = cp_my_seq s"
proof (cases "\<exists>x a. bt_get (cp_lsdb s) origin = Some x \<and> le_version x = (ep, sq) \<and> entry_active x = Some a \<and>
    al_expires_at a \<le> now")
  case True
  then obtain x a where x: "bt_get (cp_lsdb s) origin = Some x" "le_version x = (ep, sq)" "entry_active x = Some a"
    "al_expires_at a \<le> now" by blast
  then have "mark_spf_dirty now (s\<lparr>cp_lsdb := bt_insert origin (x\<lparr>le_state := LS_Tombstone\<rparr>) (cp_lsdb s)\<rparr>) = Inr (as, s')"
    using assms by (simp add: handle_expire_timer_def leD)
  note eqs = spf_fields_only_eqs [OF mark_spf_dirty_fields [OF this], simplified]
  show ?thesis using x eqs by (auto simp: same_identity_def intro: lsdb_step.expire)
next
  case False
  then have "s' = s" using assms by (auto simp: handle_expire_timer_def not_less split: option.splits if_splits)
  then show ?thesis by (simp add: lsdb_step.stutter same_identity_def)
qed

lemma handle_spf_refines:
  assumes "handle_spf_timer now g s = Inr (as, s')"
  shows "lsdb_step s now e s' \<and> same_identity s s' \<and> cp_my_seq s' = cp_my_seq s"
proof -
  have "cp_lsdb s' = cp_lsdb s \<and> cp_my_seq s' = cp_my_seq s \<and> same_identity s s'"
    using assms
    by (auto simp: handle_spf_timer_def recompute_routes_def recompute_topic_ads_eq Let_def res_simps same_identity_def
        split: option.splits if_splits)
  then show ?thesis by (simp add: lsdb_step.stutter)
qed

lemma control_refines_lsdb:
  assumes inv: "control_inv s" and c: "counters_left s" and run: "control_handle now e s = Inr (as, s')"
  shows "lsdb_step s now e s' \<and> same_identity s s'"
proof -
  have seq: "cp_my_seq s \<noteq> - 1" using c by (simp add: counters_left_def)
  have pre: "originate_pre s"
    using lsdb_inv_pre control_inv_ready [OF inv c] inv by (simp add: control_inv_def)
  have keep: ?thesis if "s' = s" using that by (simp add: lsdb_step.stutter same_identity_def)
  show ?thesis
  proof (cases e)
    case (CE_LinkUp l peer cost)
    let ?t = "s\<lparr>cp_adjacencies := bt_insert l \<lparr>la_peer = peer, la_cost = cost\<rparr> (cp_adjacencies s)\<rparr>"
    obtain as' where "originate_lsa now ?t = Inr (as', s')" using run CE_LinkUp by (auto simp: res_simps)
    then show ?thesis using originate_refines [of ?t now as' s' s e] pre seq by (simp add: same_identity_def)
  next
    case (CE_LinkDown l)
    then show ?thesis
      using run keep originate_refines [of "s\<lparr>cp_adjacencies := bt_remove l (cp_adjacencies s)\<rparr>" now as s' s e] pre seq
      by (auto simp: same_identity_def split: if_splits)
  next
    case (CE_LocalTopicAdsChanged a)
    have "valid_topic_ads (sort a) \<Longrightarrow> originate_pre (s\<lparr>cp_local_topic_ads := sort a\<rparr>)"
      using pre by (simp add: originate_pre_def)
    then show ?thesis
      using CE_LocalTopicAdsChanged run keep originate_refines [of "s\<lparr>cp_local_topic_ads := sort a\<rparr>" now as s' s e] seq
      by (auto simp: Let_def same_identity_def split: if_splits)
  next
    case (CE_Frame l f)
    then show ?thesis using run keep receive_lsa_refines [of now l _ s as s'] by (cases f) (auto simp: res_simps)
  next
    case (CE_Timer t)
    then show ?thesis
      using run keep handle_spf_refines [of now _ s as s' e] handle_expire_refines [of now _ _ _ s as s']
        originate_refines [OF pre seq, of now as s' s e]
      by (cases t) (auto simp: handle_refresh_timer_def Let_def same_identity_def split: option.splits if_splits)
  qed
qed

section \<open>The own LSA and local links\<close>

lemma fold_best_by_peer:
  fixes xs :: "local_adjacency list"
  defines "S \<equiv> \<lambda>(xs :: local_adjacency list) m p. set_option (bt_get m p) \<union> la_cost ` {a \<in> set xs. la_peer a = p}"
  shows "bt_get (fold (\<lambda>a. bt_upsert (la_peer a) (\<lambda>cost. min cost (la_cost a)) (la_cost a)) xs m) p =
    (if S xs m p = {} then None else Some (Min (S xs m p)))"
proof (induction xs arbitrary: m)
  case Nil
  then show ?case by (cases "bt_get m p") (simp_all add: S_def)
next
  case (Cons a xs)
  let ?m = "bt_upsert (la_peer a) (\<lambda>cost. min cost (la_cost a)) (la_cost a) m"
  let ?R = "la_cost ` {b \<in> set xs. la_peer b = p}"
  have fin: "finite ?R" by simp
  have min: "Min (insert (min c d) A) = Min (insert c (insert d A))" if "finite A" for c d :: link_cost and A
    using that by (cases "A = {}") (simp_all add: min.assoc)
  have "(if S xs ?m p = {} then None else Some (Min (S xs ?m p))) =
      (if S (a # xs) m p = {} then None else Some (Min (S (a # xs) m p)))"
  proof (cases "la_peer a = p")
    case True
    then have *: "S (a # xs) m p = set_option (bt_get m p) \<union> insert (la_cost a) ?R" by (auto simp: S_def)
    show ?thesis
    proof (cases "bt_get m p")
      case None
      then show ?thesis using True * by (simp add: S_def)
    next
      case (Some c)
      have "S xs ?m p = insert (min c (la_cost a)) ?R" using True Some by (simp add: S_def)
      moreover have "S (a # xs) m p = insert c (insert (la_cost a) ?R)" using * Some by auto
      ultimately show ?thesis using min [OF fin, of c "la_cost a"] by simp
    qed
  next
    case False
    then have "{b \<in> set (a # xs). la_peer b = p} = {b \<in> set xs. la_peer b = p}" by auto
    then show ?thesis using False by (simp add: S_def)
  qed
  then show ?case using Cons.IH [of ?m] by simp
qed

lemma own_lsa_adjacency:
  "e \<in> set (lsa_adjacencies (own_lsa s)) \<longleftrightarrow>
    (\<exists>l a. bt_get (cp_adjacencies s) l = Some a \<and> la_peer a = adj_peer e \<and> la_cost a = adj_cost e) \<and>
    (\<forall>l a. bt_get (cp_adjacencies s) l = Some a \<longrightarrow> la_peer a = adj_peer e \<longrightarrow> adj_cost e \<le> la_cost a)"
proof -
  let ?C = "la_cost ` {a \<in> set (bt_values (cp_adjacencies s)). la_peer a = adj_peer e}"
  have mem: "c \<in> ?C \<longleftrightarrow> (\<exists>l a. bt_get (cp_adjacencies s) l = Some a \<and> la_peer a = adj_peer e \<and> la_cost a = c)" for c
    by (force simp: bt_values_iff)
  have "e \<in> set (lsa_adjacencies (own_lsa s)) \<longleftrightarrow> bt_get (best_by_peer s) (adj_peer e) = Some (adj_cost e)"
    by (force simp: own_lsa_def bt_entries_iff intro: rev_image_eqI [of "(adj_peer e, adj_cost e)"])
  also have "\<dots> \<longleftrightarrow> ?C \<noteq> {} \<and> Min ?C = adj_cost e"
    unfolding best_by_peer_def fold_best_by_peer by simp
  also have "\<dots> \<longleftrightarrow> adj_cost e \<in> ?C \<and> (\<forall>c \<in> ?C. adj_cost e \<le> c)"
    by (rule Min_iff) simp
  finally show ?thesis unfolding Ball_def mem by blast
qed

lemma own_lsa_peers_distinct: "distinct (map adj_peer (lsa_adjacencies (own_lsa s)))"
proof -
  have "map adj_peer (lsa_adjacencies (own_lsa s)) = map fst (bt_entries (best_by_peer s))"
    by (simp add: own_lsa_def o_def case_prod_beta)
  then show ?thesis by simp
qed

lemma links_cover_own:
  assumes "lsdb_inv s"
  shows "links_cover (bidirectional_graph (cp_lsdb s)) (cp_me s) (cp_adjacencies s)"
  unfolding links_cover_def list_all_iff
proof
  fix e assume "e \<in> set (edges_of (bidirectional_graph (cp_lsdb s)) (cp_me s))"
  then obtain x a where "bt_get (cp_lsdb s) (cp_me s) = Some x" "entry_active x = Some a"
    "e \<in> set (lsa_adjacencies (msg_lsa (al_message a)))"
    unfolding edges_of_graph_iff by blast
  then have "e \<in> set (lsa_adjacencies (own_lsa s))" using assms by (auto simp: lsdb_inv_def own_ok_def)
  then show "best_link_to (cp_adjacencies s) (adj_peer e) \<noteq> None"
    unfolding own_lsa_adjacency best_link_to_None by blast
qed

section \<open>Properties\<close>

text \<open>A reachable state in which a node with one link knows a neighbour.\<close>

definition sample_start :: control_plane where
  "sample_start = new_unsecured_with_seq 1 0 7"

definition sample_neighbour_lsa :: lsa where
  "sample_neighbour_lsa =
    \<lparr>lsa_origin = 2, lsa_epoch = 0, lsa_seq = 4, lsa_ttl_sec = 300,
     lsa_adjacencies = [\<lparr>adj_peer = 1, adj_cost = 5\<rparr>], lsa_topics = []\<rparr>"

definition sample_events :: "(mono_time \<times> control_event) list" where
  "sample_events =
    [(1000, CE_LinkUp 10 2 5), (1010, CE_LinkUp 11 3 9),
     (1020, CE_Frame 10 (CF_Lsa (unsecured_sign sample_neighbour_lsa)))]"

definition sample_state :: control_plane where
  "sample_state = (case run_admissible control_handle (\<lambda>s e. counters_left s) sample_events sample_start of
     None \<Rightarrow> sample_start | Some s \<Rightarrow> s)"

lemma sample_start_inv: "control_inv sample_start"
  by (simp add: sample_start_def new_unsecured_with_seq_def with_auth_inv unsecured.lsa_auth_axioms)

lemma sample_reachable: "control.reachable sample_start sample_state"
proof -
  have "run_admissible control_handle (\<lambda>s e. counters_left s) sample_events sample_start \<noteq> None" by code_simp
  then show ?thesis
    by (auto simp: sample_state_def intro: control.run_admissible_reachable [of sample_events])
qed

lemma sample_state_inv: "control_inv sample_state"
  by (rule control.reachable_inv [OF sample_reachable sample_start_inv])

lemma reachable_identity:
  "control.reachable s0 s \<Longrightarrow> control_inv s0 \<Longrightarrow> same_identity s0 s"
proof (induction rule: control.reachable.induct)
  case (next_state s e now as s')
  then have "control_inv s" using control.reachable_inv by blast
  then show ?case
    using control_refines_lsdb [of s now e as s'] next_state by (simp add: same_identity_def)
qed (simp add: same_identity_def)

lemma sample_identity:
  "cp_me sample_state = 1" "cp_signer sample_state = unsecured_sign" "cp_verifier sample_state = unsecured_verify"
  using reachable_identity [OF sample_reachable sample_start_inv]
  by (simp_all add: same_identity_def sample_start_def new_unsecured_with_seq_def with_auth_and_seq_def)

lemma sample_counters: "counters_left sample_state"
  by code_simp

lemma sample_adjacencies:
  "cp_adjacencies sample_state = bt_collect [(10, \<lparr>la_peer = 2, la_cost = 5\<rparr>), (11, \<lparr>la_peer = 3, la_cost = 9\<rparr>)]"
  by code_simp

lemma sample_lsdb:
  "cp_lsdb sample_state = bt_collect
    [(1, fresh_entry 1010 (unsecured_sign
        \<lparr>lsa_origin = 1, lsa_epoch = 0, lsa_seq = 9, lsa_ttl_sec = 300,
         lsa_adjacencies = [\<lparr>adj_peer = 2, adj_cost = 5\<rparr>, \<lparr>adj_peer = 3, adj_cost = 9\<rparr>], lsa_topics = []\<rparr>)),
     (2, fresh_entry 1020 (unsecured_sign sample_neighbour_lsa))]"
  by code_simp

lemmas sample_facts = sample_adjacencies sample_lsdb sample_identity

text \<open>
C17: The control plane is safe on every reachable state. From a fresh control plane whose signer and
verifier fit together, and as long as its three 64-bit counters are not exhausted, the link-state
database never exceeds its bound of 1000 entries, and no event makes the handler panic; in
particular the own LSA always fits in the database.
\<close>

theorem control_safe:
  assumes "lsa_auth signer verifier"
    and "control.reachable (with_auth_and_seq me epoch last_seq signer verifier) s"
  shows "bt_len (cp_lsdb s) \<le> MAX_LSDB_ENTRIES \<and>
    (counters_left s \<longrightarrow> (\<exists>as s'. control_handle now e s = Inr (as, s')))"
proof -
  have "control_inv s" using control.reachable_inv [OF assms(2)] with_auth_inv [OF assms(1)] by blast
  moreover from this have "bt_len (cp_lsdb s) \<le> MAX_LSDB_ENTRIES" by (simp add: control_inv_def lsdb_inv_def)
  ultimately show ?thesis using control_step by blast
qed

theorem control_safe_witness:
  "bt_len (cp_lsdb sample_state) = 2 \<and> bt_len (cp_lsdb sample_state) \<le> MAX_LSDB_ENTRIES \<and>
    (\<exists>as s'. control_handle 2000 (CE_LinkDown 10) sample_state = Inr (as, s'))"
proof -
  have "control.reachable (with_auth_and_seq 1 0 7 unsecured_sign unsecured_verify) sample_state"
    using sample_reachable by (simp add: sample_start_def new_unsecured_with_seq_def)
  note safe = control_safe [OF unsecured.lsa_auth_axioms this, of 2000 "CE_LinkDown 10"]
  have "bt_len (cp_lsdb sample_state) = 2" unfolding sample_facts by code_simp
  then show ?thesis using safe sample_counters by simp
qed

text \<open>
C8: The event handler refines the abstract database machine: every event either leaves the database
alone, or replaces the own entry by a freshly originated one with the next sequence number, or stores
an LSA of another node that arrived on a local link, is valid, verified and strictly newer than the
stored version, or turns an entry whose life time has passed into a tombstone on its own timer.
\<close>

theorem control_refines_lsdb_machine:
  assumes "control_inv s" and "counters_left s" and "control_handle now e s = Inr (as, s')"
  shows "lsdb_step s now e s' \<and> cp_me s' = cp_me s \<and> cp_epoch s' = cp_epoch s"
  using control_refines_lsdb [OF assms] by (simp add: same_identity_def)

theorem control_refines_lsdb_machine_witness:
  "\<exists>as s'. control_handle 2000 (CE_LinkDown 10) sample_state = Inr (as, s') \<and>
    lsdb_step sample_state 2000 (CE_LinkDown 10) s'"
proof -
  obtain as s' where run: "control_handle 2000 (CE_LinkDown 10) sample_state = Inr (as, s')"
    using control_step [OF sample_state_inv sample_counters] by blast
  show ?thesis using control_refines_lsdb_machine [OF sample_state_inv sample_counters run] run by blast
qed

lemma own_version:
  "control_inv s \<Longrightarrow> bt_get (cp_lsdb s) (cp_me s) = Some x \<Longrightarrow> le_version x = (cp_epoch s, cp_my_seq s)"
  by (auto simp: control_inv_def lsdb_inv_def own_ok_def)

lemma own_entry_version:
  "control_inv s \<Longrightarrow> le_version (own_entry now s) = (cp_epoch s, cp_my_seq s)"
  using lsa_auth.sign_lsa by (auto simp: control_inv_def lsdb_inv_def own_entry_def)

lemma lsdb_monotone_step:
  assumes "control_inv s" and "counters_left s" and "control_handle now e s = Inr (as, s')"
    and "bt_get (cp_lsdb s) origin = Some x"
  shows "\<exists>x'. bt_get (cp_lsdb s') origin = Some x' \<and> le_version x \<le> le_version x' \<and>
    (le_version x' = le_version x \<longrightarrow> x' = x \<or> x' = x\<lparr>le_state := LS_Tombstone\<rparr>)"
proof -
  have inv': "control_inv s'" by (rule control.step_inv [OF assms(1-3)])
  from control_refines_lsdb [OF assms(1-3)] have step: "lsdb_step s now e s'" and same: "same_identity s s'" by auto
  from step show ?thesis
  proof (cases rule: lsdb_step.cases)
    case originate
    have "cp_epoch s' = cp_epoch s" using same by (simp add: same_identity_def)
    then show ?thesis
      using originate assms(4) own_version [OF assms(1)] own_entry_version [OF inv', of now]
        word_less_succ [OF originate(1)]
      by (cases "origin = cp_me s") auto
  next
    case (learn l m)
    then show ?thesis
      using assms(4) by (cases "origin = lsa_origin (msg_lsa m)") (auto simp: is_newer_def)
  qed (use assms(4) in auto)
qed

text \<open>
C18: The database only moves forward. No entry is ever removed, its version never decreases, and while
the version stays the same the entry either stays as it is or becomes a tombstone; in particular an
expired LSA cannot be revived by an LSA that is not strictly newer.
\<close>

theorem lsdb_monotone:
  assumes "control_inv s" and "counters_left s" and "control_handle now e s = Inr (as, s')"
    and "bt_get (cp_lsdb s) origin = Some x"
  shows "\<exists>x'. bt_get (cp_lsdb s') origin = Some x' \<and> le_version x \<le> le_version x' \<and>
    (le_version x' = le_version x \<longrightarrow> x' = x \<or> x' = x\<lparr>le_state := LS_Tombstone\<rparr>)"
  by (rule lsdb_monotone_step [OF assms])

theorem lsdb_monotone_witness:
  "\<exists>as s' x x'. control_handle 301010 (CE_Timer (CT_LsaExpire 2 0 4)) sample_state = Inr (as, s') \<and>
    bt_get (cp_lsdb sample_state) 2 = Some x \<and> bt_get (cp_lsdb s') 2 = Some x' \<and> le_version x \<le> le_version x'"
proof -
  let ?run = "control_handle 301010 (CE_Timer (CT_LsaExpire 2 0 4)) sample_state"
  obtain as s' where run: "?run = Inr (as, s')" using control_step [OF sample_state_inv sample_counters] by blast
  have "bt_get (cp_lsdb sample_state) 2 \<noteq> None" unfolding sample_facts by code_simp
  then obtain x where x: "bt_get (cp_lsdb sample_state) 2 = Some x" by blast
  show ?thesis using lsdb_monotone [OF sample_state_inv sample_counters run x] run x by blast
qed

text \<open>
C19: An LSA lives exactly until its life time has passed. An active entry becomes a tombstone in a step
if and only if the event is the expiry timer of its own version and the clock has reached the time
of its receipt plus its time to live; timers of superseded versions and early timers do nothing to it.
\<close>

theorem lsa_expiry_exact:
  assumes "control_inv s" and "counters_left s" and "control_handle now e s = Inr (as, s')"
    and "bt_get (cp_lsdb s) origin = Some x" and "entry_active x = Some a"
  shows "(\<exists>x'. bt_get (cp_lsdb s') origin = Some x' \<and> entry_active x' = None) \<longleftrightarrow>
    e = CE_Timer (CT_LsaExpire origin (fst (le_version x)) (snd (le_version x))) \<and>
    sat_add (al_received_at a) (ttl_ms (msg_lsa (al_message a))) \<le> now"
    (is "?dead \<longleftrightarrow> ?timer \<and> ?due")
proof -
  have at: "al_expires_at a = sat_add (al_received_at a) (ttl_ms (msg_lsa (al_message a)))"
    using assms(1,4,5) by (fastforce simp: control_inv_def lsdb_inv_def entry_ok_def)
  have "?dead \<Longrightarrow> ?timer \<and> ?due"
    using control_refines_lsdb [OF assms(1-3), THEN conjunct1] assms(4,5) at
    by (cases rule: lsdb_step.cases) (auto simp: own_entry_def split: if_splits)
  moreover have ?dead if "?timer" "?due"
  proof -
    have "mark_spf_dirty now (s\<lparr>cp_lsdb := bt_insert origin (x\<lparr>le_state := LS_Tombstone\<rparr>) (cp_lsdb s)\<rparr>) = Inr (as, s')"
      using assms(3-5) that leD [of "al_expires_at a" now] at by (simp add: handle_expire_timer_def)
    from spf_fields_only_eqs(6) [OF mark_spf_dirty_fields [OF this]] show ?dead by simp
  qed
  ultimately show ?thesis by blast
qed

theorem lsa_expiry_exact_witness:
  "\<exists>as s' x'. control_handle 301020 (CE_Timer (CT_LsaExpire 2 0 4)) sample_state = Inr (as, s') \<and>
    bt_get (cp_lsdb s') 2 = Some x' \<and> entry_active x' = None"
proof -
  let ?x = "bt_get (cp_lsdb sample_state) 2"
  obtain as s' where run: "control_handle 301020 (CE_Timer (CT_LsaExpire 2 0 4)) sample_state = Inr (as, s')"
    using control_step [OF sample_state_inv sample_counters] by blast
  have "?x = Some (fresh_entry 1020 (unsecured_sign sample_neighbour_lsa))" unfolding sample_facts by code_simp
  from lsa_expiry_exact [OF sample_state_inv sample_counters run this entry_active_fresh]
  have "\<exists>x'. bt_get (cp_lsdb s') 2 = Some x' \<and> entry_active x' = None"
    by (simp add: lsa_version_def sample_neighbour_lsa_def unsecured.sign_lsa ttl_ms_def sat_mul_def sat_add_def)
  then show ?thesis using run by blast
qed

lemma reply_newer_cases:
  "reply_newer l origin v s = [] \<or>
    (\<exists>x a. reply_newer l origin v s = [CA_Send l (CF_Lsa (al_message a))] \<and> bt_get (cp_lsdb s) origin = Some x \<and>
      entry_active x = Some a \<and> v < le_version x)"
  by (simp add: reply_newer_def send_lsa_def del: split_paired_Ex split: option.split)

lemma mark_spf_dirty_actions:
  assumes "mark_spf_dirty now s = Inr (dirty, s')" and "a \<in> set dirty"
  shows "\<exists>g at. a = CA_SetTimer (CT_SpfHold g) at"
  using assms by (auto simp: mark_spf_dirty_def Let_def res_simps split: if_splits)

lemma flood_except:
  "flood m (Some l) s = map (\<lambda>k. CA_Send k (CF_Lsa m)) (remove1 l (bt_keys (cp_adjacencies s)))"
proof -
  have "filter (\<lambda>k. Some k \<noteq> Some l) (bt_keys (cp_adjacencies s)) = removeAll l (bt_keys (cp_adjacencies s))"
    unfolding removeAll_filter_not_eq by (rule filter_cong) auto
  then show ?thesis by (simp add: flood_def distinct_remove1_removeAll)
qed

text \<open>
C20: Flooding. An LSA that arrives on a local link, is valid, verified, of another origin, newer than the
stored version and fits in the database is stored with the time of its receipt and sent exactly once
on every local link except the one it came from; its expiry timer is set, and a route computation
is pending afterwards.
\<close>

theorem lsa_flooding:
  assumes "control_inv s" and "counters_left s" and "bt_contains (cp_adjacencies s) l"
    and "valid_lsa (msg_lsa m)" and "cp_verifier s m"
    and "lsa_origin (msg_lsa m) \<noteq> cp_me s" and "is_newer (msg_lsa m) s"
    and "bt_contains (cp_lsdb s) (lsa_origin (msg_lsa m)) \<or> bt_len (cp_lsdb s) < MAX_LSDB_ENTRIES"
  shows "\<exists>dirty s'. control_handle now (CE_Frame l (CF_Lsa m)) s =
      Inr (map (\<lambda>k. CA_Send k (CF_Lsa m)) (remove1 l (bt_keys (cp_adjacencies s))) @
           CA_SetTimer (CT_LsaExpire (lsa_origin (msg_lsa m)) (lsa_epoch (msg_lsa m)) (lsa_seq (msg_lsa m)))
             (sat_add now (ttl_ms (msg_lsa m))) # dirty, s') \<and>
    (\<forall>a \<in> set dirty. \<exists>g at. a = CA_SetTimer (CT_SpfHold g) at) \<and>
    cp_lsdb s' = bt_insert (lsa_origin (msg_lsa m)) (fresh_entry now m) (cp_lsdb s) \<and> cp_pending_spf s' \<noteq> None"
proof -
  let ?t = "s\<lparr>cp_lsdb := bt_insert (lsa_origin (msg_lsa m)) (fresh_entry now m) (cp_lsdb s)\<rparr>"
  have inst: "install m now s = Some (CA_SetTimer (CT_LsaExpire (lsa_origin (msg_lsa m)) (lsa_epoch (msg_lsa m))
      (lsa_seq (msg_lsa m))) (sat_add now (ttl_ms (msg_lsa m))), ?t)"
    using assms(8) by (auto simp: install_eq bt_contains_def)
  have inv: "lsdb_inv ?t"
    using received_entry_inv [of s m l now] assms(1,3,4,6,8) by (auto simp: control_inv_def bt_contains_def)
  have ready: "spf_ready ?t" using control_inv_ready [OF assms(1,2)] by simp
  obtain dirty s' where d: "mark_spf_dirty now ?t = Inr (dirty, s')" "spf_fields_only ?t s'"
    and "control_inv s'" and p: "cp_pending_spf s' \<noteq> None"
    by (rule mark_spf_dirty_step [OF ready inv])
  have "\<forall>a \<in> set dirty. \<exists>g at. a = CA_SetTimer (CT_SpfHold g) at"
    using mark_spf_dirty_actions [OF d(1)] by blast
  moreover have "flood m (Some l) ?t = map (\<lambda>k. CA_Send k (CF_Lsa m)) (remove1 l (bt_keys (cp_adjacencies s)))"
    by (simp add: flood_except)
  ultimately show ?thesis
    using assms(3-7) inst d p spf_fields_only_eqs(6) [OF d(2)]
    by (intro exI [of _ dirty] exI [of _ s']) (simp add: receive_lsa_def)
qed

definition sample_newer_lsa :: lsa_message where
  "sample_newer_lsa = unsecured_sign (sample_neighbour_lsa\<lparr>lsa_seq := 5\<rparr>)"

theorem lsa_flooding_witness:
  "\<exists>rest s'. control_handle 2000 (CE_Frame 10 (CF_Lsa sample_newer_lsa)) sample_state =
      Inr (CA_Send 11 (CF_Lsa sample_newer_lsa) # rest, s') \<and> cp_pending_spf s' \<noteq> None"
proof -
  have adj: "bt_contains (cp_adjacencies sample_state) 10" unfolding sample_facts by code_simp
  have valid: "valid_lsa (msg_lsa sample_newer_lsa)" by code_simp
  have verified: "cp_verifier sample_state sample_newer_lsa" unfolding sample_facts by code_simp
  have other: "lsa_origin (msg_lsa sample_newer_lsa) \<noteq> cp_me sample_state" unfolding sample_facts by code_simp
  have newer: "is_newer (msg_lsa sample_newer_lsa) sample_state"
    unfolding is_newer_def sample_facts by code_simp
  have room: "bt_contains (cp_lsdb sample_state) (lsa_origin (msg_lsa sample_newer_lsa)) \<or>
      bt_len (cp_lsdb sample_state) < MAX_LSDB_ENTRIES" unfolding sample_facts by code_simp
  have keys: "remove1 10 (bt_keys (cp_adjacencies sample_state)) = [11]" unfolding sample_facts by code_simp
  show ?thesis
    using lsa_flooding [OF sample_state_inv sample_counters adj valid verified other newer room, of 2000]
    unfolding keys by auto
qed

text \<open>
Everything else is ignored. An LSA that comes from an unknown link, is invalid or unverified, claims
the node's own origin, or is not newer than the stored version changes no state and is never
flooded; the only possible action is one reply on the same link carrying the stored active LSA of
that origin, and only if that one is strictly newer.
\<close>

theorem lsa_ignored:
  assumes "\<not> bt_contains (cp_adjacencies s) l \<or> \<not> valid_lsa (msg_lsa m) \<or> \<not> cp_verifier s m \<or>
    lsa_origin (msg_lsa m) = cp_me s \<or> \<not> is_newer (msg_lsa m) s"
  shows "\<exists>as. control_handle now (CE_Frame l (CF_Lsa m)) s = Inr (as, s) \<and> length as \<le> 1 \<and>
    (\<forall>act \<in> set as. \<exists>x a. act = CA_Send l (CF_Lsa (al_message a)) \<and>
       bt_get (cp_lsdb s) (lsa_origin (msg_lsa m)) = Some x \<and> entry_active x = Some a \<and>
       lsa_version (msg_lsa m) < le_version x)"
proof -
  let ?r = "reply_newer l (lsa_origin (msg_lsa m)) (lsa_version (msg_lsa m)) s"
  show ?thesis
  proof (cases "bt_contains (cp_adjacencies s) l \<and> valid_lsa (msg_lsa m) \<and> cp_verifier s m")
    case True
    then have "control_handle now (CE_Frame l (CF_Lsa m)) s = Inr (?r, s)"
      using assms by (auto simp: receive_lsa_def)
    then show ?thesis
      using reply_newer_cases [of l "lsa_origin (msg_lsa m)" "lsa_version (msg_lsa m)" s]
      by (intro exI [of _ ?r]) fastforce
  qed (auto simp: receive_lsa_def)
qed

theorem lsa_ignored_witness:
  "\<exists>as. control_handle 2000 (CE_Frame 10 (CF_Lsa (unsecured_sign (sample_neighbour_lsa\<lparr>lsa_seq := 3\<rparr>)))) sample_state =
    Inr (as, sample_state) \<and> length as \<le> 1"
proof -
  let ?m = "unsecured_sign (sample_neighbour_lsa\<lparr>lsa_seq := 3\<rparr>)"
  have "\<not> is_newer (msg_lsa ?m) sample_state" unfolding is_newer_def sample_facts by code_simp
  then show ?thesis using lsa_ignored [of sample_state 10 ?m 2000] by blast
qed

lemma originate_effects:
  assumes "originate_pre t" and "cp_my_seq t \<noteq> - 1" and run: "originate_lsa now t = Inr (as, s')"
  shows "as \<noteq> []" and "hd as = CA_PersistSeq (cp_my_seq s')"
    and "bt_contains (cp_adjacencies s') l \<Longrightarrow> CA_Send l (CF_Lsa (cp_signer s' (own_lsa s'))) \<in> set as"
    and "CA_SetTimer (CT_LsaRefresh (cp_epoch s') (cp_my_seq s')) (sat_add now 60000) \<in> set as"
proof -
  let ?t = "t\<lparr>cp_my_seq := cp_my_seq t + 1\<rparr>"
  obtain dirty s1 where eq: "originate_lsa now t =
      Inr ([CA_PersistSeq (cp_my_seq t + 1)] @ flood (cp_signer t (own_lsa ?t)) None t @
       [CA_SetTimer (CT_LsaExpire (cp_me t) (cp_epoch t) (cp_my_seq t + 1)) (sat_add now 300000),
        CA_SetTimer (CT_LsaRefresh (cp_epoch t) (cp_my_seq t + 1)) (sat_add now 60000)] @ dirty, s1)"
    and "spf_fields_only (?t\<lparr>cp_lsdb := bt_insert (cp_me t) (own_entry now ?t) (cp_lsdb t)\<rparr>) s1"
    "control_inv s1" "cp_pending_spf s1 \<noteq> None"
    by (rule originate_lsa_eq [OF assms(1,2)])
  then have as: "as = [CA_PersistSeq (cp_my_seq t + 1)] @ flood (cp_signer t (own_lsa ?t)) None t @
       [CA_SetTimer (CT_LsaExpire (cp_me t) (cp_epoch t) (cp_my_seq t + 1)) (sat_add now 300000),
        CA_SetTimer (CT_LsaRefresh (cp_epoch t) (cp_my_seq t + 1)) (sat_add now 60000)] @ dirty"
    using run by simp
  note st = originate_step [OF assms]
  have own: "own_lsa s' = own_lsa ?t" by (rule own_lsa_cong) (use st in \<open>simp_all add: same_identity_def\<close>)
  show "as \<noteq> []" "hd as = CA_PersistSeq (cp_my_seq s')"
    "CA_SetTimer (CT_LsaRefresh (cp_epoch s') (cp_my_seq s')) (sat_add now 60000) \<in> set as"
    using as st by (simp_all add: same_identity_def)
  assume "bt_contains (cp_adjacencies s') l"
  then show "CA_Send l (CF_Lsa (cp_signer s' (own_lsa s'))) \<in> set as"
    using as st own by (simp add: same_identity_def flood_def bt_contains_iff_keys)
qed

lemma seq_change_originates:
  assumes inv: "control_inv s" and c: "counters_left s" and run: "control_handle now e s = Inr (as, s')"
    and seq: "cp_my_seq s' \<noteq> cp_my_seq s"
  shows "\<exists>t as0 rest. originate_pre t \<and> cp_my_seq t = cp_my_seq s \<and> originate_lsa now t = Inr (as0, s') \<and> as = as0 @ rest"
proof -
  have pre: "originate_pre s"
    using lsdb_inv_pre control_inv_ready [OF inv c] inv by (simp add: control_inv_def)
  show ?thesis
  proof (cases e)
    case (CE_LinkUp l peer cost)
    let ?t = "s\<lparr>cp_adjacencies := bt_insert l \<lparr>la_peer = peer, la_cost = cost\<rparr> (cp_adjacencies s)\<rparr>"
    obtain as0 where "originate_lsa now ?t = Inr (as0, s')" "as = as0 @ [send_digest l s', next_digest_timer now l]"
      using run CE_LinkUp by (auto simp: res_simps)
    moreover have "originate_pre ?t" "cp_my_seq ?t = cp_my_seq s" using pre by simp_all
    ultimately show ?thesis by blast
  next
    case (CE_LinkDown l)
    let ?t = "s\<lparr>cp_adjacencies := bt_remove l (cp_adjacencies s)\<rparr>"
    show ?thesis using CE_LinkDown run seq pre by (intro exI [of _ ?t]) (auto split: if_splits)
  next
    case (CE_LocalTopicAdsChanged a)
    let ?t = "s\<lparr>cp_local_topic_ads := sort a\<rparr>"
    have "valid_topic_ads (sort a) \<Longrightarrow> originate_pre ?t" using pre by (simp add: originate_pre_def)
    then show ?thesis
      using CE_LocalTopicAdsChanged run seq by (intro exI [of _ ?t]) (auto simp: Let_def split: if_splits)
  next
    case (CE_Frame l f)
    then show ?thesis using run seq receive_lsa_refines [of now l _ s as s'] by (cases f) (auto simp: res_simps)
  next
    case (CE_Timer tm)
    then show ?thesis
      using run seq pre handle_spf_refines [of now _ s as s' e] handle_expire_refines [of now _ _ _ s as s']
      by (cases tm) (auto simp: handle_refresh_timer_def Let_def split: option.splits if_splits)
  qed
qed

text \<open>
C21: Origination. Whenever an event advances the own sequence number, it advances by one, the first action
persists the new number before anything is sent, the new LSA goes to every local link, it lists every
peer of a local link exactly once with the least cost of its links, and it carries the current
topic advertisements; the refresh timer is set to a fifth of the life time.
\<close>

theorem lsa_origination:
  assumes "control_inv s" and "counters_left s" and "control_handle now e s = Inr (as, s')"
    and "cp_my_seq s' \<noteq> cp_my_seq s"
  shows "cp_my_seq s' = cp_my_seq s + 1 \<and> hd as = CA_PersistSeq (cp_my_seq s') \<and>
    (\<exists>m. msg_lsa m = own_lsa s' \<and> (\<forall>l. bt_contains (cp_adjacencies s') l \<longrightarrow> CA_Send l (CF_Lsa m) \<in> set as)) \<and>
    CA_SetTimer (CT_LsaRefresh (cp_epoch s') (cp_my_seq s')) (sat_add now 60000) \<in> set as \<and>
    distinct (map adj_peer (lsa_adjacencies (own_lsa s'))) \<and>
    (\<forall>e. e \<in> set (lsa_adjacencies (own_lsa s')) \<longleftrightarrow>
      (\<exists>l a. bt_get (cp_adjacencies s') l = Some a \<and> la_peer a = adj_peer e \<and> la_cost a = adj_cost e) \<and>
      (\<forall>l a. bt_get (cp_adjacencies s') l = Some a \<longrightarrow> la_peer a = adj_peer e \<longrightarrow> adj_cost e \<le> la_cost a))"
proof -
  obtain t as0 rest where t: "originate_pre t" "cp_my_seq t = cp_my_seq s" "originate_lsa now t = Inr (as0, s')"
    "as = as0 @ rest" using seq_change_originates [OF assms] by blast
  have seq: "cp_my_seq t \<noteq> - 1" using assms(2) t(2) by (simp add: counters_left_def)
  note eff = originate_effects [OF t(1) seq t(3)]
  have "msg_lsa (cp_signer s' (own_lsa s')) = own_lsa s'"
    using control.step_inv [OF assms(1-3)] lsa_auth.sign_lsa by (auto simp: control_inv_def lsdb_inv_def)
  moreover have "cp_my_seq s' = cp_my_seq s + 1" using originate_step(1) [OF t(1) seq t(3)] t(2) by simp
  moreover have "hd as = CA_PersistSeq (cp_my_seq s')" using eff(1,2) t(4) by simp
  moreover have "\<forall>l. bt_contains (cp_adjacencies s') l \<longrightarrow> CA_Send l (CF_Lsa (cp_signer s' (own_lsa s'))) \<in> set as"
    "CA_SetTimer (CT_LsaRefresh (cp_epoch s') (cp_my_seq s')) (sat_add now 60000) \<in> set as"
    using eff(3,4) t(4) by auto
  ultimately show ?thesis using own_lsa_peers_distinct own_lsa_adjacency by blast
qed

theorem lsa_origination_witness:
  "\<exists>as s'. control_handle 2000 (CE_LinkDown 10) sample_state = Inr (as, s') \<and>
    cp_my_seq s' = cp_my_seq sample_state + 1 \<and> hd as = CA_PersistSeq (cp_my_seq s')"
proof -
  obtain as s' where run: "control_handle 2000 (CE_LinkDown 10) sample_state = Inr (as, s')"
    using control_step [OF sample_state_inv sample_counters] by blast
  have "cp_my_seq (snd (projr (control_handle 2000 (CE_LinkDown 10) sample_state))) \<noteq> cp_my_seq sample_state"
    by code_simp
  then have "cp_my_seq s' \<noteq> cp_my_seq sample_state" using run by simp
  from lsa_origination [OF sample_state_inv sample_counters run this] show ?thesis using run by blast
qed

end
