(* ===== verification/ControlTimers.thy ===== *)
theory ControlTimers
  imports ControlProps
begin

text \<open>
  Crate \<open>mb-control\<close>, what the driver has to know of the actions: which timers the state of the control plane relies
  on and that the actions arm them, that an origination is preceded by the request to persist its
  sequence number, and that the published topic advertisements are well formed.
\<close>

section \<open>Timers\<close>

text \<open>A pending computation, every active LSA, and the refresh of the own LSA rely on a timer at a given time.\<close>

definition spf_deadlines :: "control_plane \<Rightarrow> (control_timer \<times> mono_time) set" where
  "spf_deadlines s = {(CT_SpfHold (ps_generation p), ps_at p) | p. cp_pending_spf s = Some p}"

definition lsa_deadlines :: "control_plane \<Rightarrow> (control_timer \<times> mono_time) set" where
  "lsa_deadlines s = {(CT_LsaExpire origin (fst (le_version x)) (snd (le_version x)), al_expires_at a) | origin x a.
     bt_get (cp_lsdb s) origin = Some x \<and> entry_active x = Some a}"

definition deadlines :: "control_plane \<Rightarrow> (control_timer \<times> mono_time) set" where
  "deadlines s = spf_deadlines s \<union> lsa_deadlines s"

definition armed :: "control_action list \<Rightarrow> (control_timer \<times> mono_time) set" where
  "armed as = {(t, at). CA_SetTimer t at \<in> set as}"

fun fired :: "control_event \<Rightarrow> (control_timer \<times> mono_time) set" where
  "fired (CE_Timer t) = {t} \<times> UNIV"
| "fired _ = {}"

lemma armed_append [simp]: "armed (as @ bs) = armed as \<union> armed bs"
  by (auto simp: armed_def)

lemma armed_Nil [simp]: "armed [] = {}"
  by (simp add: armed_def)

lemma deadlines_frame [simp]:
  "deadlines (s\<lparr>cp_adjacencies := a\<rparr>) = deadlines s" "deadlines (s\<lparr>cp_my_seq := n\<rparr>) = deadlines s"
  "deadlines (s\<lparr>cp_local_topic_ads := ads\<rparr>) = deadlines s" "deadlines (s\<lparr>cp_routes := r\<rparr>) = deadlines s"
  "deadlines (s\<lparr>cp_published_topic_ads := published\<rparr>) = deadlines s" "deadlines (s\<lparr>cp_spf_hold_ms := h\<rparr>) = deadlines s"
  by (simp_all add: deadlines_def spf_deadlines_def lsa_deadlines_def)

lemma lsa_deadlines_cong: "cp_lsdb s' = cp_lsdb s \<Longrightarrow> lsa_deadlines s' = lsa_deadlines s"
  by (simp add: lsa_deadlines_def)

definition entry_deadlines :: "node_id \<Rightarrow> lsdb_entry \<Rightarrow> (control_timer \<times> mono_time) set" where
  "entry_deadlines origin x = {CT_LsaExpire origin (fst (le_version x)) (snd (le_version x))} \<times> al_expires_at ` set_option (entry_active x)"

lemma lsa_deadlines_eq: "lsa_deadlines s = (\<Union>origin. \<Union>x \<in> set_option (bt_get (cp_lsdb s) origin). entry_deadlines origin x)"
  by (fastforce simp: lsa_deadlines_def entry_deadlines_def)

lemma lsa_deadlines_insert:
  "lsa_deadlines (s\<lparr>cp_lsdb := bt_insert origin x (cp_lsdb s)\<rparr>) \<subseteq> (lsa_deadlines s - {CT_LsaExpire origin ep sq | ep sq. True} \<times> UNIV) \<union> entry_deadlines origin x"
  by (auto simp: lsa_deadlines_eq entry_deadlines_def split: if_splits)

lemma mark_spf_dirty_deadlines:
  assumes "mark_spf_dirty now s = Inr (d, s')"
  shows "deadlines s' \<subseteq> deadlines s \<union> armed d"
proof -
  have "cp_lsdb s' = cp_lsdb s" using spf_fields_only_eqs [OF mark_spf_dirty_fields [OF assms]] by simp
  moreover have "spf_deadlines s' \<subseteq> spf_deadlines s \<union> armed d"
    using assms by (auto simp: mark_spf_dirty_def Let_def res_simps spf_deadlines_def armed_def split: if_splits)
  ultimately show ?thesis using lsa_deadlines_cong [of s' s] by (auto simp: deadlines_def)
qed

lemma install_deadlines:
  assumes "install m now s = Some (a, s')"
  shows "deadlines s' \<subseteq> deadlines s \<union> armed [a]"
proof -
  have s': "s' = s\<lparr>cp_lsdb := bt_insert (lsa_origin (msg_lsa m)) (fresh_entry now m) (cp_lsdb s)\<rparr>"
    and "entry_deadlines (lsa_origin (msg_lsa m)) (fresh_entry now m) = armed [a]"
    using assms by (auto simp: install_def Let_def fresh_entry_def entry_deadlines_def armed_def split: if_splits prod.splits)
  then show ?thesis using lsa_deadlines_insert [of "lsa_origin (msg_lsa m)" "fresh_entry now m" s]
    by (auto simp: deadlines_def spf_deadlines_def)
qed

lemma originate_shape:
  assumes "originate_lsa now s = Inr (as, s')"
  obtains m a t d where "install m now (s\<lparr>cp_my_seq := cp_my_seq s + 1\<rparr>) = Some (a, t)" "mark_spf_dirty now t = Inr (d, s')"
    "as = CA_PersistSeq (cp_my_seq s + 1) # flood m None t @ [a, next_refresh_timer now (msg_lsa m)] @ d"
proof -
  obtain seq a t d where r: "checked_add (cp_my_seq s) 1 = Some seq"
      "install (cp_signer s (own_lsa (s\<lparr>cp_my_seq := seq\<rparr>))) now (s\<lparr>cp_my_seq := seq\<rparr>) = Some (a, t)"
      "mark_spf_dirty now t = Inr (d, s')"
      "as = CA_PersistSeq (cp_my_seq t) # flood (cp_signer s (own_lsa (s\<lparr>cp_my_seq := seq\<rparr>))) None t @
        [a, next_refresh_timer now (msg_lsa (cp_signer s (own_lsa (s\<lparr>cp_my_seq := seq\<rparr>))))] @ d"
    using assms by (auto simp: originate_lsa_def Let_def res_simps)
  moreover have "seq = cp_my_seq s + 1" using r(1) by (simp add: checked_add_def split: if_splits)
  moreover have "cp_my_seq t = seq" using r(2) by (auto simp: install_def Let_def split: if_splits prod.splits)
  ultimately show thesis using that by blast
qed

lemma receive_lsa_shape:
  assumes "receive_lsa now l m s = Inr (as, s')" and "s' \<noteq> s"
  obtains a t d where "install m now s = Some (a, t)" "mark_spf_dirty now t = Inr (d, s')" "as = flood m (Some l) t @ [a] @ d"
  using assms that by (auto simp: receive_lsa_def Let_def res_simps split: if_splits option.splits)

lemma originate_deadlines:
  assumes "originate_lsa now s = Inr (as, s')"
  shows "deadlines s' \<subseteq> deadlines s \<union> armed as"
  using assms
proof (cases rule: originate_shape)
  case (1 m a t d)
  have "armed as = armed [CA_PersistSeq (cp_my_seq s + 1)] \<union> armed (flood m None t) \<union> armed [a] \<union>
      armed [next_refresh_timer now (msg_lsa m)] \<union> armed d"
    unfolding 1(3) by (auto simp: armed_def)
  then show ?thesis using install_deadlines [OF 1(1)] mark_spf_dirty_deadlines [OF 1(2)] by auto
qed

lemma receive_lsa_deadlines:
  assumes "receive_lsa now l m s = Inr (as, s')"
  shows "deadlines s' \<subseteq> deadlines s \<union> armed as"
proof (cases "s' = s")
  case False
  from assms this show ?thesis
  proof (cases rule: receive_lsa_shape)
    case (1 a t d)
    have "armed as = armed (flood m (Some l) t) \<union> armed [a] \<union> armed d" unfolding 1(3) by (auto simp: armed_def)
    then show ?thesis using install_deadlines [OF 1(1)] mark_spf_dirty_deadlines [OF 1(2)] by auto
  qed
qed auto

lemma tombstone_deadlines:
  "deadlines (s\<lparr>cp_lsdb := bt_insert origin (x\<lparr>le_state := LS_Tombstone\<rparr>) (cp_lsdb s)\<rparr>) \<subseteq>
    deadlines s - {CT_LsaExpire origin (fst (le_version x)) (snd (le_version x))} \<times> UNIV"
  using lsa_deadlines_insert [of origin "x\<lparr>le_state := LS_Tombstone\<rparr>" s]
  by (auto simp: deadlines_def spf_deadlines_def entry_deadlines_def)

lemma expire_deadlines:
  assumes "handle_expire_timer now origin ep sq s = Inr (as, s')"
  shows "deadlines s' \<subseteq> deadlines s - fired (CE_Timer (CT_LsaExpire origin ep sq)) \<union> armed as"
proof (cases "\<exists>x a. bt_get (cp_lsdb s) origin = Some x \<and> le_version x = (ep, sq) \<and> entry_active x = Some a")
  case True
  then obtain x a where x: "bt_get (cp_lsdb s) origin = Some x" "le_version x = (ep, sq)" "entry_active x = Some a" by blast
  show ?thesis
  proof (cases "now < al_expires_at a")
    case True
    then show ?thesis using assms x
      by (auto simp: handle_expire_timer_def armed_def deadlines_def spf_deadlines_def lsa_deadlines_def)
  next
    case False
    let ?t = "s\<lparr>cp_lsdb := bt_insert origin (x\<lparr>le_state := LS_Tombstone\<rparr>) (cp_lsdb s)\<rparr>"
    have "mark_spf_dirty now ?t = Inr (as, s')" using assms x False by (simp add: handle_expire_timer_def)
    from mark_spf_dirty_deadlines [OF this] tombstone_deadlines [of origin x s] x(2) show ?thesis by auto
  qed
next
  case False
  then have "s' = s" using assms by (auto simp: handle_expire_timer_def split: option.splits if_splits)
  then show ?thesis using False by (auto simp: deadlines_def spf_deadlines_def lsa_deadlines_def)
qed

lemma spf_timer_deadlines:
  assumes "handle_spf_timer now g s = Inr (as, s')"
  shows "deadlines s' \<subseteq> deadlines s - fired (CE_Timer (CT_SpfHold g)) \<union> armed as"
proof (cases "\<exists>p. cp_pending_spf s = Some p \<and> ps_generation p = g \<and> ps_at p \<le> now")
  case True
  then have "cp_pending_spf s' = None \<and> cp_lsdb s' = cp_lsdb s"
    using assms
    by (auto simp: handle_spf_timer_def recompute_routes_def recompute_topic_ads_eq Let_def res_simps
        split: option.splits if_splits)
  then show ?thesis by (auto simp: deadlines_def spf_deadlines_def lsa_deadlines_def)
qed (use assms in \<open>auto simp: handle_spf_timer_def deadlines_def spf_deadlines_def lsa_deadlines_def armed_def not_le
      split: option.splits if_splits\<close>)

lemma timers_not_deadlines:
  "(CT_Digest l, at) \<notin> deadlines s" "(CT_LsaRefresh ep sq, at) \<notin> deadlines s"
  by (auto simp: deadlines_def spf_deadlines_def lsa_deadlines_def)

text \<open>Every deadline of the new state was one before, and was not the one that fired, or is armed by the actions.\<close>

lemma control_handle_deadlines:
  assumes "control_handle now e s = Inr (as, s')"
  shows "deadlines s' \<subseteq> deadlines s - fired e \<union> armed as"
proof (cases e)
  case (CE_LinkUp l peer cost)
  then obtain as1 where "originate_lsa now (s\<lparr>cp_adjacencies := bt_insert l \<lparr>la_peer = peer, la_cost = cost\<rparr> (cp_adjacencies s)\<rparr>) = Inr (as1, s')"
      "as = as1 @ [send_digest l s', next_digest_timer now l]"
    using assms by (auto simp: res_simps)
  then show ?thesis using originate_deadlines CE_LinkUp by fastforce
next
  case (CE_LinkDown l)
  then show ?thesis using assms originate_deadlines [of now "s\<lparr>cp_adjacencies := bt_remove l (cp_adjacencies s)\<rparr>" as s']
    by (auto split: if_splits)
next
  case (CE_LocalTopicAdsChanged ads)
  then show ?thesis using assms originate_deadlines [of now "s\<lparr>cp_local_topic_ads := sort ads\<rparr>" as s']
    by (auto simp: Let_def split: if_splits)
next
  case (CE_Frame l f)
  then show ?thesis using assms receive_lsa_deadlines by (cases f) (auto simp: res_simps)
next
  case (CE_Timer t)
  show ?thesis
  proof (cases t)
    case (CT_LsaRefresh ep sq)
    then show ?thesis using assms CE_Timer originate_deadlines [of now s as s'] timers_not_deadlines
      by (fastforce simp: handle_refresh_timer_def Let_def split: if_splits)
  qed (use assms CE_Timer expire_deadlines spf_timer_deadlines timers_not_deadlines in \<open>auto split: if_splits\<close>)
qed

text \<open>The own LSA is refreshed after a fifth of its life time.\<close>

definition refresh_deadlines :: "control_plane \<Rightarrow> (control_timer \<times> mono_time) set" where
  "refresh_deadlines s = {(CT_LsaRefresh (fst (le_version x)) (snd (le_version x)),
      sat_add (al_received_at a) (ttl_ms (msg_lsa (al_message a)) div 5)) | x a.
    bt_get (cp_lsdb s) (cp_me s) = Some x \<and> entry_active x = Some a}"

lemma refresh_deadlines_cong:
  "bt_get (cp_lsdb s') (cp_me s') = bt_get (cp_lsdb s) (cp_me s) \<Longrightarrow> refresh_deadlines s' = refresh_deadlines s"
  by (simp add: refresh_deadlines_def)

lemma own_refresh_deadline:
  assumes "control_inv s" and "bt_get (cp_lsdb s) (cp_me s) = Some (own_entry now s)"
  shows "refresh_deadlines s = {(CT_LsaRefresh (cp_epoch s) (cp_my_seq s), sat_add now 60000)}"
proof -
  have "msg_lsa (cp_signer s (own_lsa s)) = own_lsa s"
    using assms(1) lsa_auth.sign_lsa by (auto simp: control_inv_def lsdb_inv_def)
  moreover have "ttl_ms (own_lsa s) = 300000" by (rule ttl_ms_default) (simp add: own_lsa_def)
  ultimately show ?thesis
    using assms(2) own_entry_version [OF assms(1), of now]
    by (auto simp: refresh_deadlines_def own_entry_def fresh_entry_def entry_active_def)
qed

lemma refresh_fires_current:
  assumes "control_inv s" and "counters_left s" and "control_handle now e s = Inr (as, s')"
    and "cp_my_seq s' = cp_my_seq s" and "d \<in> refresh_deadlines s"
  shows "d \<notin> fired e"
proof
  assume "d \<in> fired e"
  then obtain ep sq where e: "e = CE_Timer (CT_LsaRefresh ep sq)" "fst d = CT_LsaRefresh ep sq"
    using assms(5) by (cases e) (auto simp: refresh_deadlines_def)
  then have "originate_lsa now s = Inr (as, s')"
    using assms(3,5) by (auto simp: refresh_deadlines_def handle_refresh_timer_def)
  moreover have "originate_pre s" "cp_my_seq s \<noteq> - 1"
    using lsdb_inv_pre control_inv_ready [OF assms(1,2)] assms(1,2) by (simp_all add: control_inv_def counters_left_def)
  ultimately show False using originate_step(1) assms(4) by fastforce
qed

lemma control_handle_refresh:
  assumes inv: "control_inv s" and c: "counters_left s" and run: "control_handle now e s = Inr (as, s')"
  shows "refresh_deadlines s' \<subseteq> refresh_deadlines s - fired e \<union> armed as"
proof (cases "cp_my_seq s' = cp_my_seq s")
  case True
  from control_refines_lsdb [OF assms] have step: "lsdb_step s now e s'" and me: "cp_me s' = cp_me s"
    by (simp_all add: same_identity_def)
  from step have "refresh_deadlines s' \<subseteq> refresh_deadlines s"
    by (cases rule: lsdb_step.cases) (use True me in \<open>auto simp: refresh_deadlines_def split: if_splits\<close>)
  then show ?thesis using refresh_fires_current [OF assms True] by blast
next
  case False
  obtain t as0 rest where t: "originate_pre t" "cp_my_seq t = cp_my_seq s" "originate_lsa now t = Inr (as0, s')"
    "as = as0 @ rest" using seq_change_originates [OF assms False] by blast
  have seq: "cp_my_seq t \<noteq> - 1" using c t(2) by (simp add: counters_left_def)
  have "bt_get (cp_lsdb s') (cp_me s') = Some (own_entry now s')"
    using originate_step [OF t(1) seq t(3)] by (simp add: same_identity_def)
  from own_refresh_deadline [OF control.step_inv [OF assms] this] originate_effects(4) [OF t(1) seq t(3)] t(4)
  show ?thesis by (auto simp: armed_def)
qed

text \<open>Each adjacency has its digest timer.\<close>

lemma mark_spf_dirty_adjacencies: "mark_spf_dirty now s = Inr (d, s') \<Longrightarrow> cp_adjacencies s' = cp_adjacencies s"
  using spf_fields_only_eqs(4) mark_spf_dirty_fields by blast

lemma install_adjacencies: "install m now s = Some (a, s') \<Longrightarrow> cp_adjacencies s' = cp_adjacencies s"
  by (auto simp: install_eq split: if_splits)

lemma originate_adjacencies: "originate_lsa now s = Inr (as, s') \<Longrightarrow> cp_adjacencies s' = cp_adjacencies s"
  by (erule originate_shape) (auto dest!: mark_spf_dirty_adjacencies install_adjacencies)

lemma receive_lsa_adjacencies:
  assumes "receive_lsa now l m s = Inr (as, s')"
  shows "cp_adjacencies s' = cp_adjacencies s"
proof (cases "s' = s")
  case False
  from assms this show ?thesis
    by (rule receive_lsa_shape) (auto dest!: mark_spf_dirty_adjacencies install_adjacencies)
qed simp

lemma timer_adjacencies:
  assumes "control_handle now (CE_Timer t) s = Inr (as, s')"
  shows "cp_adjacencies s' = cp_adjacencies s"
  using assms
proof (cases t)
  case (CT_SpfHold g)
  then show ?thesis using assms
    by (auto simp: handle_spf_timer_def recompute_routes_def recompute_topic_ads_eq Let_def res_simps
        split: option.splits if_splits)
qed (auto simp: handle_refresh_timer_def handle_expire_timer_def Let_def originate_adjacencies
      split: if_splits option.splits dest: mark_spf_dirty_adjacencies)

lemma control_handle_digest:
  assumes "control_handle now e s = Inr (as, s')" and "bt_contains (cp_adjacencies s') l"
  shows "bt_contains (cp_adjacencies s) l \<and> (\<forall>at. (CT_Digest l, at) \<notin> fired e) \<or> (\<exists>at. (CT_Digest l, at) \<in> armed as)"
proof (cases e)
  case (CE_LinkUp k peer cost)
  then show ?thesis using assms originate_adjacencies
    by (fastforce simp: res_simps armed_def next_digest_timer_def split: if_splits)
next
  case (CE_LinkDown k)
  then show ?thesis using assms by (auto split: if_splits dest!: originate_adjacencies)
next
  case (CE_LocalTopicAdsChanged ads)
  then show ?thesis using assms by (auto simp: Let_def split: if_splits dest!: originate_adjacencies)
next
  case (CE_Frame k f)
  then show ?thesis using assms by (cases f) (auto simp: res_simps dest!: receive_lsa_adjacencies)
next
  case (CE_Timer tm)
  have adj: "bt_contains (cp_adjacencies s) l" using assms timer_adjacencies CE_Timer by metis
  show ?thesis
  proof (cases "tm = CT_Digest l")
    case True
    then have "as = [send_digest l s, next_digest_timer now l]"
      using assms(1) CE_Timer adj by (auto simp: handle_digest_timer_def)
    then show ?thesis by (auto simp: armed_def next_digest_timer_def)
  next
    case False
    then show ?thesis using adj CE_Timer by simp
  qed
qed

section \<open>Which actions an event causes\<close>

text \<open>Apart from the persistence of an own sequence number, which comes first, an event causes frames, timers and the
  publication of routes and of the advertisements of the database.\<close>

fun plain :: "control_plane \<Rightarrow> control_action \<Rightarrow> bool" where
  "plain s (CA_PersistSeq _) \<longleftrightarrow> False"
| "plain s (CA_PublishTopicAds ads) \<longleftrightarrow> ads = discovered_topic_ads s"
| "plain s _ \<longleftrightarrow> True"

lemma flood_plain: "list_all (plain s) (flood m except t)"
  by (auto simp: flood_def list_all_iff)

lemma mark_spf_dirty_plain: "mark_spf_dirty now t = Inr (d, t') \<Longrightarrow> list_all (plain s) d"
  using mark_spf_dirty_actions [of now t d t'] by (fastforce simp: list_all_iff)

lemma install_plain: "install m now t = Some (a, t') \<Longrightarrow> plain s a"
  by (auto simp: install_eq split: if_splits)

lemma originate_actions:
  assumes "originate_lsa now t = Inr (as, s')"
  shows "\<exists>rest. as = CA_PersistSeq (cp_my_seq t + 1) # rest \<and> list_all (plain s) rest \<and> cp_my_seq s' = cp_my_seq t + 1"
  using assms
proof (cases rule: originate_shape)
  case (1 m a u d)
  have "cp_my_seq s' = cp_my_seq t + 1"
    using 1(1) spf_fields_only_eqs(3) [OF mark_spf_dirty_fields [OF 1(2)]] by (auto simp: install_eq split: if_splits)
  then show ?thesis using 1(3) flood_plain mark_spf_dirty_plain [OF 1(2)] install_plain [OF 1(1)]
    by (simp add: next_refresh_timer_def)
qed

lemma reply_newer_plain: "list_all (plain u) (reply_newer l origin v s)"
  by (simp add: reply_newer_def send_lsa_def split: option.split)

lemma receive_lsa_plain:
  assumes "receive_lsa now l m s = Inr (as, s')"
  shows "list_all (plain u) as"
proof (cases "bt_contains (cp_adjacencies s) l \<and> valid_lsa (msg_lsa m) \<and> cp_verifier s m \<and>
    lsa_origin (msg_lsa m) \<noteq> cp_me s \<and> is_newer (msg_lsa m) s \<and> install m now s \<noteq> None")
  case True
  then obtain a t where i: "install m now s = Some (a, t)" by (metis option.exhaust surj_pair)
  then obtain d where d: "mark_spf_dirty now t = Inr (d, s')" "as = flood m (Some l) t @ [a] @ d"
    using True assms by (auto simp: receive_lsa_def Let_def res_simps)
  then show ?thesis using flood_plain mark_spf_dirty_plain [OF d(1)] install_plain [OF i] by simp
next
  case False
  then show ?thesis using assms by (auto simp: receive_lsa_def reply_newer_plain split: if_splits option.splits)
qed

lemma offers_origin_plain: "list_all (plain u) (offers_origin l remote s origin)"
  by (simp add: offers_origin_def send_lsa_def split: option.split)

lemma list_all_concat_map: "(\<And>x. list_all P (f x)) \<Longrightarrow> list_all P (concat (map f xs))"
  by (induction xs) simp_all

lemma receive_digest_plain:
  assumes "receive_digest l entries s = Inr as"
  shows "list_all (plain u) as"
proof (cases "bt_contains (cp_adjacencies s) l \<and> length entries \<le> MAX_DIGEST_ENTRIES")
  case True
  then show ?thesis using assms receive_digest_eq [of s l entries] list_all_concat_map [OF offers_origin_plain]
    by (auto simp: Let_def)
qed (use assms in \<open>auto simp: receive_digest_def\<close>)

lemma receive_digest_req_plain: "list_all (plain u) (receive_digest_req l origins s)"
  by (auto simp: receive_digest_req_def list_all_iff map_filter_def send_lsa_def)

lemma timer_plain:
  assumes "control_handle now (CE_Timer t) s = Inr (as, s')" and "\<forall>ep sq. t \<noteq> CT_LsaRefresh ep sq"
  shows "list_all (plain s) as \<and> cp_my_seq s' = cp_my_seq s"
  using assms
proof (cases t)
  case (CT_SpfHold g)
  then show ?thesis using assms
    by (auto simp: handle_spf_timer_def recompute_routes_def recompute_topic_ads_eq Let_def res_simps
        split: option.splits if_splits)
next
  case (CT_LsaExpire origin ep sq)
  then have run: "handle_expire_timer now origin ep sq s = Inr (as, s')" using assms(1) by simp
  then have "list_all (plain s) as"
    by (auto simp: handle_expire_timer_def split: option.splits if_splits dest: mark_spf_dirty_plain)
  then show ?thesis using handle_expire_refines [OF run] by blast
qed (use assms in \<open>auto simp: handle_digest_timer_def send_digest_def next_digest_timer_def split: if_splits\<close>)

definition action_shape :: "control_plane \<Rightarrow> control_action list \<Rightarrow> control_plane \<Rightarrow> bool" where
  "action_shape s as s' \<longleftrightarrow> (list_all (plain s) as \<and> cp_my_seq s' = cp_my_seq s) \<or>
    (\<exists>rest. as = CA_PersistSeq (cp_my_seq s') # rest \<and> list_all (plain s) rest \<and> cp_my_seq s' = cp_my_seq s + 1)"

lemma action_shape_plain: "list_all (plain s) as \<Longrightarrow> cp_my_seq s' = cp_my_seq s \<Longrightarrow> action_shape s as s'"
  by (simp add: action_shape_def)

lemma action_shape_originate:
  assumes "originate_lsa now t = Inr (as, s')" "cp_my_seq t = cp_my_seq s" "list_all (plain s) bs"
  shows "action_shape s (as @ bs) s'"
  using originate_actions [OF assms(1), of s] assms(2,3) unfolding action_shape_def by auto

lemmas action_shape_originate_only = action_shape_originate [where bs = "[]", simplified]

lemma control_handle_actions:
  assumes "control_handle now e s = Inr (as, s')"
  shows "action_shape s as s'"
proof (cases e)
  case (CE_LinkUp l peer cost)
  then obtain as1 where "originate_lsa now (s\<lparr>cp_adjacencies := bt_insert l \<lparr>la_peer = peer, la_cost = cost\<rparr> (cp_adjacencies s)\<rparr>) = Inr (as1, s')"
      "as = as1 @ [send_digest l s', next_digest_timer now l]"
    using assms by (auto simp: res_simps)
  then show ?thesis by (auto simp: send_digest_def next_digest_timer_def intro!: action_shape_originate)
next
  case (CE_LinkDown l)
  then show ?thesis using assms by (auto split: if_splits intro: action_shape_plain elim!: action_shape_originate_only)
next
  case (CE_LocalTopicAdsChanged ads)
  then show ?thesis using assms
    by (auto simp: Let_def split: if_splits intro: action_shape_plain elim!: action_shape_originate_only)
next
  case (CE_Frame l f)
  show ?thesis
  proof (cases f)
    case (CF_Lsa m)
    then have run: "receive_lsa now l m s = Inr (as, s')" using assms CE_Frame by simp
    then show ?thesis using receive_lsa_plain [OF run] receive_lsa_refines [OF run] by (simp add: action_shape_plain)
  next
    case (CF_Digest entries)
    then have "receive_digest l entries s = Inr as \<and> s' = s" using assms CE_Frame by (auto simp: res_simps)
    then show ?thesis using receive_digest_plain by (auto intro: action_shape_plain)
  next
    case (CF_DigestReq origins)
    then have "as = receive_digest_req l origins s \<and> s' = s" using assms CE_Frame by auto
    then show ?thesis using receive_digest_req_plain by (auto intro: action_shape_plain)
  qed
next
  case (CE_Timer t)
  show ?thesis
  proof (cases "\<exists>ep sq. t = CT_LsaRefresh ep sq")
    case True
    then show ?thesis using assms CE_Timer
      by (auto simp: handle_refresh_timer_def Let_def action_shape_plain split: if_splits elim!: action_shape_originate_only)
  next
    case False
    then show ?thesis using assms CE_Timer timer_plain by (blast intro: action_shape_plain)
  qed
qed

section \<open>Advertisements\<close>

definition ads_valid :: "control_plane \<Rightarrow> bool" where
  "ads_valid s \<longleftrightarrow> (\<forall>origin x a. bt_get (cp_lsdb s) origin = Some x \<longrightarrow> entry_active x = Some a \<longrightarrow>
     list_all valid_topic_ad (lsa_topics (msg_lsa (al_message a))))"

lemma ads_valid_insert:
  assumes "ads_valid s" and "\<And>a. entry_active x = Some a \<Longrightarrow> list_all valid_topic_ad (lsa_topics (msg_lsa (al_message a)))"
    and "cp_lsdb s' = bt_insert origin x (cp_lsdb s)"
  shows "ads_valid s'"
  using assms by (auto simp: ads_valid_def)

lemma control_handle_ads_valid:
  assumes inv: "control_inv s" and c: "counters_left s" and run: "control_handle now e s = Inr (as, s')" and "ads_valid s"
  shows "ads_valid s'"
proof -
  from control_refines_lsdb [OF inv c run] have "lsdb_step s now e s'" by blast
  then show ?thesis
  proof (cases rule: lsdb_step.cases)
    case stutter
    then show ?thesis using assms(4) by (simp add: ads_valid_def)
  next
    case originate
    have inv': "control_inv s'" by (rule control.step_inv [OF inv c run])
    then have "msg_lsa (cp_signer s' (own_lsa s')) = own_lsa s'" "list_all valid_topic_ad (cp_local_topic_ads s')"
      using lsa_auth.sign_lsa by (auto simp: control_inv_def lsdb_inv_def valid_topic_ads_def)
    then show ?thesis
      by (intro ads_valid_insert [OF assms(4) _ originate(3)])
        (auto simp: own_entry_def fresh_entry_def entry_active_def own_lsa_def)
  next
    case (learn l m)
    then show ?thesis
      by (intro ads_valid_insert [OF assms(4) _ learn(8)])
        (auto simp: fresh_entry_def entry_active_def valid_lsa_def valid_topic_ads_def)
  next
    case (expire origin ep sq x a)
    then show ?thesis by (intro ads_valid_insert [OF assms(4) _ expire(7)]) simp
  qed
qed

lemma discovered_ads_valid:
  assumes "ads_valid s" "d \<in> set (discovered_topic_ads s)"
  shows "valid_topic_ad (dt_ad d)"
proof -
  from assms(2) obtain origin x a where x: "(origin, x) \<in> set (bt_entries (cp_lsdb s))" "entry_active x = Some a"
      and ad: "dt_ad d \<in> set (lsa_topics (msg_lsa (al_message a)))"
    by (auto simp: discovered_topic_ads_def split: option.splits) (metis discovered_topic_ad.sel(2))
  from x(1) have "bt_get (cp_lsdb s) origin = Some x" by (simp add: bt_entries_iff)
  with assms(1) x(2) have "list_all valid_topic_ad (lsa_topics (msg_lsa (al_message a)))"
    unfolding ads_valid_def by blast
  with ad show ?thesis by (simp add: list_all_iff)
qed

end
