(* ===== verification/RuntimeInv.thy ===== *)
theory RuntimeInv
  imports Runtime Discovery ForwardDelivery ControlTimers
begin

text \<open>
  The invariant of the driver and what each stage of one turn of the loop keeps of it: the invariants
  of the three components, one identity for all of them, the bound of the event log, and that every
  deadline the components wait for is in the timer queue or among the actions still to be carried out.
\<close>

section \<open>Timers\<close>

definition timed :: "'st runtime \<Rightarrow> (control_timer \<times> mono_time) set" where
  "timed rt = {(t, at). \<exists>n. (at, n, RT_Control t) \<in> set (rn_timers rt)}"

definition forward_timed :: "'st runtime \<Rightarrow> (forward_timer \<times> mono_time) set" where
  "forward_timed rt = {(t, at). \<exists>n. (at, n, RT_Forward t) \<in> set (rn_timers rt)}"

text \<open>The batches of parked packets and when they expire; the timers a list of actions sets; the timer an
  event has used up.\<close>

definition waits :: "forwarder \<Rightarrow> (forward_timer \<times> mono_time) set" where
  "waits f = {(PendingP0 g, pb_expires_at b) | g b. bt_get (fw_pending_p0 f) g = Some b}"

definition set_timers :: "forward_action list \<Rightarrow> (forward_timer \<times> mono_time) set" where
  "set_timers as = {(t, at). FA_SetTimer t at \<in> set as}"

fun forward_fired :: "forward_event \<Rightarrow> (forward_timer \<times> mono_time) set" where
  "forward_fired (FE_Timer t) = {t} \<times> UNIV"
| "forward_fired _ = {}"

lemma set_timers_append [simp]: "set_timers (as @ bs) = set_timers as \<union> set_timers bs"
  by (auto simp: set_timers_def)

lemma set_timers_Nil [simp]: "set_timers [] = {}"
  by (simp add: set_timers_def)

lemma forward_handle_waits:
  assumes "accounted now f e as f'"
  shows "waits f' \<subseteq> waits f - forward_fired e \<union> set_timers as"
proof
  fix w assume "w \<in> waits f'"
  then obtain g b where w: "w = (PendingP0 g, pb_expires_at b)" "bt_get (fw_pending_p0 f') g = Some b" by (auto simp: waits_def)
  have "timers_armed now f e as f'" using assms by (simp add: accounted_def)
  then have "if \<exists>b0. bt_get (fw_pending_p0 f) g = Some b0 \<and> pb_expires_at b0 = pb_expires_at b
       then e = FE_Timer (PendingP0 g) \<longrightarrow> FA_SetTimer (PendingP0 g) (pb_expires_at b) \<in> set as
       else (\<exists>l. e = FE_LinkDown l) \<and> pb_expires_at b = sat_add now P0_ROUTE_WAIT_MS \<and>
         FA_SetTimer (PendingP0 g) (pb_expires_at b) \<in> set as"
    using w(2) unfolding timers_armed_def by blast
  then show "w \<in> waits f - forward_fired e \<union> set_timers as"
    unfolding w(1) waits_def set_timers_def by (cases e) (auto split: if_splits)
qed

section \<open>The invariant\<close>

definition parts_ok :: "node_id \<Rightarrow> 'st runtime \<Rightarrow> bool" where
  "parts_ok me rt \<longleftrightarrow>
    control_inv (rn_plane rt) \<and> ads_valid (rn_plane rt) \<and> cp_me (rn_plane rt) = me \<and>
    forward_inv (rn_forwarder rt) \<and> fw_me (rn_forwarder rt) = me \<and>
    pubsub_ok (rn_pubsub rt) \<and> ps_me (rn_pubsub rt) = me \<and> log_inv (rn_log rt)"

text \<open>An envelope that reaches the publish/subscribe component does not claim the local node as its source,
  and no multicast lists the local node.\<close>

fun deliver_ok :: "node_id \<Rightarrow> forward_action \<Rightarrow> bool" where
  "deliver_ok me (FA_DeliverLocal p) \<longleftrightarrow> is_envelope (p_payload p) \<longrightarrow> h_source (p_header p) \<noteq> me"
| "deliver_ok me _ \<longleftrightarrow> True"

fun multicast_ok :: "node_id \<Rightarrow> pubsub_action \<Rightarrow> bool" where
  "multicast_ok me (PA_SendMulticast ds _ _ _ _ _) \<longleftrightarrow> me \<notin> set ds"
| "multicast_ok me _ \<longleftrightarrow> True"

text \<open>The state between two stages: the components are well, the collected actions are harmless, and every
  parked batch, except those whose timer has just fired, has its timer.\<close>

definition carried ::
  "(forward_timer \<times> mono_time) set \<Rightarrow> node_id \<Rightarrow> forward_action list \<Rightarrow> pubsub_action list \<Rightarrow> 'st runtime \<Rightarrow> bool" where
  "carried X me fas pas rt \<longleftrightarrow> parts_ok me rt \<and> list_all (deliver_ok me) fas \<and> list_all (multicast_ok me) pas \<and>
    waits (rn_forwarder rt) - X \<subseteq> set_timers fas \<union> forward_timed rt"

text \<open>The deadlines of the control plane, up to the timer of an event not yet handled.\<close>

definition event_fired :: "control_event option \<Rightarrow> (control_timer \<times> mono_time) set" where
  "event_fired event = (case event of None \<Rightarrow> {} | Some e \<Rightarrow> fired e)"

definition covered :: "control_event option \<Rightarrow> 'st runtime \<Rightarrow> bool" where
  "covered event rt \<longleftrightarrow>
    deadlines (rn_plane rt) \<union> refresh_deadlines (rn_plane rt) \<subseteq> timed rt \<union> event_fired event \<and>
    (\<forall>l. bt_contains (cp_adjacencies (rn_plane rt)) l \<longrightarrow> (\<exists>at. (CT_Digest l, at) \<in> timed rt \<union> event_fired event))"

definition runtime_inv :: "'st runtime \<Rightarrow> bool" where
  "runtime_inv rt \<longleftrightarrow> parts_ok (rn_node_id rt) rt \<and>
    (rn_running rt \<longrightarrow> covered None rt \<and> waits (rn_forwarder rt) \<subseteq> forward_timed rt)"

text \<open>What the stages after the control plane keep.\<close>

definition advanced :: "'st runtime \<Rightarrow> 'st runtime \<Rightarrow> bool" where
  "advanced rt rt' \<longleftrightarrow> rn_node_id rt' = rn_node_id rt \<and> rn_peer_costs rt' = rn_peer_costs rt \<and> rn_plane rt' = rn_plane rt \<and> rn_running rt' = rn_running rt \<and>
    timed rt \<subseteq> timed rt' \<and> forward_timed rt \<subseteq> forward_timed rt'"

definition kept :: "'st runtime \<Rightarrow> 'st runtime \<Rightarrow> bool" where
  "kept rt rt' \<longleftrightarrow> advanced rt rt' \<and> rn_store rt' = rn_store rt"

lemma advanced_refl [simp]: "advanced rt rt"
  by (simp add: advanced_def)

lemma advanced_trans: "advanced rt1 rt2 \<Longrightarrow> advanced rt2 rt3 \<Longrightarrow> advanced rt1 rt3"
  by (auto simp: advanced_def)

lemma kept_advanced: "kept rt rt' \<Longrightarrow> advanced rt rt'"
  by (simp add: kept_def)

lemma kept_refl [simp]: "kept rt rt"
  by (simp add: kept_def)

lemma kept_trans: "kept rt1 rt2 \<Longrightarrow> kept rt2 rt3 \<Longrightarrow> kept rt1 rt3"
  by (auto simp: kept_def intro: advanced_trans)

text \<open>Effects outside the components.\<close>

definition outside :: "'st runtime \<Rightarrow> 'st runtime \<Rightarrow> bool" where
  "outside rt rt' \<longleftrightarrow> kept rt rt' \<and> rn_forwarder rt' = rn_forwarder rt \<and> rn_pubsub rt' = rn_pubsub rt \<and>
    (log_inv (rn_log rt) \<longrightarrow> log_inv (rn_log rt'))"

lemma outside_refl [simp]: "outside rt rt"
  by (simp add: outside_def)

lemma outside_trans: "outside rt1 rt2 \<Longrightarrow> outside rt2 rt3 \<Longrightarrow> outside rt1 rt3"
  by (auto simp: outside_def intro: kept_trans)

lemma outside_parts: "outside rt rt' \<Longrightarrow> parts_ok me rt \<Longrightarrow> parts_ok me rt'"
  by (simp add: outside_def kept_def advanced_def parts_ok_def)

lemma outside_carried: "outside rt rt' \<Longrightarrow> carried X me fas pas rt \<Longrightarrow> carried X me fas pas rt'"
  unfolding carried_def using outside_parts by (auto simp: outside_def kept_def advanced_def)

lemma timed_frame [simp]:
  "timed (rt\<lparr>rn_forwarder := f\<rparr>) = timed rt" "timed (rt\<lparr>rn_pubsub := p\<rparr>) = timed rt"
  "timed (rt\<lparr>rn_plane := s\<rparr>) = timed rt" "timed (rt\<lparr>rn_endpoint := ep\<rparr>) = timed rt"
  "timed (rt\<lparr>rn_log := lg\<rparr>) = timed rt" "timed (rt\<lparr>rn_peers := ps\<rparr>) = timed rt"
  "timed (rt\<lparr>rn_store := st\<rparr>) = timed rt" "timed (rt\<lparr>rn_forward_outcomes := fo\<rparr>) = timed rt"
  "timed (rt\<lparr>rn_pubsub_outcomes := po\<rparr>) = timed rt" "timed (rt\<lparr>rn_snapshot := sn\<rparr>) = timed rt"
  "timed (rt\<lparr>rn_running := b\<rparr>) = timed rt"
  by (simp_all add: timed_def)

lemma forward_timed_frame [simp]:
  "forward_timed (rt\<lparr>rn_forwarder := f\<rparr>) = forward_timed rt" "forward_timed (rt\<lparr>rn_pubsub := p\<rparr>) = forward_timed rt"
  "forward_timed (rt\<lparr>rn_plane := s\<rparr>) = forward_timed rt" "forward_timed (rt\<lparr>rn_endpoint := ep\<rparr>) = forward_timed rt"
  "forward_timed (rt\<lparr>rn_log := lg\<rparr>) = forward_timed rt" "forward_timed (rt\<lparr>rn_peers := ps\<rparr>) = forward_timed rt"
  "forward_timed (rt\<lparr>rn_store := st\<rparr>) = forward_timed rt" "forward_timed (rt\<lparr>rn_forward_outcomes := fo\<rparr>) = forward_timed rt"
  "forward_timed (rt\<lparr>rn_pubsub_outcomes := po\<rparr>) = forward_timed rt" "forward_timed (rt\<lparr>rn_snapshot := sn\<rparr>) = forward_timed rt"
  "forward_timed (rt\<lparr>rn_running := b\<rparr>) = forward_timed rt"
  by (simp_all add: forward_timed_def)

lemma schedule_timed [simp]:
  "timed (schedule (RT_Control t) at rt) = insert (t, at) (timed rt)"
  "timed (schedule (RT_Forward u) at rt) = timed rt"
  "forward_timed (schedule (RT_Control t) at rt) = forward_timed rt"
  "forward_timed (schedule (RT_Forward u) at rt) = insert (u, at) (forward_timed rt)"
  by (auto simp: timed_def forward_timed_def schedule_def)

lemma outside_effects [simp]:
  "outside rt (log_event now kind detail via rt)" "outside rt (close_quietly link rt)"
  "outside rt (send_or_close link frame rt)" "outside rt (pubsub_outcome outcome rt)"
  "outside rt (report_drop reason packet rt)" "outside rt (schedule timer at rt)"
  "outside rt (rt\<lparr>rn_forward_outcomes := fo\<rparr>)" "outside rt (rt\<lparr>rn_pubsub_outcomes := po\<rparr>)"
  "outside rt (rt\<lparr>rn_peers := ps\<rparr>)" "outside rt (rt\<lparr>rn_snapshot := sn\<rparr>)"
  by (auto simp: outside_def kept_def advanced_def log_event_def close_quietly_def send_or_close_def pubsub_outcome_def report_drop_def
      timed_def forward_timed_def schedule_def split: prod.splits sum.splits)

lemma outside_log_forward: "outside rt (log_forward_actions now as rt)"
proof (induction as arbitrary: rt)
  case (Cons a as)
  then show ?case by (auto split: option.split intro: outside_trans [OF outside_effects(1)])
qed simp

section \<open>Feeding the components\<close>

text \<open>An event is forged when it brings the local node an envelope that claims to come from itself.\<close>

definition forged :: "node_id \<Rightarrow> forward_event \<Rightarrow> bool" where
  "forged me e \<longleftrightarrow>
    (\<exists>((source, _, _, _, _, payload), destination) \<in># offered e. source = me \<and> destination = me \<and> is_envelope payload)"

lemma not_forged_deliver:
  assumes "forward_inv f" "forward_admissible f e" "forward_handle now e f = Inr (as, f')" "\<not> forged (fw_me f) e"
  shows "list_all (deliver_ok (fw_me f)) as"
proof -
  have "deliver_ok (fw_me f) a" if "a \<in> set as" for a
  proof (cases a)
    case (FA_DeliverLocal p)
    then have "(packet_tag p, fw_me f) \<in># offered e" using delivered_was_offered [OF assms(1-3)] that by blast
    then show ?thesis using assms(4) FA_DeliverLocal unfolding forged_def packet_tag_def by fastforce
  qed simp_all
  then show ?thesis by (simp add: list_all_iff)
qed

lemma feed_forwarder_ok:
  assumes c: "carried X me fas pas rt" and adm: "forward_admissible (rn_forwarder rt) e" and "\<not> forged me e"
    and "X \<subseteq> forward_fired e"
  shows "\<exists>as rt'. feed_forwarder now e rt = Inr (as, rt') \<and> carried {} me (fas @ as) pas rt' \<and> kept rt rt' \<and>
    rn_endpoint rt' = rn_endpoint rt \<and> rn_timers rt' = rn_timers rt"
proof -
  let ?f = "rn_forwarder rt"
  have f: "forward_inv ?f" "fw_me ?f = me" using c by (simp_all add: carried_def parts_ok_def)
  obtain as f' where r: "forward_handle now e ?f = Inr (as, f')" "forward_inv f'" "accounted now ?f e as f'"
    using forward_step [OF f(1) adm] by blast
  have "list_all (deliver_ok me) as" using not_forged_deliver [OF f(1) adm r(1)] assms(3) f(2) by simp
  moreover have "waits f' \<subseteq> waits ?f - forward_fired e \<union> set_timers as" by (rule forward_handle_waits [OF r(3)])
  moreover have "fw_me f' = me" using r(3) f(2) by (simp add: accounted_def)
  ultimately have "carried {} me (fas @ as) pas (rt\<lparr>rn_forwarder := f'\<rparr>)"
    using c r(2) assms(4) by (auto simp: carried_def parts_ok_def)
  then show ?thesis using r(1) by (simp add: feed_forwarder_def kept_def advanced_def)
qed

lemma publish_not_to_me:
  assumes "publish penc now topic payload s = Inr (as, s')"
  shows "list_all (multicast_ok (ps_me s)) as"
proof -
  have "ps_me s \<notin> set c" if "0 < n" "c \<in> set (chunk_list n (bt_keys (bt_remove (ps_me s) m)))" for n c and m :: "node_id btset"
  proof -
    let ?ks = "bt_keys (bt_remove (ps_me s) m)"
    have "set c \<subseteq> set (concat (chunk_list n ?ks))" using that(2) by auto
    then have "set c \<subseteq> set ?ks" unfolding chunk_list_concat [OF that(1)] .
    moreover have "ps_me s \<notin> set ?ks" by (simp add: bt_contains_iff_keys [symmetric])
    ultimately show ?thesis by blast
  qed
  with assms show ?thesis
    by (auto simp: publish_def Let_def list_all_iff chunks_def record_seq_def res_simps
        split: option.splits sum.splits if_splits prod.splits)
qed

lemma handle_not_to_me:
  assumes "pubsub_handle penc pdec now e s = Inr (as, s')"
  shows "list_all (multicast_ok (ps_me s)) as"
proof (cases e)
  case (PE_LocalPublish topic payload)
  then show ?thesis using assms publish_not_to_me by simp
next
  case (PE_Inbound source payload)
  then have "receive pdec source payload s = (as, s')" using assms by simp
  note none = receive_no_multicast [OF this]
  have "multicast_ok (ps_me s) a" if "a \<in> set as" for a
    using none that by (cases a) auto
  then show ?thesis by (simp add: list_all_iff)
qed (use assms in \<open>auto simp: local_subscribe_def local_unsubscribe_def subscription_change_def Let_def\<close>)

lemma feed_pubsub_ok:
  assumes c: "carried X me fas pas rt" and adm: "pubsub_admissible (rn_pubsub rt) e"
  shows "\<exists>as rt'. feed_pubsub L now e rt = Inr (as, rt') \<and> carried X me fas (pas @ as) rt' \<and> kept rt rt' \<and>
    rn_endpoint rt' = rn_endpoint rt \<and> rn_timers rt' = rn_timers rt \<and> rn_forwarder rt' = rn_forwarder rt"
proof -
  let ?s = "rn_pubsub rt"
  have s: "pubsub_ok ?s" "ps_me ?s = me" using c by (simp_all add: carried_def parts_ok_def)
  obtain acc where acc: "pubsub_inv ?s" "windows_of acc ?s" using s(1) by (auto simp: pubsub_ok_def)
  obtain as s' where r: "pubsub_handle (lib_enc_envelope L) (lib_dec_envelope L) now e ?s = Inr (as, s')"
      "pubsub_inv s'" "ps_me s' = ps_me ?s" "\<exists>acc'. windows_of acc' s'"
    using pubsub_step [OF acc(1) adm acc(2)] by blast
  have "list_all (multicast_ok me) as" using handle_not_to_me [OF r(1)] s(2) by simp
  then have "carried X me fas (pas @ as) (rt\<lparr>rn_pubsub := s'\<rparr>)"
    using c r(2-4) s(2) by (simp add: carried_def parts_ok_def pubsub_ok_def)
  then show ?thesis using r(1) by (simp add: feed_pubsub_def kept_def advanced_def)
qed

section \<open>Carrying out actions\<close>

lemma not_forged_multicast: "me \<notin> set ds \<Longrightarrow> p_multicast_destinations p = [] \<Longrightarrow> \<not> forged me (FE_OutboundMulticast ds p)"
  by (auto simp: forged_def units_to_def)

lemma multicast_packet_ok:
  "\<exists>p. multicast_packet source priority flow key conflatable payload = Inr p \<and> p_multicast_destinations p = []"
proof -
  have "flags_from_bits CONFLATABLE = Inr CONFLATABLE" by code_simp
  then show ?thesis by (simp add: multicast_packet_def)
qed

lemma carried_pubsub_cons: "carried X me fas (a # pas) rt \<Longrightarrow> carried X me fas pas rt \<and> multicast_ok me a"
  by (simp add: carried_def)

lemma pubsub_action_step_ok:
  assumes "carried {} me fas (a # pas) rt"
  shows "\<exists>added rt'. pubsub_action_step now a rt = Inr (added, rt') \<and> carried {} me (fas @ added) pas rt' \<and> kept rt rt'"
proof -
  have c: "carried {} me fas pas rt" "multicast_ok me a" using carried_pubsub_cons [OF assms] by auto
  have quiet: ?thesis if "pubsub_action_step now a rt = Inr ([], rt')" "outside rt rt'" for rt'
    using that outside_carried [OF that(2) c(1)] by (auto simp: outside_def)
  show ?thesis
  proof (cases a)
    case (PA_SendMulticast ds priority flow key conflatable payload)
    obtain p where p: "multicast_packet (fw_me (rn_forwarder rt)) priority flow key conflatable payload = Inr p"
        "p_multicast_destinations p = []"
      using multicast_packet_ok by blast
    have "\<not> forged me (FE_OutboundMulticast ds p)" using not_forged_multicast c(2) PA_SendMulticast p(2) by simp
    from feed_forwarder_ok [OF c(1) _ this, of now] obtain added rt' where
      "feed_forwarder now (FE_OutboundMulticast ds p) rt = Inr (added, rt')" "carried {} me (fas @ added) pas rt'" "kept rt rt'"
      by auto
    then show ?thesis using PA_SendMulticast p(1) by simp
  qed (rule quiet, simp, simp)+
qed

lemma execute_pubsub_ok:
  assumes "carried {} me fas pas rt"
  shows "\<exists>added rt'. execute_pubsub_actions now pas rt = Inr (added, rt') \<and> carried {} me (fas @ added) [] rt' \<and> kept rt rt'"
  using assms
proof (induction pas arbitrary: fas rt)
  case (Cons a pas)
  obtain added1 rt1 where 1: "pubsub_action_step now a rt = Inr (added1, rt1)" "carried {} me (fas @ added1) pas rt1" "kept rt rt1"
    using pubsub_action_step_ok [OF Cons.prems] by blast
  obtain added2 rt2 where 2: "execute_pubsub_actions now pas rt1 = Inr (added2, rt2)"
      "carried {} me ((fas @ added1) @ added2) [] rt2" "kept rt1 rt2"
    using Cons.IH [OF 1(2)] by blast
  then show ?case using 1 kept_trans [OF 1(3) 2(3)] by simp
qed simp

lemma carried_forward_cons:
  assumes "carried {} me (a # fas) [] rt" and "\<forall>t at. a \<noteq> FA_SetTimer t at"
  shows "carried {} me fas [] rt"
proof -
  have "set_timers (a # fas) = set_timers fas" using assms(2) by (auto simp: set_timers_def)
  then show ?thesis using assms(1) by (simp add: carried_def)
qed

lemma forward_action_step_ok:
  assumes c: "carried {} me (a # fas) [] rt"
  shows "\<exists>rt'. forward_action_step L now a rt = Inr ([], rt') \<and> carried {} me fas [] rt' \<and> kept rt rt'"
proof -
  have quiet: ?thesis if "forward_action_step L now a rt = Inr ([], rt')" "outside rt rt'" "\<forall>t at. a \<noteq> FA_SetTimer t at" for rt'
    using that outside_carried [OF that(2) carried_forward_cons [OF c that(3)]] by (auto simp: outside_def)
  show ?thesis
  proof (cases a)
    case (FA_Send l p)
    show ?thesis
    proof (cases "forward_encode p")
      case (Inr payload)
      then show ?thesis using FA_Send by (intro quiet [of "send_or_close l (forward_frame p payload) rt"]) simp_all
    qed (use FA_Send quiet [of rt] in simp)
  next
    case (FA_DeliverLocal p)
    show ?thesis
    proof (cases "is_envelope (p_payload p)")
      case True
      have "deliver_ok me a" "ps_me (rn_pubsub rt) = me" using c by (simp_all add: carried_def parts_ok_def)
      then have "pubsub_admissible (rn_pubsub rt) (PE_Inbound (h_source (p_header p)) (p_payload p))"
        using True FA_DeliverLocal by simp
      from feed_pubsub_ok [OF carried_forward_cons [OF c] this] obtain pas rt1 where
        1: "feed_pubsub L now (PE_Inbound (h_source (p_header p)) (p_payload p)) rt = Inr (pas, rt1)"
          "carried {} me fas ([] @ pas) rt1" "kept rt rt1"
        using FA_DeliverLocal by blast
      from execute_pubsub_ok [of me fas pas rt1 now] 1(2) obtain added rt2 where
        2: "execute_pubsub_actions now pas rt1 = Inr (added, rt2)" "carried {} me (fas @ added) [] rt2" "kept rt1 rt2"
        by auto
      have step: "forward_action_step L now a rt = Inr (added, rt2)" using True FA_DeliverLocal 1(1) 2(1) by simp
      show ?thesis using step 2(2) forward_action_adds_nothing [OF step] kept_trans [OF 1(3) 2(3)] by simp
    next
      case False
      then show ?thesis using FA_DeliverLocal
        by (intro quiet [of "rt\<lparr>rn_forward_outcomes := tx_send (FO_Delivered p) (rn_forward_outcomes rt)\<rparr>"]) simp_all
    qed
  next
    case (FA_SetTimer t at)
    have "carried {} me fas [] (schedule (RT_Forward t) at rt)"
      using outside_carried [OF outside_effects(6) c, of "RT_Forward t" at] unfolding carried_def set_timers_def FA_SetTimer by auto
    then show ?thesis using FA_SetTimer outside_effects(6) [of rt "RT_Forward t" at] by (auto simp: outside_def)
  qed (rule quiet, simp, simp, simp)+
qed

lemma execute_forward_ok:
  assumes "carried {} me fas [] rt"
  shows "\<exists>rt'. execute_forward_actions L now fas rt = Inr rt' \<and> carried {} me [] [] rt' \<and> kept rt rt'"
  using assms
proof (induction fas arbitrary: rt)
  case (Cons a fas)
  obtain rt1 where 1: "forward_action_step L now a rt = Inr ([], rt1)" "carried {} me fas [] rt1" "kept rt rt1"
    using forward_action_step_ok [OF Cons.prems] by blast
  obtain rt2 where 2: "execute_forward_actions L now fas rt1 = Inr rt2" "carried {} me [] [] rt2" "kept rt1 rt2"
    using Cons.IH [OF 1(2)] by blast
  then show ?case using 1(1) kept_trans [OF 1(3) 2(3)] by simp
qed simp

section \<open>Actions of the control plane\<close>

fun ads_fit :: "control_action \<Rightarrow> bool" where
  "ads_fit (CA_PublishTopicAds ads) \<longleftrightarrow> (\<forall>d \<in> set ads. valid_topic_ad (dt_ad d))"
| "ads_fit _ \<longleftrightarrow> True"

lemma control_action_step_ok:
  assumes c: "carried {} me fas pas rt" and fit: "ads_fit a"
  shows "\<exists>running fas' pas' rt'. control_action_step L now a fas pas rt = Inr (running, fas', pas', rt') \<and>
    carried {} me fas' pas' rt' \<and> advanced rt rt' \<and> armed [a] \<subseteq> timed rt'"
proof -
  have quiet: ?thesis if "control_action_step L now a fas pas rt = Inr (True, fas, pas, rt')" "outside rt rt'"
      "armed [a] \<subseteq> timed rt'" for rt'
    using that outside_carried [OF that(2) c] by (auto simp: outside_def kept_def)
  show ?thesis
  proof (cases a)
    case (CA_Send l frame)
    obtain kind detail where k: "control_frame_summary frame = (kind, detail)" by fastforce
    show ?thesis
    proof (cases "encode_control_frame (lib_prost L) frame")
      case (Inr w)
      have "outside rt (send_or_close l w (log_event now kind detail (Some l) rt))"
        by (rule outside_trans [OF outside_effects(1) outside_effects(3)])
      from quiet [OF _ this] show ?thesis using CA_Send Inr k by (simp add: armed_def)
    qed (use CA_Send quiet [of rt] in \<open>simp add: armed_def\<close>)
  next
    case (CA_SetTimer t at)
    then show ?thesis by (intro quiet [of "schedule (RT_Control t) at rt"]) (auto simp: armed_def)
  next
    case (CA_PublishRoutes routes)
    let ?rt = "log_event now ''SPF'' (''route table v'' @ fmt_decimal (unat (tbl_version routes)) @ middle_dot @
         fmt_decimal (route_len routes) @ '' routes'') None rt"
    have o: "outside rt ?rt" by simp
    have "\<not> forged me (FE_RoutesUpdated routes)" by (simp add: forged_def)
    from feed_forwarder_ok [OF outside_carried [OF o c] _ this, of now] obtain as rt' where
      "feed_forwarder now (FE_RoutesUpdated routes) ?rt = Inr (as, rt')" "carried {} me (fas @ as) pas rt'" "kept ?rt rt'"
      by auto
    moreover from this(3) have "advanced rt rt'" using o by (meson advanced_trans kept_advanced outside_def)
    ultimately show ?thesis using CA_PublishRoutes by (auto simp: armed_def)
  next
    case (CA_PublishTopicAds ads)
    then obtain idx where idx: "discovery_from_topic_ads ads = Inr idx"
      using discovery_from_topic_ads_lists [of ads] fit by auto
    from feed_pubsub_ok [OF c, of "PE_DiscoveryUpdated idx" L now] obtain as rt' where
      "feed_pubsub L now (PE_DiscoveryUpdated idx) rt = Inr (as, rt')" "carried {} me fas (pas @ as) rt'" "kept rt rt'"
      by auto
    then show ?thesis using CA_PublishTopicAds idx by (auto simp: armed_def kept_def)
  next
    case (CA_PersistSeq n)
    obtain r st where p: "lib_persist L n (rn_store rt) = (r, st)" by fastforce
    have "carried {} me fas pas (rt\<lparr>rn_store := st\<rparr>)" "advanced rt (rt\<lparr>rn_store := st\<rparr>)"
      using c by (simp_all add: carried_def parts_ok_def advanced_def)
    then show ?thesis using CA_PersistSeq p by (cases r) (auto simp: armed_def)
  qed
qed

lemma armed_Cons: "armed (a # as) = armed [a] \<union> armed as"
  using armed_append [of "[a]" as] by simp

lemma control_actions_ok:
  assumes "carried {} me fas pas rt" and "list_all ads_fit as"
  shows "\<exists>running fas' pas' rt'. control_actions L now as fas pas rt = Inr (running, fas', pas', rt') \<and>
    carried {} me fas' pas' rt' \<and> advanced rt rt' \<and> (running \<longrightarrow> armed as \<subseteq> timed rt')"
  using assms
proof (induction as arbitrary: fas pas rt)
  case (Cons a as)
  then obtain running1 fas1 pas1 rt1 where 1: "control_action_step L now a fas pas rt = Inr (running1, fas1, pas1, rt1)"
      "carried {} me fas1 pas1 rt1" "advanced rt rt1" "armed [a] \<subseteq> timed rt1"
    using control_action_step_ok [of me fas pas rt a L now] by auto
  show ?case
  proof (cases running1)
    case True
    obtain running fas' pas' rt' where 2: "control_actions L now as fas1 pas1 rt1 = Inr (running, fas', pas', rt')"
        "carried {} me fas' pas' rt'" "advanced rt1 rt'" "running \<longrightarrow> armed as \<subseteq> timed rt'"
      using Cons.IH [OF 1(2)] Cons.prems(2) by auto
    moreover have "timed rt1 \<subseteq> timed rt'" using 2(3) by (simp add: advanced_def)
    ultimately show ?thesis using 1 True advanced_trans [OF 1(3) 2(3)] armed_Cons [of a as] by auto
  qed (use 1 in auto)
qed auto

lemma control_handle_fit:
  assumes "ads_valid s" and "control_handle now e s = Inr (as, s')"
  shows "list_all ads_fit as"
proof -
  have plain: "ads_fit a" if "plain s a" for a
    using that discovered_ads_valid [OF assms(1)] by (cases a) auto
  have "list_all ads_fit as" if "list_all (plain s) as" for as using that plain by (auto simp: list_all_iff)
  then show ?thesis using control_handle_actions [OF assms(2)] unfolding action_shape_def by auto
qed

lemma still_timed: "A' \<subseteq> A - F \<union> B \<Longrightarrow> A \<subseteq> T \<union> F \<Longrightarrow> T \<subseteq> T' \<Longrightarrow> B \<subseteq> T' \<Longrightarrow> A' \<subseteq> T'"
  by blast

lemma feed_plane_ok:
  assumes c: "carried {} me fas pas rt" and cov: "covered event rt" and left: "event \<noteq> None \<longrightarrow> counters_left (rn_plane rt)"
  shows "\<exists>running fas' pas' rt'. feed_plane L now event fas pas rt = Inr (running, fas', pas', rt') \<and>
    carried {} me fas' pas' rt' \<and> rn_node_id rt' = rn_node_id rt \<and> rn_peer_costs rt' = rn_peer_costs rt \<and> rn_running rt' = rn_running rt \<and> (running \<longrightarrow> covered None rt')"
proof (cases event)
  case None
  then show ?thesis using c cov by (auto simp: feed_plane_def)
next
  case (Some e)
  let ?s = "rn_plane rt"
  have s: "control_inv ?s" "ads_valid ?s" "cp_me ?s = me" "counters_left ?s"
    using c left Some by (simp_all add: carried_def parts_ok_def)
  obtain as s' where r: "control_handle now e ?s = Inr (as, s')" "control_inv s'" using control_step [OF s(1,4)] by blast
  have me: "cp_me s' = me" using control_refines_lsdb [OF s(1,4) r(1)] s(3) by (simp add: same_identity_def)
  let ?rt = "rt\<lparr>rn_plane := s'\<rparr>"
  have "carried {} me fas pas ?rt"
    using c r(2) me control_handle_ads_valid [OF s(1,4) r(1) s(2)] by (simp add: carried_def parts_ok_def)
  from control_actions_ok [OF this control_handle_fit [OF s(2) r(1)], of L now] obtain running fas' pas' rt' where
    2: "control_actions L now as fas pas ?rt = Inr (running, fas', pas', rt')"
      "carried {} me fas' pas' rt'" "advanced ?rt rt'" "running \<longrightarrow> armed as \<subseteq> timed rt'" by blast
  have t: "timed rt \<subseteq> timed rt'" "rn_plane rt' = s'" using 2(3) by (simp_all add: advanced_def)
  have "covered None rt'" if "armed as \<subseteq> timed rt'"
  proof -
    have before: "deadlines ?s \<subseteq> timed rt \<union> fired e" "refresh_deadlines ?s \<subseteq> timed rt \<union> fired e"
      using cov by (simp_all add: covered_def Some event_fired_def)
    have "deadlines s' \<union> refresh_deadlines s' \<subseteq> timed rt'"
      using still_timed [OF control_handle_deadlines [OF r(1)] before(1) t(1) that]
        still_timed [OF control_handle_refresh [OF s(1,4) r(1)] before(2) t(1) that] by blast
    moreover have "\<exists>at. (CT_Digest l, at) \<in> timed rt'" if "bt_contains (cp_adjacencies s') l" for l
      using control_handle_digest [OF r(1) that] cov t(1) \<open>armed as \<subseteq> timed rt'\<close>
      unfolding covered_def Some event_fired_def by auto blast
    ultimately show ?thesis by (simp add: covered_def event_fired_def t(2))
  qed
  then show ?thesis using Some r(1) 2 by (simp add: feed_plane_def advanced_def)
qed

end
