(* ===== verification/RuntimeProps.thy ===== *)
theory RuntimeProps
  imports RuntimeInv
begin

text \<open>
  One turn of the driver's loop as a whole. From every state the invariant describes, an input that is
  not forged is handled to the end without a panic and the invariant holds again; the driver is therefore
  a \<open>component\<close> itself. On it rest the properties of the composed node: it never panics, every deadline of
  its parts has a timer, and its sequence numbers are on the store before they are on the wire.
\<close>

section \<open>One input\<close>

text \<open>The inputs a driver may be given: the counters of the control plane are not used up; a packet of the
  application fits a frame; the number of parked batches fits its counter; no packet brings the node an
  envelope that claims to be its own.\<close>

fun honest_input :: "'st runtime \<Rightarrow> runtime_input \<Rightarrow> bool" where
  "honest_input rt (RI_Forward (FI_Outbound p)) \<longleftrightarrow>
    length (p_payload p) \<le> MAX_FORWARD_PAYLOAD_LEN \<and> \<not> forged (rn_node_id rt) (FE_Outbound p)"
| "honest_input rt (RI_Forward (FI_OutboundMulticast ds p)) \<longleftrightarrow> \<not> forged (rn_node_id rt) (FE_OutboundMulticast ds p)"
| "honest_input rt (RI_PubSub (PE_LocalPublish topic _)) \<longleftrightarrow> topic_valid topic"
| "honest_input rt (RI_PubSub (PE_Inbound _ _)) \<longleftrightarrow> False"
| "honest_input rt (RI_PubSub (PE_DiscoveryUpdated _)) \<longleftrightarrow> False"
| "honest_input rt (RI_Link (LE_Down _)) \<longleftrightarrow> bt_len (fw_pending_p0 (rn_forwarder rt)) < 2 ^ 64"
| "honest_input rt (RI_Link (LE_Frame l frame)) \<longleftrightarrow>
    (case decode_forward_frame frame of Inl _ \<Rightarrow> True | Inr p \<Rightarrow> \<not> forged (rn_node_id rt) (FE_Inbound l p))"
| "honest_input rt _ \<longleftrightarrow> True"

definition input_ok :: "'st runtime \<Rightarrow> runtime_input \<Rightarrow> bool" where
  "input_ok rt input \<longleftrightarrow> counters_left (rn_plane rt) \<and> honest_input rt input"

fun input_fired :: "runtime_input \<Rightarrow> (control_timer \<times> mono_time) set" where
  "input_fired (RI_Timer (RT_Control t)) = {t} \<times> UNIV"
| "input_fired _ = {}"

fun input_forward_fired :: "runtime_input \<Rightarrow> (forward_timer \<times> mono_time) set" where
  "input_forward_fired (RI_Timer (RT_Forward t)) = {t} \<times> UNIV"
| "input_forward_fired _ = {}"

definition dispatched :: "node_id \<Rightarrow> runtime_input \<Rightarrow> 'st runtime \<Rightarrow> dispatch \<Rightarrow> 'st runtime \<Rightarrow> bool" where
  "dispatched me input rt d rt' \<longleftrightarrow> kept rt rt' \<and>
    (case d of
       None \<Rightarrow> input_fired input = {} \<and> carried {} me [] [] rt'
     | Some (event, fas, pas) \<Rightarrow> carried {} me fas pas rt' \<and> rn_endpoint rt' = rn_endpoint rt \<and>
         input_fired input \<subseteq> event_fired (advertise pas event))"

lemma advertise_Nil [simp]: "advertise [] event = event"
  by (simp add: advertise_def)

lemma decoded_packet_fits:
  assumes "decode_forward_frame frame = Inr p"
  shows "length (p_payload p) \<le> MAX_FORWARD_PAYLOAD_LEN"
proof -
  have "forward_decode (wf_payload frame) = Inr p"
    using assms by (auto simp: decode_forward_frame_def res_simps split: if_splits)
  then have "packet_encodable p" using forward_decode_valid by blast
  then show ?thesis by (auto simp: packet_encodable_def multicast_valid_def split: if_splits)
qed

lemma forward_dispatched:
  assumes c: "carried X me [] [] rt" and "forward_admissible (rn_forwarder rt) e" and "\<not> forged me e" and "X \<subseteq> forward_fired e"
    and "input_fired input = {}"
  shows "\<exists>d rt'. only_forward (feed_forwarder now e rt) = Inr (d, rt') \<and> dispatched me input rt d rt'"
  using feed_forwarder_ok [OF assms(1-4), of now] assms(5) by (auto simp: only_forward_def dispatched_def)

lemma log_event_endpoint [simp]: "rn_endpoint (log_event now kind detail link rt) = rn_endpoint rt"
  by (simp add: log_event_def)

lemma log_event_forwarder [simp]: "rn_forwarder (log_event now kind detail link rt) = rn_forwarder rt"
  by (simp add: log_event_def)

lemma dispatched_outside:
  "outside rt rt1 \<Longrightarrow> rn_endpoint rt1 = rn_endpoint rt \<Longrightarrow> dispatched me input rt1 d rt' \<Longrightarrow> dispatched me input rt d rt'"
  unfolding dispatched_def outside_def by (auto split: option.splits intro: kept_trans)

lemma open_link_ok:
  assumes "carried {} me [] [] rt"
  shows "\<exists>as rt'. open_link now l bytes rt = Inr (as, rt') \<and> carried {} me as [] rt' \<and> kept rt rt' \<and> rn_endpoint rt' = rn_endpoint rt"
proof -
  have unforged: "\<not> forged me (FE_LinkCredit l bytes)" "\<not> forged me (FE_LinkWritable l)" by (simp_all add: forged_def)
  from feed_forwarder_ok [OF assms _ unforged(1), of now] obtain as1 rt1 where
    1: "feed_forwarder now (FE_LinkCredit l bytes) rt = Inr (as1, rt1)" "carried {} me as1 [] rt1" "kept rt rt1"
      "rn_endpoint rt1 = rn_endpoint rt" by auto
  from feed_forwarder_ok [OF 1(2) _ unforged(2), of now] obtain as2 rt2 where
    2: "feed_forwarder now (FE_LinkWritable l) rt1 = Inr (as2, rt2)" "carried {} me (as1 @ as2) [] rt2" "kept rt1 rt2"
      "rn_endpoint rt2 = rn_endpoint rt1" by auto
  show ?thesis using 1 2 kept_trans [OF 1(3) 2(3)] by (simp add: open_link_def)
qed

lemma closed_dispatched:
  assumes "carried {} me [] [] rt" and "input_fired input = {}"
  shows "dispatched me input rt None (close_quietly l rt)"
proof -
  have "outside rt (close_quietly l rt)" by simp
  then show ?thesis using outside_carried [OF _ assms(1)] assms(2) by (simp add: dispatched_def outside_def)
qed

lemma link_up_ok:
  assumes c: "carried {} me [] [] rt"
  shows "\<exists>d rt'. link_up now l peer rt = Inr (d, rt') \<and> dispatched me (RI_Link (LE_Up l peer)) rt d rt'"
proof (cases "bt_get (rn_peer_costs rt) peer")
  case None
  then show ?thesis using closed_dispatched [OF c] by (simp add: link_up_def)
next
  case (Some cost)
  let ?rt = "log_event now ''LINK_UP'' (link_text l @ ''peer '' @ node_id_fmt peer) (Some l) (rt\<lparr>rn_peers := bt_insert l peer (rn_peers rt)\<rparr>)"
  have o: "outside rt ?rt" by (rule outside_trans [OF outside_effects(9) outside_effects(1)])
  from open_link_ok [OF outside_carried [OF o c], of now l MAX_PAYLOAD_LEN] obtain as rt' where
    r: "open_link now l MAX_PAYLOAD_LEN ?rt = Inr (as, rt')" "carried {} me as [] rt'" "kept ?rt rt'" "rn_endpoint rt' = rn_endpoint ?rt"
    by blast
  have "kept rt rt'" using o r(3) unfolding outside_def by (blast intro: kept_trans)
  then have "dispatched me (RI_Link (LE_Up l peer)) rt (Some (Some (CE_LinkUp l peer cost), as, [])) rt'"
    using r by (simp add: dispatched_def)
  then show ?thesis using Some r(1) by (simp add: link_up_def)
qed

lemma link_down_ok:
  assumes c: "carried {} me [] [] rt" and "bt_len (fw_pending_p0 (rn_forwarder rt)) < 2 ^ 64"
  shows "\<exists>d rt'. link_down now l rt = Inr (d, rt') \<and> dispatched me (RI_Link (LE_Down l)) rt d rt'"
proof -
  let ?rt = "log_event now ''LINK_DOWN'' (link_text l @ ''peer '' @ debug_peer (bt_get (rn_peers rt) l)) (Some l)
    (rt\<lparr>rn_peers := bt_remove l (rn_peers rt)\<rparr>)"
  have o: "outside rt ?rt" by (rule outside_trans [OF outside_effects(9) outside_effects(1)])
  have "\<not> forged me (FE_LinkDown l)" by (simp add: forged_def)
  from feed_forwarder_ok [OF outside_carried [OF o c] _ this, of now] assms(2) obtain as rt' where
    r: "feed_forwarder now (FE_LinkDown l) ?rt = Inr (as, rt')" "carried {} me as [] rt'" "kept ?rt rt'" "rn_endpoint rt' = rn_endpoint ?rt"
    by auto
  have "kept rt rt'" using o r(3) unfolding outside_def by (blast intro: kept_trans)
  then show ?thesis using r by (simp add: link_down_def Let_def dispatched_def)
qed

lemma link_frame_ok:
  assumes c: "carried {} me [] [] rt" and "\<And>p. decode_forward_frame frame = Inr p \<Longrightarrow> \<not> forged me (FE_Inbound l p)"
  shows "\<exists>d rt'. link_frame L now l frame rt = Inr (d, rt') \<and> dispatched me (RI_Link (LE_Frame l frame)) rt d rt'"
proof (cases "wf_type frame = FT_Forward")
  case True
  show ?thesis
  proof (cases "decode_forward_frame frame")
    case (Inl e)
    then show ?thesis using True closed_dispatched [OF c] by (simp add: link_frame_def)
  next
    case (Inr p)
    have "forward_admissible (rn_forwarder rt) (FE_Inbound l p)" using decoded_packet_fits [OF Inr] by simp
    from forward_dispatched [OF c this assms(2) [OF Inr], of "RI_Link (LE_Frame l frame)" now] show ?thesis
      using True Inr by (simp add: link_frame_def)
  qed
next
  case False
  then show ?thesis using c closed_dispatched [OF c, of "RI_Link (LE_Frame l frame)" l]
    by (auto simp: link_frame_def dispatched_def split: sum.splits)
qed

lemma handle_input_ok:
  assumes c: "carried (input_forward_fired input) me [] [] rt" and me: "rn_node_id rt = me" and h: "honest_input rt input"
  shows "\<exists>d rt'. handle_input L now input rt = Inr (d, rt') \<and> dispatched me input rt d rt'"
proof (cases input)
  case (RI_Timer t)
  show ?thesis
  proof (cases t)
    case (RT_Control ct)
    then show ?thesis using c RI_Timer by (simp add: dispatched_def event_fired_def)
  next
    case (RT_Forward ft)
    have "\<not> forged me (FE_Timer ft)" by (simp add: forged_def)
    from forward_dispatched [OF c _ this, of input now] show ?thesis using RI_Timer RT_Forward by simp
  qed
next
  case (RI_Forward fi)
  then have c: "carried {} me [] [] rt" using c by simp
  show ?thesis
  proof (cases fi)
    case (FI_Outbound p)
    let ?rt = "log_event now ''ORIGINATE'' (packet_summary p) None rt"
    have o: "outside rt ?rt" by simp
    from forward_dispatched [OF outside_carried [OF o c], of "FE_Outbound p" input now] obtain d rt' where
      "only_forward (feed_forwarder now (FE_Outbound p) ?rt) = Inr (d, rt')" "dispatched me input ?rt d rt'"
      using h RI_Forward FI_Outbound me by auto
    then show ?thesis using dispatched_outside [OF o] RI_Forward FI_Outbound by auto
  next
    case (FI_OutboundMulticast ds p)
    let ?rt = "log_event now ''MULTICAST''
        (fmt_decimal (length ds) @ '' destinations'' @ middle_dot @ packet_summary p) None rt"
    have o: "outside rt ?rt" by simp
    from forward_dispatched [OF outside_carried [OF o c], of "FE_OutboundMulticast ds p" input now] obtain d rt' where
      "only_forward (feed_forwarder now (FE_OutboundMulticast ds p) ?rt) = Inr (d, rt')" "dispatched me input ?rt d rt'"
      using h RI_Forward FI_OutboundMulticast me by auto
    then show ?thesis using dispatched_outside [OF o] RI_Forward FI_OutboundMulticast by auto
  qed
next
  case (RI_PubSub e)
  then have "carried {} me [] [] rt" "pubsub_admissible (rn_pubsub rt) e" using c h by (cases e, auto)+
  from feed_pubsub_ok [OF this, of L now] show ?thesis using RI_PubSub by (auto simp: dispatched_def)
next
  case (RI_Link e)
  then have c: "carried {} me [] [] rt" using c by simp
  show ?thesis
  proof (cases e)
    case (LE_Sent l ty ch n)
    show ?thesis
    proof (cases "ty = FT_Forward")
      case True
      then show ?thesis using open_link_ok [OF c, of now l n] RI_Link LE_Sent by (auto simp: only_forward_def dispatched_def)
    qed (use c RI_Link LE_Sent in \<open>simp add: only_forward_def dispatched_def\<close>)
  next
    case (LE_Frame l frame)
    then have "\<not> forged me (FE_Inbound l p)" if "decode_forward_frame frame = Inr p" for p
      using h RI_Link me that by simp
    from link_frame_ok [OF c this] show ?thesis using RI_Link LE_Frame by simp
  qed (use RI_Link h me link_up_ok [OF c] link_down_ok [OF c] in auto)
qed

section \<open>One turn\<close>

lemma link_snapshots_ok:
  assumes "forward_inv (rn_forwarder rt)"
  shows "\<exists>queues. link_snapshots rt = Inr queues"
proof -
  have "\<exists>q. queue_snapshot l (rn_forwarder rt) = Inr q" for l
  proof (cases "bt_get (fw_links (rn_forwarder rt)) l")
    case (Some st)
    then have "lq_next_drr st < 3" using assms unfolding forward_inv_def link_inv_def by blast
    then have "\<exists>p. drr_priority (lq_next_drr st) = Inr p" by (auto simp: drr_priority_def)
    then show ?thesis using Some by (auto simp: queue_snapshot_def)
  qed (simp add: queue_snapshot_def)
  then obtain g where g: "\<And>l. queue_snapshot l (rn_forwarder rt) = Inr (g l)" by metis
  then have "rmap (\<lambda>l. rbind (queue_snapshot l (rn_forwarder rt)) (\<lambda>q. Inr (map_option (Pair l) q))) (bt_keys (rn_peers rt)) =
      Inr (map (\<lambda>l. map_option (Pair l) (g l)) (bt_keys (rn_peers rt)))"
    by (intro rmap_Inr) simp
  then show ?thesis by (simp add: link_snapshots_def)
qed

lemma publish_snapshot_ok:
  assumes "parts_ok me rt"
  shows "\<exists>rt'. publish_snapshot now rt = Inr rt' \<and> outside rt rt'"
proof -
  obtain queues where "link_snapshots rt = Inr queues" using link_snapshots_ok assms by (auto simp: parts_ok_def)
  then show ?thesis by (simp add: publish_snapshot_def)
qed

lemma covered_kept: "kept rt rt' \<Longrightarrow> covered None rt \<Longrightarrow> covered None rt'"
  unfolding kept_def advanced_def covered_def by (auto simp: event_fired_def) blast+

lemma finish_iteration_ok:
  assumes c: "carried {} me fas pas rt" and cov: "covered (advertise pas event) rt" and left: "counters_left (rn_plane rt)"
  shows "\<exists>rt'. finish_iteration L now event fas pas rt = Inr rt' \<and> parts_ok me rt' \<and> rn_node_id rt' = rn_node_id rt \<and> rn_peer_costs rt' = rn_peer_costs rt \<and>
    (rn_running rt' \<longrightarrow> covered None rt' \<and> waits (rn_forwarder rt') \<subseteq> forward_timed rt') \<and>
    (\<exists>running fas1 pas1 rt1. feed_plane L now (advertise pas event) fas pas rt = Inr (running, fas1, pas1, rt1) \<and>
      rn_running rt1 = rn_running rt \<and> (if running then kept rt1 rt' else rt' = rt1\<lparr>rn_running := False\<rparr>))"
proof -
  obtain running fas1 pas1 rt1 where 1: "feed_plane L now (advertise pas event) fas pas rt = Inr (running, fas1, pas1, rt1)"
      "carried {} me fas1 pas1 rt1" "rn_node_id rt1 = rn_node_id rt \<and> rn_peer_costs rt1 = rn_peer_costs rt" "running \<longrightarrow> covered None rt1"
      "rn_running rt1 = rn_running rt"
    using feed_plane_ok [OF c cov, of L now] left by blast
  show ?thesis
  proof (cases running)
    case False
    then show ?thesis using 1 by (auto simp: finish_iteration_def carried_def parts_ok_def)
  next
    case True
    obtain added rt2 where 2: "execute_pubsub_actions now pas1 rt1 = Inr (added, rt2)" "carried {} me (fas1 @ added) [] rt2" "kept rt1 rt2"
      using execute_pubsub_ok [OF 1(2)] by blast
    let ?rt = "if rn_diagnostics rt2 then log_forward_actions now (fas1 @ added) rt2 else rt2"
    have o: "outside rt2 ?rt" by (simp add: outside_log_forward)
    obtain rt3 where 3: "execute_forward_actions L now (fas1 @ added) ?rt = Inr rt3" "carried {} me [] [] rt3" "kept ?rt rt3"
      using execute_forward_ok [OF outside_carried [OF o 2(2)]] by blast
    obtain rt' where 4: "publish_snapshot now rt3 = Inr rt'" "outside rt3 rt'"
      using publish_snapshot_ok [of me rt3 now] 3(2) by (auto simp: carried_def)
    have k: "kept rt1 rt'" using 2(3) o 3(3) 4(2) unfolding outside_def by (blast intro: kept_trans)
    have "carried {} me [] [] rt'" by (rule outside_carried [OF 4(2) 3(2)])
    then have "parts_ok me rt'" "waits (rn_forwarder rt') \<subseteq> forward_timed rt'" by (simp_all add: carried_def)
    moreover have "covered None rt'" using covered_kept [OF k] 1(4) True by blast
    moreover have "finish_iteration L now event fas pas rt = Inr rt'"
      using 1(1) True 2(1) 3(1) 4(1) by (simp add: finish_iteration_def Let_def)
    moreover have "rn_node_id rt' = rn_node_id rt \<and> rn_peer_costs rt' = rn_peer_costs rt" using k 1(3) by (simp add: kept_def advanced_def)
    ultimately show ?thesis using k 1(1,5) True by auto
  qed
qed

lemma pop_timer_shape:
  assumes "pop_timer rt = (Some input, rt1)"
  shows "\<exists>ts. rt1 = rt\<lparr>rn_timers := ts\<rparr> \<and> timed rt \<subseteq> timed rt1 \<union> input_fired input \<and>
    forward_timed rt \<subseteq> forward_timed rt1 \<union> input_forward_fired input"
proof -
  obtain at n t ts where p: "heap_pop (rn_timers rt) = Some ((at, n, t), ts)" "input = RI_Timer t" "rt1 = rt\<lparr>rn_timers := ts\<rparr>"
    using assms by (auto simp: pop_timer_def split: option.splits)
  have "set (rn_timers rt) = insert (at, n, t) (set ts)" by (rule heap_pop_set [OF p(1)])
  then show ?thesis unfolding p(2,3) timed_def forward_timed_def by (cases t) auto
qed

lemma recv_shape:
  assumes "recv elapsed arrival rt = (Some input, rt1)"
  shows "\<exists>ts. rt1 = rt\<lparr>rn_timers := ts\<rparr> \<and> timed rt \<subseteq> timed rt1 \<union> input_fired input \<and>
    forward_timed rt \<subseteq> forward_timed rt1 \<union> input_forward_fired input"
proof (cases "pop_timer rt = (Some input, rt1)")
  case True
  then show ?thesis by (rule pop_timer_shape)
next
  case False
  then have "rt1 = rt" using assms by (auto simp: recv_def split: if_splits arrival.splits)
  then have "rt1 = rt\<lparr>rn_timers := rn_timers rt\<rparr> \<and> timed rt \<subseteq> timed rt1 \<and> forward_timed rt \<subseteq> forward_timed rt1" by simp
  then show ?thesis by blast
qed

lemma recv_none:
  assumes "recv elapsed arrival rt = (None, rt1)"
  shows "rt1 = rt"
proof -
  have "pop_timer rt = (None, rt1) \<Longrightarrow> rt1 = rt" by (auto simp: pop_timer_def split: option.splits)
  then show ?thesis using assms by (auto simp: recv_def split: if_splits arrival.splits)
qed

text \<open>A turn, up to the point where the input is dispatched.\<close>

definition received :: "'st runtime \<Rightarrow> dispatch \<Rightarrow> 'st runtime \<Rightarrow> bool" where
  "received rt d rt' \<longleftrightarrow> rn_plane rt' = rn_plane rt \<and> rn_store rt' = rn_store rt \<and> rn_node_id rt' = rn_node_id rt \<and> rn_peer_costs rt' = rn_peer_costs rt \<and>
    rn_running rt' = rn_running rt \<and>
    (case d of
       None \<Rightarrow> carried {} (rn_node_id rt) [] [] rt' \<and> covered None rt'
     | Some (event, fas, pas) \<Rightarrow> carried {} (rn_node_id rt) fas pas rt' \<and> covered (advertise pas event) rt' \<and>
         rn_endpoint rt' = rn_endpoint rt)"

lemma recv_dispatched:
  assumes inv: "runtime_inv rt" "rn_running rt" and r: "recv elapsed arrival rt = (Some input, rt1)" and ok: "input_ok rt input"
  shows "\<exists>d rt'. handle_input L now input rt1 = Inr (d, rt') \<and> received rt d rt'"
proof -
  define me where "me = rn_node_id rt"
  obtain ts where ts: "rt1 = rt\<lparr>rn_timers := ts\<rparr>" "timed rt \<subseteq> timed rt1 \<union> input_fired input"
      "forward_timed rt \<subseteq> forward_timed rt1 \<union> input_forward_fired input"
    using recv_shape [OF r] by blast
  have p: "parts_ok me rt" "covered None rt" "waits (rn_forwarder rt) \<subseteq> forward_timed rt"
    using inv by (simp_all add: runtime_inv_def me_def)
  have "carried (input_forward_fired input) me [] [] rt1"
    using p(1,3) ts(3) unfolding carried_def parts_ok_def by (auto simp: ts(1))
  moreover have "honest_input rt1 input"
    using ok unfolding input_ok_def by (cases "(rt, input)" rule: honest_input.cases) (auto simp: ts(1) split: sum.splits)
  ultimately obtain d rt' where h: "handle_input L now input rt1 = Inr (d, rt')" "dispatched me input rt1 d rt'"
    using handle_input_ok [of input me rt1 L now] me_def by (auto simp: ts(1))
  have k: "kept rt1 rt'" using h(2) by (simp add: dispatched_def)
  have cov: "covered event rt'" if "input_fired input \<subseteq> event_fired event" for event
  proof -
    have "timed rt \<subseteq> timed rt' \<union> event_fired event" "rn_plane rt' = rn_plane rt"
      using k ts(1,2) that by (auto simp: kept_def advanced_def)
    then show ?thesis using p(2) unfolding covered_def event_fired_def by (simp, blast)
  qed
  have "rn_plane rt' = rn_plane rt \<and> rn_store rt' = rn_store rt \<and> rn_node_id rt' = me \<and> rn_peer_costs rt' = rn_peer_costs rt \<and>
      rn_running rt' = rn_running rt"
    using k by (simp add: kept_def advanced_def ts(1) me_def)
  then show ?thesis using h cov unfolding received_def dispatched_def me_def [symmetric]
    by (auto simp: ts(1) event_fired_def split: option.splits)
qed

lemma runtime_step_ok:
  assumes inv: "runtime_inv rt" and ok: "\<And>input rt1. rn_running rt \<Longrightarrow> recv elapsed arrival rt = (Some input, rt1) \<Longrightarrow> input_ok rt input"
  shows "\<exists>rt'. runtime_step L elapsed arrival now rt = Inr rt' \<and> runtime_inv rt' \<and> rn_node_id rt' = rn_node_id rt \<and> rn_peer_costs rt' = rn_peer_costs rt"
proof (cases "rn_running rt \<and> fst (recv elapsed arrival rt) \<noteq> None")
  case False
  have "parts_ok (rn_node_id rt) rt" using inv by (simp add: runtime_inv_def)
  then have stopped: "runtime_inv (rt\<lparr>rn_running := False\<rparr>)" by (simp add: runtime_inv_def parts_ok_def)
  show ?thesis
  proof (cases "rn_running rt")
    case True
    then obtain rt1 where r: "recv elapsed arrival rt = (None, rt1)" using False by (cases "recv elapsed arrival rt") auto
    then have "runtime_step L elapsed arrival now rt = Inr (rt\<lparr>rn_running := False\<rparr>)"
      using True recv_none [OF r] by (simp add: runtime_step_def)
    then show ?thesis using stopped by simp
  qed (use inv in \<open>simp add: runtime_step_def\<close>)
next
  case True
  then obtain input rt1 where r: "recv elapsed arrival rt = (Some input, rt1)" by (cases "recv elapsed arrival rt") auto
  have i: "input_ok rt input" using ok r True by blast
  obtain d rt2 where d: "handle_input L now input rt1 = Inr (d, rt2)" "received rt d rt2"
    using recv_dispatched [OF inv _ r i] True by blast
  have step: "runtime_step L elapsed arrival now rt =
      (case d of None \<Rightarrow> Inr rt2 | Some (event, fas, pas) \<Rightarrow> finish_iteration L now event fas pas rt2)"
    using True r d(1) by (simp add: runtime_step_def run_iteration_def)
  show ?thesis
  proof (cases d)
    case None
    then show ?thesis using step d(2) by (simp add: runtime_inv_def received_def carried_def)
  next
    case (Some x)
    obtain event fas pas where x: "x = (event, fas, pas)" by (cases x)
    have "counters_left (rn_plane rt2)" using i d(2) by (simp add: input_ok_def received_def)
    then obtain rt' where "finish_iteration L now event fas pas rt2 = Inr rt'" "parts_ok (rn_node_id rt) rt'"
        "rn_node_id rt' = rn_node_id rt2 \<and> rn_peer_costs rt' = rn_peer_costs rt2" "rn_running rt' \<longrightarrow> covered None rt' \<and> waits (rn_forwarder rt') \<subseteq> forward_timed rt'"
      using finish_iteration_ok [of "rn_node_id rt" fas pas rt2 event L now] d(2) Some x by (auto simp: received_def)
    then show ?thesis using step Some x d(2) by (simp add: runtime_inv_def received_def)
  qed
qed

section \<open>The sequence store\<close>

lemma control_action_step_plain:
  assumes "control_action_step L now a fas pas rt = Inr (running, fas', pas', rt')" and "plain s a"
  shows "running \<and> rn_store rt' = rn_store rt \<and> rn_plane rt' = rn_plane rt"
proof -
  have o: "rn_store rt2 = rn_store rt1 \<and> rn_plane rt2 = rn_plane rt1" if "outside rt1 rt2" for rt1 rt2 :: "'a runtime"
    using that by (simp add: outside_def kept_def advanced_def)
  note frames = o [OF outside_effects(1)] o [OF outside_effects(3)] o [OF outside_effects(6)]
  from assms show ?thesis
    by (cases a) (auto simp: feed_forwarder_def feed_pubsub_def res_simps frames split: sum.splits prod.splits)
qed

lemma control_actions_plain:
  assumes "control_actions L now as fas pas rt = Inr (running, fas', pas', rt')" and "list_all (plain s) as"
  shows "running \<and> rn_store rt' = rn_store rt \<and> rn_plane rt' = rn_plane rt"
  using assms
proof (induction as arbitrary: fas pas rt)
  case (Cons a as)
  then obtain running1 fas1 pas1 rt1 where 1: "control_action_step L now a fas pas rt = Inr (running1, fas1, pas1, rt1)"
    by (auto simp: res_simps)
  have 2: "running1 \<and> rn_store rt1 = rn_store rt \<and> rn_plane rt1 = rn_plane rt"
    using control_action_step_plain [OF 1, of s] Cons.prems(2) by simp
  then show ?case using Cons.IH [of fas1 pas1 rt1] Cons.prems 1 by simp
qed simp

text \<open>The own sequence number moves by one, to a number that is persisted first; when that fails, nothing else
  is carried out.\<close>

definition seq_step :: "'st libraries \<Rightarrow> 'st runtime \<Rightarrow> bool \<Rightarrow> 'st runtime \<Rightarrow> bool" where
  "seq_step L rt running rt' \<longleftrightarrow>
    (let seq = cp_my_seq (rn_plane rt); seq' = cp_my_seq (rn_plane rt') in
     if seq' = seq then running \<and> rn_store rt' = rn_store rt
     else seq' = seq + 1 \<and>
       (if running then lib_persist L seq' (rn_store rt) = (Inr (), rn_store rt')
        else rn_endpoint rt' = rn_endpoint rt \<and> (\<exists>e. lib_persist L seq' (rn_store rt) = (Inl e, rn_store rt'))))"

lemma feed_plane_seq:
  assumes run: "feed_plane L now event fas pas rt = Inr (running, fas', pas', rt')"
  shows "seq_step L rt running rt'"
proof (cases event)
  case None
  then show ?thesis using run by (auto simp: feed_plane_def seq_step_def)
next
  case (Some e)
  then obtain as s' where 1: "control_handle now e (rn_plane rt) = Inr (as, s')"
      "control_actions L now as fas pas (rt\<lparr>rn_plane := s'\<rparr>) = Inr (running, fas', pas', rt')"
    using run by (auto simp: feed_plane_def res_simps)
  let ?n = "cp_my_seq s'"
  from control_handle_actions [OF 1(1)] consider
    (same) "list_all (plain (rn_plane rt)) as" "?n = cp_my_seq (rn_plane rt)" |
    (new) rest where "as = CA_PersistSeq ?n # rest" "list_all (plain (rn_plane rt)) rest" "?n = cp_my_seq (rn_plane rt) + 1"
    unfolding action_shape_def by blast
  then show ?thesis
  proof cases
    case same
    then show ?thesis using control_actions_plain [OF 1(2) same(1)] by (simp add: seq_step_def)
  next
    case new
    obtain r st where p: "lib_persist L ?n (rn_store rt) = (r, st)" by fastforce
    show ?thesis
    proof (cases r)
      case (Inl e)
      then show ?thesis using 1(2) new(3) p unfolding new(1) by (auto simp: seq_step_def)
    next
      case (Inr u)
      then have "control_actions L now rest fas pas (rt\<lparr>rn_plane := s', rn_store := st\<rparr>) = Inr (running, fas', pas', rt')"
        using 1(2) p unfolding new(1) by simp
      from control_actions_plain [OF this new(2)] show ?thesis using new(3) p Inr by (auto simp: seq_step_def)
    qed
  qed
qed

lemma runtime_step_seq:
  assumes inv: "runtime_inv rt" "rn_running rt"
    and ok: "\<And>input rt1. recv elapsed arrival rt = (Some input, rt1) \<Longrightarrow> input_ok rt input"
    and run: "runtime_step L elapsed arrival now rt = Inr rt'"
  shows "cp_my_seq (rn_plane rt') = cp_my_seq (rn_plane rt) \<and> rn_store rt' = rn_store rt \<or> seq_step L rt (rn_running rt') rt'"
proof (cases "recv elapsed arrival rt")
  case (Pair i rt1)
  show ?thesis
  proof (cases i)
    case None
    then show ?thesis using run inv(2) Pair recv_none [of elapsed arrival rt rt1] by (auto simp: runtime_step_def)
  next
    case (Some input)
    then have r: "recv elapsed arrival rt = (Some input, rt1)" using Pair by simp
    obtain d rt2 where d: "handle_input L now input rt1 = Inr (d, rt2)" "received rt d rt2"
      using recv_dispatched [OF inv r ok [OF r]] by blast
    have step: "Inr rt' = (case d of None \<Rightarrow> Inr rt2 | Some (event, fas, pas) \<Rightarrow> finish_iteration L now event fas pas rt2)"
      using run inv(2) r d(1) by (simp add: runtime_step_def run_iteration_def)
    show ?thesis
    proof (cases d)
      case None
      then show ?thesis using step d(2) by (simp add: received_def)
    next
      case (Some x)
      obtain event fas pas where x: "x = (event, fas, pas)" by (cases x)
      have rec: "carried {} (rn_node_id rt) fas pas rt2" "covered (advertise pas event) rt2" "rn_plane rt2 = rn_plane rt"
          "rn_store rt2 = rn_store rt" "rn_endpoint rt2 = rn_endpoint rt" "rn_running rt2"
        using inv(2) d(2) Some x by (simp_all add: received_def)
      have "counters_left (rn_plane rt2)" using ok [OF r] rec(3) by (simp add: input_ok_def)
      then obtain running fas1 pas1 rt3 where 3: "feed_plane L now (advertise pas event) fas pas rt2 = Inr (running, fas1, pas1, rt3)"
          "if running then kept rt3 rt' else rt' = rt3\<lparr>rn_running := False\<rparr>" "rn_running rt3 = rn_running rt2"
        using finish_iteration_ok [OF rec(1,2), of L now] step Some x by auto
      show ?thesis using feed_plane_seq [OF 3(1)] 3(2,3) rec(3-6)
        unfolding seq_step_def kept_def advanced_def by (auto simp: Let_def split: if_splits)
    qed
  qed
qed

end
