(* ===== verification/RuntimeClaims.thy ===== *)
theory RuntimeClaims
  imports RuntimeProps
begin

text \<open>
  The properties of a whole node: the driver with the control plane, the forwarder, the
  publish/subscribe component, the timer queue and the sequence store. The driver interprets
  \<open>component\<close>; its events are the turns of its loop, whatever the world outside the loop does to the
  endpoint and the application channels between two turns, and the shutdown.
\<close>

section \<open>The driver as a component\<close>

datatype runtime_turn =
    Turn mono_time arrival
  | World endpoint "(node_id, link_cost) btree" "forward_outcome outcome_sender" "pubsub_outcome outcome_sender" bool
  | Shutdown

fun runtime_handle :: "'st libraries \<Rightarrow> ('st runtime, runtime_turn, unit) handler" where
  "runtime_handle L now (Turn elapsed arrival) rt = rbind (runtime_step L elapsed arrival now rt) (\<lambda>rt. Inr ([], rt))"
| "runtime_handle L now (World ep costs fo po diagnostics) rt =
    Inr ([], rt\<lparr>rn_endpoint := ep, rn_peer_costs := costs, rn_forward_outcomes := fo, rn_pubsub_outcomes := po,
               rn_diagnostics := diagnostics\<rparr>)"
| "runtime_handle L now Shutdown rt = Inr ([], runtime_shutdown rt)"

fun runtime_admissible :: "'st runtime \<Rightarrow> runtime_turn \<Rightarrow> bool" where
  "runtime_admissible rt (Turn elapsed arrival) \<longleftrightarrow>
    (rn_running rt \<longrightarrow> (case recv elapsed arrival rt of (None, _) \<Rightarrow> True | (Some input, _) \<Rightarrow> input_ok rt input))"
| "runtime_admissible rt _ \<longleftrightarrow> True"

text \<open>The requests of the application that act between two turns are such changes.\<close>

lemma requests_are_outside:
  "\<exists>ep costs fo po d. runtime_handle L now (World ep costs fo po d) rt = Inr ([], enable_diagnostics rt)"
  "\<exists>ep costs fo po d. runtime_handle L now (World ep costs fo po d) rt = Inr ([], allow_peer peer cost rt)"
  "\<exists>ep costs fo po d. runtime_handle L now (World ep costs fo po d) rt = Inr ([], snd (close_link l rt))"
proof -
  have w: "\<exists>ep costs fo po d. runtime_handle L now (World ep costs fo po d) rt = Inr ([], rt')"
    if "rt' = rt\<lparr>rn_endpoint := rn_endpoint rt', rn_peer_costs := rn_peer_costs rt',
          rn_forward_outcomes := rn_forward_outcomes rt', rn_pubsub_outcomes := rn_pubsub_outcomes rt',
          rn_diagnostics := rn_diagnostics rt'\<rparr>" for rt'
    using that [symmetric] by (intro exI [of _ "rn_endpoint rt'"] exI [of _ "rn_peer_costs rt'"] exI [of _ "rn_forward_outcomes rt'"]
        exI [of _ "rn_pubsub_outcomes rt'"] exI [of _ "rn_diagnostics rt'"]) simp
  show "\<exists>ep costs fo po d. runtime_handle L now (World ep costs fo po d) rt = Inr ([], enable_diagnostics rt)"
    and "\<exists>ep costs fo po d. runtime_handle L now (World ep costs fo po d) rt = Inr ([], allow_peer peer cost rt)"
    and "\<exists>ep costs fo po d. runtime_handle L now (World ep costs fo po d) rt = Inr ([], snd (close_link l rt))"
    by (rule w, simp add: enable_diagnostics_def allow_peer_def close_link_def split: prod.split)+
qed

lemma runtime_handle_ok:
  assumes "runtime_inv rt" and "runtime_admissible rt t"
  shows "\<exists>rt'. runtime_handle L now t rt = Inr ([], rt') \<and> runtime_inv rt' \<and> rn_node_id rt' = rn_node_id rt"
proof (cases t)
  case (Turn elapsed arrival)
  have "\<exists>rt'. runtime_step L elapsed arrival now rt = Inr rt' \<and> runtime_inv rt' \<and> rn_node_id rt' = rn_node_id rt \<and>
      rn_peer_costs rt' = rn_peer_costs rt"
    by (rule runtime_step_ok [OF assms(1)]) (use assms(2) Turn in simp)
  then show ?thesis using Turn by auto
next
  case (World ep costs fo po d)
  let ?rt = "rt\<lparr>rn_endpoint := ep, rn_peer_costs := costs, rn_forward_outcomes := fo, rn_pubsub_outcomes := po, rn_diagnostics := d\<rparr>"
  have "runtime_inv ?rt"
    using assms(1) by (simp add: runtime_inv_def parts_ok_def covered_def timed_def forward_timed_def)
  then show ?thesis using World by simp
next
  case Shutdown
  have "runtime_inv (runtime_shutdown rt)"
    using assms(1) by (simp add: runtime_inv_def parts_ok_def runtime_shutdown_def)
  then show ?thesis using Shutdown by (simp add: runtime_shutdown_def)
qed

interpretation node: component "runtime_handle L" runtime_inv runtime_admissible for L
  by unfold_locales (use runtime_handle_ok in blast)

lemma spawn_inv:
  assumes "spawn load config ep store policies = Inr rt"
  shows "runtime_inv rt" "rn_node_id rt = rc_node_id config" "rn_store rt = store" "rn_running rt"
    "load store = Inr (cp_my_seq (rn_plane rt))"
proof -
  obtain n where n: "load store = Inr n" and rt: "rt = \<lparr>rn_node_id = rc_node_id config,
      rn_plane = new_unsecured_with_seq (rc_node_id config) (rc_epoch config) n,
      rn_forwarder = forwarder_new (rc_node_id config) (cp_routes (new_unsecured_with_seq (rc_node_id config) (rc_epoch config) n)),
      rn_pubsub = pubsub_new (rc_node_id config) policies, rn_endpoint = ep, rn_store = store,
      rn_peer_costs = rc_peer_costs config, rn_peers = bt_empty, rn_timers = [], rn_next_timer_sequence = 0,
      rn_forward_outcomes = \<lparr>tx_queue = [], tx_open = True\<rparr>, rn_pubsub_outcomes = \<lparr>tx_queue = [], tx_open = True\<rparr>,
      rn_diagnostics = False, rn_log = event_log_new,
      rn_snapshot = snapshot_empty (rc_node_id config) (cp_routes (new_unsecured_with_seq (rc_node_id config) (rc_epoch config) n)),
      rn_running = True\<rparr>"
    using assms by (auto simp: spawn_def res_simps Let_def split: if_splits)
  let ?s = "new_unsecured_with_seq (rc_node_id config) (rc_epoch config) n"
  have s: "control_inv ?s" "cp_me ?s = rc_node_id config" "cp_lsdb ?s = bt_empty" "cp_pending_spf ?s = None"
      "cp_adjacencies ?s = bt_empty" "cp_my_seq ?s = n"
    using with_auth_inv [OF unsecured.lsa_auth_axioms]
    by (simp_all add: new_unsecured_with_seq_def with_auth_and_seq_def)
  have "covered None rt"
    using s by (simp add: rt covered_def deadlines_def spf_deadlines_def lsa_deadlines_def refresh_deadlines_def)
  moreover have "waits (rn_forwarder rt) = {}" "fw_me (rn_forwarder rt) = rc_node_id config" "ps_me (rn_pubsub rt) = rc_node_id config"
    by (simp_all add: rt waits_def forwarder_new_def pubsub_new_def)
  moreover have "ads_valid ?s" using s(3) by (simp add: ads_valid_def)
  ultimately show "runtime_inv rt"
    using s(1,2) forward_inv_new pubsub_ok_new by (simp add: runtime_inv_def parts_ok_def rt)
  show "rn_node_id rt = rc_node_id config" "rn_store rt = store" "rn_running rt" "load store = Inr (cp_my_seq (rn_plane rt))"
    using n s(6) by (simp_all add: rt)
qed

lemma node_id_kept:
  assumes "node.reachable L rt0 rt" and "runtime_inv rt0"
  shows "rn_node_id rt = rn_node_id rt0"
  using assms
proof (induction rule: node.reachable.induct)
  case (next_state rt t now as rt')
  have "runtime_inv rt" by (rule node.reachable_inv [OF next_state.hyps(1) next_state.prems])
  from runtime_handle_ok [OF this next_state.hyps(2), of L now] next_state show ?case by auto
qed simp

text \<open>A timer is in the queue of the driver, for a given time.\<close>

definition scheduled :: "mono_time \<Rightarrow> runtime_timer \<Rightarrow> 'st runtime \<Rightarrow> bool" where
  "scheduled at t rt \<longleftrightarrow> (\<exists>n. (at, n, t) \<in> set (rn_timers rt))"

lemma timed_eq:
  "timed rt = {(t, at). scheduled at (RT_Control t) rt}" "forward_timed rt = {(t, at). scheduled at (RT_Forward t) rt}"
  by (simp_all add: timed_def forward_timed_def scheduled_def)

lemma due_timer_first:
  assumes "scheduled at t rt" and "at \<le> elapsed"
  shows "\<exists>at' t'. scheduled at' t' rt \<and> at' \<le> at \<and> fst (recv elapsed arrival rt) = Some (RI_Timer t')"
proof -
  obtain n where t: "(at, n, t) \<in> set (rn_timers rt)" using assms(1) by (auto simp: scheduled_def)
  then have "rn_timers rt \<noteq> []" by auto
  then obtain at' n' t' where m: "Min (set (rn_timers rt)) = (at', n', t')" by (metis prod_cases3)
  have "(at', n', t') \<in> set (rn_timers rt)" using Min_in [of "set (rn_timers rt)"] \<open>rn_timers rt \<noteq> []\<close> m by simp
  moreover have "(at', n', t') \<le> (at, n, t)" using Min_le [OF _ t] m by simp
  then have "at' \<le> at" by (auto simp: less_eq_prod_def split: if_splits)
  moreover have "heap_peek (rn_timers rt) = Some (at', n', t')" using m \<open>rn_timers rt \<noteq> []\<close> by (simp add: heap_peek_Some)
  ultimately show ?thesis using assms(2) by (auto simp: recv_def pop_timer_def heap_pop_def scheduled_def)
qed

text \<open>The store of a running node holds its sequence number.\<close>

definition stored :: "('st \<Rightarrow> string + u64) \<Rightarrow> ('st \<Rightarrow> bool) \<Rightarrow> 'st runtime \<Rightarrow> bool" where
  "stored load ok rt \<longleftrightarrow> ok (rn_store rt) \<and> (rn_running rt \<longrightarrow> load (rn_store rt) = Inr (cp_my_seq (rn_plane rt)))"

lemma handle_seq_step:
  assumes "runtime_inv rt" "rn_running rt" "runtime_admissible rt t" "runtime_handle L now t rt = Inr ([], rt')"
  shows "cp_my_seq (rn_plane rt') = cp_my_seq (rn_plane rt) \<and> rn_store rt' = rn_store rt \<or> seq_step L rt (rn_running rt') rt'"
proof (cases t)
  case (Turn elapsed arrival)
  then have "runtime_step L elapsed arrival now rt = Inr rt'" using assms(4) by (auto simp: res_simps)
  then show ?thesis by (rule runtime_step_seq [OF assms(1,2), rotated]) (use assms(2,3) Turn in simp)
qed (use assms(4) in \<open>auto simp: runtime_shutdown_def\<close>)

lemma handle_seq:
  assumes "seq_store load (lib_persist L) ok" "runtime_inv rt" "rn_running rt" "ok (rn_store rt)"
    and "runtime_admissible rt t" "runtime_handle L now t rt = Inr ([], rt')" "cp_my_seq (rn_plane rt') \<noteq> cp_my_seq (rn_plane rt)"
  shows "cp_my_seq (rn_plane rt') = cp_my_seq (rn_plane rt) + 1 \<and>
    (if rn_running rt' then load (rn_store rt') = Inr (cp_my_seq (rn_plane rt'))
     else rn_endpoint rt' = rn_endpoint rt \<and> load (rn_store rt') = load (rn_store rt))"
  using handle_seq_step [OF assms(2,3,5,6)] assms(4,7)
    seq_store.persist_stores [OF assms(1,4)] seq_store.persist_fails [OF assms(1,4)]
  by (auto simp: seq_step_def Let_def)

lemma stored_step:
  assumes "seq_store load (lib_persist L) ok" "runtime_inv rt" "stored load ok rt"
    and "runtime_admissible rt t" "runtime_handle L now t rt = Inr ([], rt')"
  shows "stored load ok rt'"
proof (cases "rn_running rt")
  case True
  then have ok: "ok (rn_store rt)" "load (rn_store rt) = Inr (cp_my_seq (rn_plane rt))" using assms(3) by (auto simp: stored_def)
  from handle_seq_step [OF assms(2) True assms(4,5)] show ?thesis
    using ok seq_store.persist_stores [OF assms(1) ok(1)] seq_store.persist_ok [OF assms(1) ok(1)]
    by (auto simp: seq_step_def Let_def stored_def split: if_splits)
next
  case False
  then have "rn_store rt' = rn_store rt \<and> \<not> rn_running rt'"
    using assms(5) by (cases t) (auto simp: runtime_step_def runtime_shutdown_def)
  then show ?thesis using assms(3) by (simp add: stored_def)
qed

lemma stored_reachable:
  assumes "seq_store load (lib_persist L) ok" "runtime_inv rt0" "stored load ok rt0" "node.reachable L rt0 rt"
  shows "stored load ok rt"
  using assms(4)
proof (induction rule: node.reachable.induct)
  case (next_state rt t now as rt')
  have inv: "runtime_inv rt" by (rule node.reachable_inv [OF next_state.hyps(1) assms(2)])
  have "as = []" using runtime_handle_ok [OF inv next_state.hyps(2), of L now] next_state.hyps(3) by auto
  then show ?case using stored_step [OF assms(1) inv next_state.IH next_state.hyps(2)] next_state.hyps(3) by simp
qed (rule assms(3))

section \<open>A sample node\<close>

definition sample_libraries :: "memory_seq_store libraries" where
  "sample_libraries = \<lparr>lib_prost = reference_prost, lib_enc_envelope = envelope_put, lib_dec_envelope = envelope_get,
     lib_persist = memory_persist\<rparr>"

definition sample_config :: runtime_config where
  "sample_config = \<lparr>rc_node_id = 1, rc_epoch = 0, rc_peer_costs = bt_insert 2 10 bt_empty\<rparr>"

definition sample_spawn :: "runtime_error + memory_seq_store runtime" where
  "sample_spawn = spawn memory_load sample_config (endpoint_bind 1 [2]) (with_seq 41) sample_policies"

definition sample_node :: "memory_seq_store runtime" where
  "sample_node = projr sample_spawn"

text \<open>The application subscribes, which makes the node advertise itself; then the route computation is due.\<close>

definition sample_turns :: "(mono_time \<times> runtime_turn) list" where
  "sample_turns = 
    [(5, Turn 5 (Arr_PubSub (Some (PE_LocalSubscribe 9 (TopicSelector ''news'' None))))), (70, Turn 70 Arr_Timer)]"

definition sample_run :: "memory_seq_store runtime" where
  "sample_run = the (run_admissible (runtime_handle sample_libraries) runtime_admissible sample_turns sample_node)"

lemma sample_spawned: "spawn memory_load sample_config (endpoint_bind 1 [2]) (with_seq 41) sample_policies = Inr sample_node"
proof -
  have "\<not> isl sample_spawn" by code_simp
  then have "sample_spawn = Inr sample_node" unfolding sample_node_def by (rule sum.collapse(2) [symmetric])
  then show ?thesis unfolding sample_spawn_def .
qed

lemma sample_run_reachable: "node.reachable sample_libraries sample_node sample_run"
proof -
  have "run_admissible (runtime_handle sample_libraries) runtime_admissible sample_turns sample_node \<noteq> None" by code_simp
  then show ?thesis unfolding sample_run_def by (auto intro: node.run_admissible_reachable)
qed

section \<open>The properties\<close>

text \<open>
C1: A node does not panic. From the start, over every sequence of link events, frames, requests and
timers whose packets do not bring the node envelopes forged in its own name, the next turn of the loop
runs to its end; the three components keep their invariants and share the identity of the configuration,
and the event log stays within its limit.
\<close>

theorem node_never_panics:
  assumes "spawn load config ep store policies = Inr rt0" and "node.reachable L rt0 rt" and "runtime_admissible rt t"
  shows "\<exists>rt'. runtime_handle L now t rt = Inr ([], rt') \<and>
    control_inv (rn_plane rt') \<and> forward_inv (rn_forwarder rt') \<and> pubsub_ok (rn_pubsub rt') \<and>
    cp_me (rn_plane rt') = rc_node_id config \<and> fw_me (rn_forwarder rt') = rc_node_id config \<and>
    ps_me (rn_pubsub rt') = rc_node_id config \<and> length (lg_recent (rn_log rt')) \<le> RECENT_EVENT_LIMIT"
proof -
  note start = spawn_inv [OF assms(1)]
  have "runtime_inv rt" by (rule node.reachable_inv [OF assms(2) start(1)])
  from runtime_handle_ok [OF this assms(3), of L now] node_id_kept [OF assms(2) start(1)] start(2) show ?thesis
    by (auto simp: runtime_inv_def parts_ok_def log_inv_def)
qed

theorem node_never_panics_witness:
  "\<exists>rt'. runtime_handle sample_libraries 80 (Turn 80 (Arr_Link (Some (LE_Down 7)))) sample_run = Inr ([], rt') \<and>
    cp_me (rn_plane rt') = 1 \<and> fw_me (rn_forwarder rt') = 1"
proof -
  have "runtime_admissible sample_run (Turn 80 (Arr_Link (Some (LE_Down 7))))" by code_simp
  from node_never_panics [OF sample_spawned sample_run_reachable this, of 80] show ?thesis by (auto simp: sample_config_def)
qed

text \<open>
C3: No deadline is lost. While a node runs, its timer queue holds, at the right time, the timer of the pending
route computation, of the expiry of every active LSA, of the refresh of its own LSA and of every batch of
parked packets, and a digest timer for every adjacency. When a timer is due, the next turn handles the
earliest timer, whatever else has arrived.
\<close>

theorem node_deadlines_timed:
  assumes "spawn load config ep store policies = Inr rt0" and "node.reachable L rt0 rt" and "rn_running rt"
  shows "(\<forall>p. cp_pending_spf (rn_plane rt) = Some p \<longrightarrow> scheduled (ps_at p) (RT_Control (CT_SpfHold (ps_generation p))) rt) \<and>
    (\<forall>origin x a. bt_get (cp_lsdb (rn_plane rt)) origin = Some x \<longrightarrow> entry_active x = Some a \<longrightarrow>
      scheduled (al_expires_at a) (RT_Control (CT_LsaExpire origin (fst (le_version x)) (snd (le_version x)))) rt) \<and>
    (\<forall>x a. bt_get (cp_lsdb (rn_plane rt)) (rc_node_id config) = Some x \<longrightarrow> entry_active x = Some a \<longrightarrow>
      scheduled (sat_add (al_received_at a) (ttl_ms (msg_lsa (al_message a)) div 5))
        (RT_Control (CT_LsaRefresh (fst (le_version x)) (snd (le_version x)))) rt) \<and>
    (\<forall>l. bt_contains (cp_adjacencies (rn_plane rt)) l \<longrightarrow> (\<exists>at. scheduled at (RT_Control (CT_Digest l)) rt)) \<and>
    (\<forall>g b. bt_get (fw_pending_p0 (rn_forwarder rt)) g = Some b \<longrightarrow> scheduled (pb_expires_at b) (RT_Forward (PendingP0 g)) rt) \<and>
    (\<forall>at t elapsed arrival. scheduled at t rt \<longrightarrow> at \<le> elapsed \<longrightarrow>
      (\<exists>at' t'. scheduled at' t' rt \<and> at' \<le> at \<and> fst (recv elapsed arrival rt) = Some (RI_Timer t')))"
proof -
  note start = spawn_inv [OF assms(1)]
  have inv: "runtime_inv rt" by (rule node.reachable_inv [OF assms(2) start(1)])
  have me: "cp_me (rn_plane rt) = rc_node_id config"
    using inv node_id_kept [OF assms(2) start(1)] start(2) by (simp add: runtime_inv_def parts_ok_def)
  have c: "deadlines (rn_plane rt) \<subseteq> timed rt" "refresh_deadlines (rn_plane rt) \<subseteq> timed rt" "waits (rn_forwarder rt) \<subseteq> forward_timed rt"
    and d: "\<forall>l. bt_contains (cp_adjacencies (rn_plane rt)) l \<longrightarrow> (\<exists>at. (CT_Digest l, at) \<in> timed rt)"
    using inv assms(3) by (auto simp: runtime_inv_def covered_def event_fired_def)
  have spf: "scheduled (ps_at p) (RT_Control (CT_SpfHold (ps_generation p))) rt" if "cp_pending_spf (rn_plane rt) = Some p" for p
    using c(1) that unfolding deadlines_def spf_deadlines_def timed_eq by blast
  have expire: "scheduled (al_expires_at a) (RT_Control (CT_LsaExpire origin (fst (le_version x)) (snd (le_version x)))) rt"
    if "bt_get (cp_lsdb (rn_plane rt)) origin = Some x" "entry_active x = Some a" for origin x a
  proof -
    have "(CT_LsaExpire origin (fst (le_version x)) (snd (le_version x)), al_expires_at a) \<in> deadlines (rn_plane rt)"
      using that unfolding deadlines_def lsa_deadlines_def by blast
    then show ?thesis using c(1) unfolding timed_eq by blast
  qed
  have refresh: "scheduled (sat_add (al_received_at a) (ttl_ms (msg_lsa (al_message a)) div 5))
      (RT_Control (CT_LsaRefresh (fst (le_version x)) (snd (le_version x)))) rt"
    if "bt_get (cp_lsdb (rn_plane rt)) (rc_node_id config) = Some x" "entry_active x = Some a" for x a
  proof -
    have "(CT_LsaRefresh (fst (le_version x)) (snd (le_version x)), sat_add (al_received_at a) (ttl_ms (msg_lsa (al_message a)) div 5))
        \<in> refresh_deadlines (rn_plane rt)"
      using that unfolding refresh_deadlines_def me by blast
    then show ?thesis using c(2) unfolding timed_eq by blast
  qed
  have parked: "scheduled (pb_expires_at b) (RT_Forward (PendingP0 g)) rt" if "bt_get (fw_pending_p0 (rn_forwarder rt)) g = Some b" for g b
    using c(3) that unfolding waits_def timed_eq by blast
  have digest: "\<exists>at. scheduled at (RT_Control (CT_Digest l)) rt" if "bt_contains (cp_adjacencies (rn_plane rt)) l" for l
    using d that unfolding timed_eq by blast
  show ?thesis by (intro conjI allI impI spf expire refresh digest parked due_timer_first)
qed

theorem node_deadlines_timed_witness:
  "\<exists>origin x a. bt_get (cp_lsdb (rn_plane sample_run)) origin = Some x \<and> entry_active x = Some a \<and>
    scheduled (al_expires_at a) (RT_Control (CT_LsaExpire origin (fst (le_version x)) (snd (le_version x)))) sample_run"
proof -
  have running: "rn_running sample_run" by code_simp
  have "case bt_get (cp_lsdb (rn_plane sample_run)) 1 of None \<Rightarrow> False | Some x \<Rightarrow> entry_active x \<noteq> None" by code_simp
  then obtain x a where xa: "bt_get (cp_lsdb (rn_plane sample_run)) 1 = Some x" "entry_active x = Some a"
    by (auto split: option.splits)
  show ?thesis using node_deadlines_timed [OF sample_spawned sample_run_reachable running] xa by blast
qed

text \<open>
C2: A node never reuses a sequence number, whatever store it has, as long as the store keeps its contract.
While it runs, the store holds the number of its last origination, so that a restart from the store
continues behind it. A turn that originates moves the number by one and persists it before anything is
sent; when the store refuses, the loop stops with the endpoint untouched and the store as it was.
\<close>

theorem sequence_persisted_first:
  assumes "seq_store load (lib_persist L) ok" and "ok store"
    and "spawn load config ep store policies = Inr rt0" and "node.reachable L rt0 rt" and "rn_running rt"
  shows "load (rn_store rt) = Inr (cp_my_seq (rn_plane rt)) \<and>
    (\<forall>config' ep' policies' rt1. spawn load config' ep' (rn_store rt) policies' = Inr rt1 \<longrightarrow>
      cp_my_seq (rn_plane rt1) = cp_my_seq (rn_plane rt)) \<and>
    (\<forall>t now rt'. runtime_admissible rt t \<longrightarrow> runtime_handle L now t rt = Inr ([], rt') \<longrightarrow>
      cp_my_seq (rn_plane rt') \<noteq> cp_my_seq (rn_plane rt) \<longrightarrow>
      cp_my_seq (rn_plane rt') = cp_my_seq (rn_plane rt) + 1 \<and>
      (if rn_running rt' then load (rn_store rt') = Inr (cp_my_seq (rn_plane rt'))
       else rn_endpoint rt' = rn_endpoint rt \<and> load (rn_store rt') = load (rn_store rt)))"
proof -
  note start = spawn_inv [OF assms(3)]
  have "stored load ok rt" using stored_reachable [OF assms(1) start(1) _ assms(4)] assms(2) start(3,5) by (simp add: stored_def)
  then have st: "ok (rn_store rt)" "load (rn_store rt) = Inr (cp_my_seq (rn_plane rt))" using assms(5) by (auto simp: stored_def)
  have inv: "runtime_inv rt" by (rule node.reachable_inv [OF assms(4) start(1)])
  have "cp_my_seq (rn_plane rt1) = cp_my_seq (rn_plane rt)" if "spawn load config' ep' (rn_store rt) policies' = Inr rt1"
    for config' ep' policies' rt1
    using spawn_inv(5) [OF that] st(2) by simp
  then show ?thesis using handle_seq [OF assms(1) inv assms(5)] st by blast
qed

theorem sequence_persisted_first_witness:
  "memory_load (rn_store sample_run) = Inr 42 \<and> cp_my_seq (rn_plane sample_run) = 42"
proof -
  have store: "seq_store memory_load (lib_persist sample_libraries) (\<lambda>_. True)"
    using memory_store.seq_store_axioms by (simp add: sample_libraries_def)
  have running: "rn_running sample_run" by code_simp
  have "cp_my_seq (rn_plane sample_run) = 42" by code_simp
  then show ?thesis
    using sequence_persisted_first [OF store _ sample_spawned sample_run_reachable running] by simp
qed

end
