(* ===== verification/NodeApi.thy ===== *)
theory NodeApi
  imports ErrorText RuntimeClaims
begin

text \<open>
  Binary \<open>mblab-node\<close>: one node behind an HTTP interface. The handlers read and act on the driver of
  \<open>mb-runtime\<close>; a request arrives parsed and an answer leaves as a value, since the web framework, the
  JSON codec and the sockets are outside the repository. An address is kept in its printed form.
\<close>

section \<open>Answers\<close>

type_synonym status_code = u16

definition OK :: status_code where "OK = 200"
definition ACCEPTED :: status_code where "ACCEPTED = 202"
definition BAD_REQUEST :: status_code where "BAD_REQUEST = 400"
definition INTERNAL_SERVER_ERROR :: status_code where "INTERNAL_SERVER_ERROR = 500"

type_synonym api_error = "status_code \<times> string"

definition bad_request :: "string \<Rightarrow> api_error" where
  "bad_request message = (BAD_REQUEST, message)"

definition internal_error :: "string \<Rightarrow> api_error" where
  "internal_error error = (INTERNAL_SERVER_ERROR, error)"

section \<open>Numeric identities\<close>

definition node_id :: "u64 \<Rightarrow> node_id" where
  "node_id v = from_bytes (replicate 24 0 @ put_u64 v)"

definition numeric_id :: "node_id \<Rightarrow> u64" where
  "numeric_id v = from_be (drop 24 (as_bytes v))"

section \<open>Responses\<close>

record health_response =
  hr_status :: string
  hr_node_id :: u64
  hr_name :: string
  hr_mesh_addr :: string

record peer_response =
  pr_link_id :: u64
  pr_peer :: u64

record lsa_response =
  lr_origin :: u64
  lr_epoch :: u32
  lr_sequence :: u64
  lr_adjacencies :: "u64 list"

record route_response =
  rr_destination :: u64
  rr_next_hop :: u64
  rr_cost :: u32
  rr_hops :: u8

record queue_response =
  qr_link_id :: u64
  qr_packets :: "usize list"
  qr_bytes :: "usize list"

record event_response =
  er_sequence :: u64
  er_at_ms :: u64
  er_kind :: string
  er_detail :: string
  er_link_id :: "u64 option"
  er_peer :: "u64 option"

record outcome_response =
  or_sequence :: u64
  or_at_ms :: u64
  or_kind :: string
  or_detail :: string
  or_source :: u64
  or_destination :: "u64 option"
  or_priority :: u8
  or_flow_id :: u64
  or_payload_bytes :: "usize option"
  or_payload_preview :: string

record snapshot_response =
  sr_id :: u64
  sr_name :: string
  sr_mesh_addr :: string
  sr_now_ms :: u64
  sr_peers :: "peer_response list"
  sr_lsdb :: "lsa_response list"
  sr_routes :: "route_response list"
  sr_queues :: "queue_response list"
  sr_events :: "event_response list"
  sr_outcomes :: "outcome_response list"

section \<open>The state of the process\<close>

record 'st app_state =
  as_name :: string
  as_numeric_id :: u64
  as_mesh_addr :: string
  as_runtime :: "'st runtime"
  as_outcomes :: "outcome_response list"
  as_outcome_sequence :: u64












section \<open>Handlers\<close>

definition health :: "'st app_state \<Rightarrow> health_response" where
  "health st =
    \<lparr>hr_status = ''ok'', hr_node_id = as_numeric_id st, hr_name = as_name st, hr_mesh_addr = as_mesh_addr st\<rparr>"

definition event_response_of :: "(link_id, node_id) btree \<Rightarrow> runtime_event \<Rightarrow> event_response" where
  "event_response_of peers event =
    \<lparr>er_sequence = ev_sequence event, er_at_ms = ev_at event, er_kind = ev_kind event, er_detail = ev_detail event,
     er_link_id = ev_link event,
     er_peer = map_option numeric_id (Option.bind (ev_link event) (bt_get peers))\<rparr>"

definition snapshot_response_of :: "u64 \<Rightarrow> 'st app_state \<Rightarrow> runtime_snapshot \<Rightarrow> outcome_response list \<Rightarrow> snapshot_response" where
  "snapshot_response_of now_ms st sn outcomes =
    \<lparr>sr_id = as_numeric_id st, sr_name = as_name st, sr_mesh_addr = as_mesh_addr st, sr_now_ms = now_ms,
     sr_peers = map (\<lambda>(link, peer). \<lparr>pr_link_id = link, pr_peer = numeric_id peer\<rparr>) (bt_entries (rs_peers sn)),
     sr_lsdb = map (\<lambda>l. \<lparr>lr_origin = numeric_id (lsa_origin l), lr_epoch = lsa_epoch l, lr_sequence = lsa_seq l,
                         lr_adjacencies = map (\<lambda>a. numeric_id (adj_peer a)) (lsa_adjacencies l)\<rparr>) (rs_lsas sn),
     sr_routes = map (\<lambda>(destination, route). \<lparr>rr_destination = numeric_id destination, rr_next_hop = rt_next_hop route,
                         rr_cost = rt_cost route, rr_hops = rt_hops route\<rparr>) (route_iter (rs_routes sn)),
     sr_queues = map (\<lambda>(link, queue). \<lparr>qr_link_id = link, qr_packets = sn_packet_counts queue, qr_bytes = sn_queued_bytes queue\<rparr>)
                   (bt_entries (rs_queues sn)),
     sr_events = map (event_response_of (rs_peers sn)) (rs_recent_events sn),
     sr_outcomes = outcomes\<rparr>"

definition snapshot :: "u64 \<Rightarrow> 'st app_state \<Rightarrow> snapshot_response" where
  "snapshot now_ms st = snapshot_response_of now_ms st (rn_snapshot (as_runtime st)) (as_outcomes st)"




definition api_packet :: "u64 \<Rightarrow> priority \<Rightarrow> u64 \<Rightarrow> string \<Rightarrow> 'st app_state \<Rightarrow> forward_packet" where
  "api_packet destination priority flow_id payload st =
    \<lparr>p_header = \<lparr>h_packet_type = Unicast, h_priority = priority, h_ttl = 32, h_flags = flags_empty,
       h_destination = node_id destination, h_source = node_id (as_numeric_id st), h_flow_id = flow_id, h_conflate_key = 0\<rparr>,
     p_multicast_destinations = [], p_payload = str_bytes payload\<rparr>"

text \<open>The answer, and the input the driver is given.\<close>

definition send_packet_api ::
  "u64 \<Rightarrow> u8 \<Rightarrow> u64 \<Rightarrow> string \<Rightarrow> 'st app_state \<Rightarrow> (api_error + status_code) \<times> runtime_input option" where
  "send_packet_api destination priority flow_id payload st =
    (case priority_try_from priority of
       Inl _ \<Rightarrow> (Inl (bad_request ''priority must be between 0 and 3''), None)
     | Inr priority \<Rightarrow>
         (case request_send (api_packet destination priority flow_id payload st) (as_runtime st) of
            Inl e \<Rightarrow> (Inl (internal_error (runtime_error_text e)), None)
          | Inr input \<Rightarrow> (Inr ACCEPTED, Some input)))"

section \<open>Start\<close>

fun find_arg :: "string \<Rightarrow> string list \<Rightarrow> string option \<Rightarrow> string + string" where
  "find_arg flag [] fallback =
    (case fallback of None \<Rightarrow> Inl (''missing required argument '' @ flag) | Some v \<Rightarrow> Inr v)"
| "find_arg flag (argument # args) fallback =
    (if argument = flag then (case args of [] \<Rightarrow> Inl (''missing value for '' @ flag) | v # _ \<Rightarrow> Inr v)
     else find_arg flag args fallback)"

text \<open>\<open>str::parse::<u16>\<close>.\<close>

fun parse_u16_digits :: "string \<Rightarrow> nat \<Rightarrow> string + nat" where
  "parse_u16_digits [] n = Inr n"
| "parse_u16_digits (c # cs) n =
    (if \<not> is_digit c then Inl ''invalid digit found in string''
     else let n = n * 10 + (of_char c - 48) in
       if n \<ge> 2 ^ 16 then Inl ''number too large to fit in target type'' else parse_u16_digits cs n)"

definition parse_u16 :: "string \<Rightarrow> string + u16" where
  "parse_u16 s =
    (if s = [] then Inl ''cannot parse integer from empty string''
     else if s = ''+'' \<or> s = ''-'' then Inl ''invalid digit found in string''
     else rbind (parse_u16_digits (if hd s = CHR ''+'' then tl s else s) 0) (\<lambda>n. Inr (of_nat n)))"

record node_arguments =
  na_numeric_id :: u64
  na_name :: string
  na_mesh_port :: u16
  na_admin_port :: u16
  na_seq_path :: string

definition node_arguments_of :: "string list \<Rightarrow> string + node_arguments" where
  "node_arguments_of args =
    rbind (rbind (find_arg ''--id'' args None) parse_u64) (\<lambda>numeric_id.
    rbind (find_arg ''--name'' args (Some (''node-'' @ fmt_decimal (unat numeric_id)))) (\<lambda>name.
    rbind (rbind (find_arg ''--mesh-port'' args (Some ''0'')) parse_u16) (\<lambda>mesh_port.
    rbind (rbind (find_arg ''--admin-port'' args (Some ''0'')) parse_u16) (\<lambda>admin_port.
    rbind (find_arg ''--seq-path'' args None) (\<lambda>seq_path.
    Inr \<lparr>na_numeric_id = numeric_id, na_name = name, na_mesh_port = mesh_port, na_admin_port = admin_port,
         na_seq_path = seq_path\<rparr>)))))"


section \<open>Identities\<close>

lemma drop_node_id_bytes: "as_bytes (node_id v) = replicate 24 0 @ put_u64 v"
  unfolding node_id_def by (rule as_bytes_from_bytes) simp

lemma numeric_node_id [simp]: "numeric_id (node_id v) = v"
  by (simp add: numeric_id_def drop_node_id_bytes)

lemma node_id_inj: "node_id v = node_id w \<longleftrightarrow> v = w"
  by (metis numeric_node_id)

section \<open>The process as a component\<close>






lemma runtime_inv_outside [simp]:
  "runtime_inv (rt\<lparr>rn_endpoint := ep\<rparr>) = runtime_inv rt" "runtime_inv (rt\<lparr>rn_peer_costs := costs\<rparr>) = runtime_inv rt"
  "runtime_inv (rt\<lparr>rn_forward_outcomes := fo\<rparr>) = runtime_inv rt" "runtime_inv (rt\<lparr>rn_diagnostics := d\<rparr>) = runtime_inv rt"
  by (simp_all add: runtime_inv_def parts_ok_def covered_def timed_def forward_timed_def)









section \<open>The properties\<close>





text \<open>
C37: Sending through the HTTP interface. A request is accepted exactly if its priority is at most 3, its payload fits a packet
and the driver runs; the driver is then given the unicast packet from this node to the node with the
requested number.
Every other request is answered by 400 for the priority and by 500 with the text of the runtime's error otherwise.
\<close>

theorem node_api_send:
  "(fst (send_packet_api destination priority flow_id payload st) = Inr ACCEPTED \<longleftrightarrow>
      priority \<le> 3 \<and> length payload \<le> MAX_FORWARD_PAYLOAD_LEN \<and> rn_running (as_runtime st)) \<and>
   (case send_packet_api destination priority flow_id payload st of
      (Inr _, input) \<Rightarrow> \<exists>prio. priority_u8 prio = priority \<and>
        input = Some (RI_Forward (FI_Outbound (api_packet destination prio flow_id payload st)))
    | (Inl error, input) \<Rightarrow> input = None \<and>
        (if priority > 3 then error = (BAD_REQUEST, ''priority must be between 0 and 3'')
         else if length payload > MAX_FORWARD_PAYLOAD_LEN
         then error = (INTERNAL_SERVER_ERROR, ''forward packet is invalid: '' @ forward_packet_error_text (FP_PayloadTooLarge (length payload)))
         else error = (INTERNAL_SERVER_ERROR, ''runtime has stopped'')))"
  (is "?accepted \<and> ?answer")
proof -
  let ?packet = "\<lambda>prio. api_packet destination prio flow_id payload st"
  have enc: "forward_encode (?packet prio) =
      (if length payload > MAX_FORWARD_PAYLOAD_LEN then Inl (FP_PayloadTooLarge (length payload))
       else Inr (header_bytes (p_header (?packet prio)) @ str_bytes payload))" for prio
    by (simp add: forward_encode_def api_packet_def str_bytes_def header_bytes_def)
  have "priority \<le> 3 \<longleftrightarrow> priority = 0 \<or> priority = 1 \<or> priority = 2 \<or> priority = 3"
    by (auto simp: word_le_nat_alt word_unat_eq_iff)
  then have range: "(\<exists>prio. priority_try_from priority = Inr prio) \<longleftrightarrow> priority \<le> 3"
    by (auto simp: priority_try_from_def)
  show ?thesis
  proof (cases "priority_try_from priority")
    case (Inl e)
    then have "\<not> priority \<le> 3" using range by auto
    then show ?thesis using Inl by (simp add: send_packet_api_def bad_request_def not_le)
  next
    case (Inr prio)
    then have "priority \<le> 3" "priority_u8 prio = priority" using range by (auto simp: priority_try_from_def split: if_splits)
    then show ?thesis using Inr
      by (auto simp: send_packet_api_def request_send_def enqueue_input_def internal_error_def enc)
  qed
qed

end
