(* ===== verification/ControlSync.thy ===== *)
theory ControlSync
  imports ControlProps
begin

text \<open>
  Properties of the control plane, continued: what a digest makes a node ask for and send, that one
  round of digest, request and LSAs brings a neighbour's database up to date, and that the published
  routes follow the database.
\<close>

section \<open>Digests\<close>

lemma remote_versions_snoc:
  "remote_versions (ds @ [d]) =
    bt_upsert (de_origin d) (\<lambda>v. max v (digest_entry_version d)) (digest_entry_version d) (remote_versions ds)"
  by (simp add: remote_versions_def)

lemma remote_versions_None:
  "bt_get (remote_versions ds) origin = None \<longleftrightarrow> (\<forall>d \<in> set ds. de_origin d \<noteq> origin)"
proof (induction ds rule: rev_induct)
  case (snoc d ds)
  then show ?case by (auto simp: remote_versions_snoc)
qed (simp add: remote_versions_def)

lemma remote_versions_less:
  "bt_get (remote_versions ds) origin = Some v \<Longrightarrow>
    (v < w \<longleftrightarrow> (\<forall>d \<in> set ds. de_origin d = origin \<longrightarrow> digest_entry_version d < w)) \<and>
    (w < v \<longleftrightarrow> (\<exists>d \<in> set ds. de_origin d = origin \<and> w < digest_entry_version d))"
proof (induction ds arbitrary: v rule: rev_induct)
  case (snoc d ds)
  show ?case
  proof (cases "bt_get (remote_versions ds) origin")
    case None
    then have "\<forall>d \<in> set ds. de_origin d \<noteq> origin" by (simp add: remote_versions_None)
    then show ?thesis using snoc.prems None by (auto simp: remote_versions_snoc split: if_splits)
  next
    case (Some u)
    then show ?thesis
      using snoc.prems snoc.IH [OF Some] by (auto simp: remote_versions_snoc less_max_iff_disj split: if_splits)
  qed
qed (simp add: remote_versions_def)

lemma wants_origin_iff:
  "wants_origin (remote_versions ds) s origin \<longleftrightarrow> origin \<noteq> cp_me s \<and>
    (\<exists>d \<in> set ds. de_origin d = origin \<and>
      (\<forall>x. bt_get (cp_lsdb s) origin = Some x \<longrightarrow> le_version x < digest_entry_version d))"
proof (cases "bt_get (remote_versions ds) origin")
  case None
  then show ?thesis using remote_versions_None [of ds origin] by (auto simp: wants_origin_def)
next
  case (Some v)
  then have "\<exists>d \<in> set ds. de_origin d = origin" using remote_versions_None [of ds origin] by auto
  then show ?thesis
    using Some remote_versions_less [OF Some] by (cases "bt_get (cp_lsdb s) origin") (auto simp: wants_origin_def)
qed

lemma offers_origin_iff:
  "act \<in> set (offers_origin l (remote_versions ds) s origin) \<longleftrightarrow>
    (\<exists>x a. act = CA_Send l (CF_Lsa (al_message a)) \<and> bt_get (cp_lsdb s) origin = Some x \<and> entry_active x = Some a \<and>
      (\<forall>d \<in> set ds. de_origin d = origin \<longrightarrow> digest_entry_version d < le_version x))"
proof (cases "bt_get (cp_lsdb s) origin")
  case None
  then show ?thesis by (simp add: offers_origin_def)
next
  case (Some x)
  have "(case bt_get (remote_versions ds) origin of None \<Rightarrow> True | Some v \<Rightarrow> v < le_version x) \<longleftrightarrow>
      (\<forall>d \<in> set ds. de_origin d = origin \<longrightarrow> digest_entry_version d < le_version x)"
  proof (cases "bt_get (remote_versions ds) origin")
    case None
    then show ?thesis using remote_versions_None [of ds origin] by simp
  next
    case (Some v)
    then show ?thesis using remote_versions_less [OF Some, THEN conjunct1, of "le_version x"] by simp
  qed
  moreover define C where
    "C \<longleftrightarrow> (\<forall>d \<in> set ds. de_origin d = origin \<longrightarrow> digest_entry_version d < le_version x)"
  ultimately have offers: "offers_origin l (remote_versions ds) s origin =
      (if C then (case entry_active x of None \<Rightarrow> [] | Some a \<Rightarrow> [CA_Send l (CF_Lsa (al_message a))]) else [])"
    using Some unfolding offers_origin_def send_lsa_def by simp
  have "act \<in> set (offers_origin l (remote_versions ds) s origin) \<longleftrightarrow>
      C \<and> act \<in> (\<lambda>a. CA_Send l (CF_Lsa (al_message a))) ` set_option (entry_active x)"
    unfolding offers by (cases C; cases "entry_active x") simp_all
  then show ?thesis unfolding image_iff Bex_def elem_set C_def Some option.inject by blast
qed

text \<open>
C22: Digest reconciliation is exact. For a digest of admissible size from a local link the node sends
precisely those of its active LSAs that are newer than every version the digest has for the origin
(or that the digest lacks), and one request, if any, that lists in order precisely the other origins
the digest has in a newer version than the database; its own origin is never requested and the state
does not change.
\<close>

theorem digest_reconciliation:
  assumes "bt_contains (cp_adjacencies s) l" and "length ds \<le> MAX_DIGEST_ENTRIES"
  shows "\<exists>sends req. control_handle now (CE_Frame l (CF_Digest ds)) s =
      Inr (sends @ (if req = [] then [] else [CA_Send l (CF_DigestReq req)]), s) \<and>
    (\<forall>act. act \<in> set sends \<longleftrightarrow> (\<exists>origin x a. act = CA_Send l (CF_Lsa (al_message a)) \<and>
       bt_get (cp_lsdb s) origin = Some x \<and> entry_active x = Some a \<and>
       (\<forall>d \<in> set ds. de_origin d = origin \<longrightarrow> digest_entry_version d < le_version x))) \<and>
    sorted_wrt (<) req \<and> set req = {origin. origin \<noteq> cp_me s \<and> (\<exists>d \<in> set ds. de_origin d = origin \<and>
      (\<forall>x. bt_get (cp_lsdb s) origin = Some x \<longrightarrow> le_version x < digest_entry_version d))}"
proof -
  let ?remote = "remote_versions ds"
  let ?origins = "bt_keys (bs_of_list (bt_keys (cp_lsdb s) @ bt_keys ?remote))"
  let ?req = "filter (wants_origin ?remote s) ?origins"
  let ?sends = "concat (map (offers_origin l ?remote s) ?origins)"
  have run: "control_handle now (CE_Frame l (CF_Digest ds)) s =
      Inr (?sends @ (if ?req = [] then [] else [CA_Send l (CF_DigestReq ?req)]), s)"
    using receive_digest_eq [OF assms(1,2)] by (simp add: Let_def)
  have mem: "origin \<in> set ?origins \<longleftrightarrow> bt_get (cp_lsdb s) origin \<noteq> None \<or> (\<exists>d \<in> set ds. de_origin d = origin)" for origin
    by (auto simp: bt_keys_iff remote_versions_None)
  have "set ?req = {origin. origin \<noteq> cp_me s \<and> (\<exists>d \<in> set ds. de_origin d = origin \<and>
      (\<forall>x. bt_get (cp_lsdb s) origin = Some x \<longrightarrow> le_version x < digest_entry_version d))}"
    unfolding set_filter wants_origin_iff mem by blast
  moreover have "act \<in> set ?sends \<longleftrightarrow> (\<exists>origin x a. act = CA_Send l (CF_Lsa (al_message a)) \<and>
       bt_get (cp_lsdb s) origin = Some x \<and> entry_active x = Some a \<and>
       (\<forall>d \<in> set ds. de_origin d = origin \<longrightarrow> digest_entry_version d < le_version x))" for act
  proof -
    have "act \<in> set ?sends \<longleftrightarrow> (\<exists>origin. origin \<in> set ?origins \<and> act \<in> set (offers_origin l ?remote s origin))"
      by (auto simp del: set_append)
    then show ?thesis unfolding offers_origin_iff mem by blast
  qed
  moreover have "sorted_wrt (<) ?req" by (rule sorted_wrt_filter) simp
  ultimately show ?thesis using run by blast
qed

theorem digest_reconciliation_witness:
  "bt_contains (cp_adjacencies sample_state) 10 \<and>
   (\<exists>sends req. control_handle 2000 (CE_Frame 10 (CF_Digest [\<lparr>de_origin = 7, de_epoch = 0, de_seq = 1\<rparr>])) sample_state =
      Inr (sends @ (if req = [] then [] else [CA_Send 10 (CF_DigestReq req)]), sample_state) \<and>
    sorted_wrt (<) req)"
proof -
  let ?ds = "[\<lparr>de_origin = 7, de_epoch = 0, de_seq = 1\<rparr>]"
  have adj: "bt_contains (cp_adjacencies sample_state) 10" unfolding sample_facts by code_simp
  have len: "length ?ds \<le> MAX_DIGEST_ENTRIES" by (simp add: control_consts)
  show ?thesis using digest_reconciliation [OF adj len, of 2000] adj by blast
qed

section \<open>One round of anti-entropy\<close>

text \<open>A node B receives the digest of its neighbour A, A answers the request, and B handles the LSAs
  that A sends, all at the time \<open>now\<close>; \<open>la\<close> and \<open>lb\<close> are the two ends of the link.\<close>

definition requested_origins :: "control_action list \<Rightarrow> node_id list" where
  "requested_origins acts =
    concat (map (\<lambda>act. case act of CA_Send l (CF_DigestReq req) \<Rightarrow> req | _ \<Rightarrow> []) acts)"

definition sent_frames :: "control_action list \<Rightarrow> control_frame list" where
  "sent_frames acts = concat (map (\<lambda>act. case act of CA_Send l f \<Rightarrow> [f] | _ \<Rightarrow> []) acts)"

definition sync_round :: "mono_time \<Rightarrow> link_id \<Rightarrow> link_id \<Rightarrow> control_plane \<Rightarrow> control_plane \<Rightarrow> control_plane option" where
  "sync_round now la lb A B =
    (case receive_digest lb (digest A) B of
       Inl _ \<Rightarrow> None
     | Inr acts \<Rightarrow>
         run_admissible control_handle (\<lambda>s e. counters_left s)
           (map (\<lambda>f. (now, CE_Frame lb f)) (sent_frames (receive_digest_req la (requested_origins acts) A))) B)"

definition lsdb_origins :: "control_plane \<Rightarrow> node_id set" where
  "lsdb_origins s = {origin. bt_get (cp_lsdb s) origin \<noteq> None}"

lemma lsdb_origins_card: "card (lsdb_origins s) = bt_len (cp_lsdb s)"
proof -
  have "lsdb_origins s = set (bt_keys (cp_lsdb s))" by (auto simp: lsdb_origins_def bt_keys_iff)
  then show ?thesis by (simp add: bs_len)
qed

lemma finite_lsdb_origins [simp]: "finite (lsdb_origins s)"
proof -
  have "lsdb_origins s = set (bt_keys (cp_lsdb s))" by (auto simp: lsdb_origins_def bt_keys_iff)
  then show ?thesis by simp
qed

definition covers :: "control_plane \<Rightarrow> node_id \<Rightarrow> version \<Rightarrow> bool" where
  "covers s origin v \<longleftrightarrow> (\<exists>x. bt_get (cp_lsdb s) origin = Some x \<and> v \<le> le_version x)"

lemma covers_step:
  assumes "control_inv s" "counters_left s" "control_handle now e s = Inr (as, s')" "covers s origin v"
  shows "covers s' origin v"
  using assms(4) lsdb_monotone_step [OF assms(1-3)] unfolding covers_def by (meson order.trans)

text \<open>Handling one valid LSA for which there is room.\<close>

lemma lsa_frame_covers:
  assumes inv: "control_inv s" and c: "counters_left s"
    and adj: "bt_contains (cp_adjacencies s) l" and m: "valid_lsa (msg_lsa m)" "cp_verifier s m"
      "lsa_origin (msg_lsa m) \<noteq> cp_me s"
    and D: "lsdb_origins s \<subseteq> D" "lsa_origin (msg_lsa m) \<in> D" "finite D" "card D \<le> MAX_LSDB_ENTRIES"
    and run: "control_handle now (CE_Frame l (CF_Lsa m)) s = Inr (as, s')"
  shows "covers s' (lsa_origin (msg_lsa m)) (lsa_version (msg_lsa m)) \<and> lsdb_origins s' \<subseteq> D \<and>
    cp_adjacencies s' = cp_adjacencies s"
proof (cases "is_newer (msg_lsa m) s")
  case False
  then have "s' = s" using run adj m by (auto simp: receive_lsa_def)
  moreover have "covers s (lsa_origin (msg_lsa m)) (lsa_version (msg_lsa m))"
    using False by (auto simp: is_newer_def covers_def not_less split: option.splits)
  ultimately show ?thesis using D(1) by simp
next
  case True
  have "bt_len (cp_lsdb s) < MAX_LSDB_ENTRIES" if "bt_get (cp_lsdb s) (lsa_origin (msg_lsa m)) = None"
  proof -
    have "lsdb_origins s \<subset> D" using D(1,2) that by (auto simp: lsdb_origins_def)
    then have "card (lsdb_origins s) < card D" by (rule psubset_card_mono [OF D(3)])
    then show ?thesis using D(4) by (simp add: lsdb_origins_card)
  qed
  then have inst: "install m now s \<noteq> None" by (auto simp: install_eq not_le)
  let ?t = "s\<lparr>cp_lsdb := bt_insert (lsa_origin (msg_lsa m)) (fresh_entry now m) (cp_lsdb s)\<rparr>"
  obtain d where "mark_spf_dirty now ?t = Inr (d, s')"
    using True adj m inst run by (auto simp: receive_lsa_def install_eq res_simps split: if_splits)
  note eqs = spf_fields_only_eqs [OF mark_spf_dirty_fields [OF this], simplified]
  have "covers s' (lsa_origin (msg_lsa m)) (lsa_version (msg_lsa m))" by (simp add: covers_def eqs)
  moreover have "lsdb_origins s' \<subseteq> D" using D(1,2) by (auto simp: lsdb_origins_def eqs)
  ultimately show ?thesis by (simp add: eqs)
qed

lemma lsa_frames_cover:
  assumes "run_admissible control_handle (\<lambda>s e. counters_left s) (map (\<lambda>m. (now, CE_Frame l (CF_Lsa m))) ms) s = Some s'"
    and "control_inv s" and "bt_contains (cp_adjacencies s) l"
    and "\<forall>m \<in> set ms. valid_lsa (msg_lsa m) \<and> cp_verifier s m \<and> lsa_origin (msg_lsa m) \<noteq> cp_me s \<and> lsa_origin (msg_lsa m) \<in> D"
    and "lsdb_origins s \<subseteq> D" "finite D" "card D \<le> MAX_LSDB_ENTRIES"
  shows "(\<forall>m \<in> set ms. covers s' (lsa_origin (msg_lsa m)) (lsa_version (msg_lsa m))) \<and>
    (\<forall>origin v. covers s origin v \<longrightarrow> covers s' origin v)"
  using assms
proof (induction ms arbitrary: s)
  case (Cons m ms)
  obtain as s1 where c: "counters_left s" and s1: "control_handle now (CE_Frame l (CF_Lsa m)) s = Inr (as, s1)"
    and rest: "run_admissible control_handle (\<lambda>s e. counters_left s) (map (\<lambda>m. (now, CE_Frame l (CF_Lsa m))) ms) s1 = Some s'"
    using Cons.prems(1) by (auto split: if_splits sum.splits)
  have step: "covers s1 (lsa_origin (msg_lsa m)) (lsa_version (msg_lsa m))" "lsdb_origins s1 \<subseteq> D"
    "cp_adjacencies s1 = cp_adjacencies s"
    using lsa_frame_covers [OF Cons.prems(2) c Cons.prems(3) _ _ _ Cons.prems(5) _ Cons.prems(6,7) s1] Cons.prems(4) by auto
  have inv1: "control_inv s1" by (rule control.step_inv [OF Cons.prems(2) c s1])
  have id: "cp_verifier s1 = cp_verifier s" "cp_me s1 = cp_me s"
    using control_refines_lsdb [OF Cons.prems(2) c s1] by (simp_all add: same_identity_def)
  have "(\<forall>m \<in> set ms. covers s' (lsa_origin (msg_lsa m)) (lsa_version (msg_lsa m))) \<and>
      (\<forall>origin v. covers s1 origin v \<longrightarrow> covers s' origin v)"
    using Cons.IH [OF rest inv1 _ _ step(2) Cons.prems(6,7)] step(3) id Cons.prems(3,4) by simp
  then show ?case using step(1) covers_step [OF Cons.prems(2) c s1] by (auto simp del: split_paired_All)
qed auto

definition active_messages :: "node_id list \<Rightarrow> control_plane \<Rightarrow> lsa_message list" where
  "active_messages origins s =
    List.map_filter (\<lambda>origin. map_option al_message (Option.bind (bt_get (cp_lsdb s) origin) entry_active)) origins"

lemma receive_digest_req_frames:
  assumes "bt_contains (cp_adjacencies s) l" and "length req \<le> MAX_DIGEST_REQ_ORIGINS"
  shows "sent_frames (receive_digest_req l req s) = map CF_Lsa (active_messages (bt_keys (bs_of_list req)) s)"
proof -
  have "sent_frames (List.map_filter (\<lambda>origin. map_option (\<lambda>a. send_lsa l (al_message a))
      (Option.bind (bt_get (cp_lsdb s) origin) entry_active)) xs) = map CF_Lsa (active_messages xs s)" for xs
    by (induction xs) (auto simp: sent_frames_def active_messages_def List.map_filter_simps send_lsa_def split: option.splits)
  then show ?thesis using assms by (simp add: receive_digest_req_def)
qed

lemma active_messages_mem:
  assumes "control_inv s" and "m \<in> set (active_messages origins s)"
  shows "\<exists>origin x a. origin \<in> set origins \<and> bt_get (cp_lsdb s) origin = Some x \<and> entry_active x = Some a \<and>
    m = al_message a \<and> lsa_origin (msg_lsa m) = origin \<and> lsa_version (msg_lsa m) = le_version x"
proof -
  obtain origin x a where o: "origin \<in> set origins" "bt_get (cp_lsdb s) origin = Some x" "entry_active x = Some a"
    "m = al_message a"
    using assms(2) by (auto simp: active_messages_def map_filter_set bind_eq_Some_conv)
  moreover have "entry_ok origin x" using assms(1) o(2) by (auto simp: control_inv_def lsdb_inv_def)
  ultimately show ?thesis by (intro exI [of _ origin] exI [of _ x] exI [of _ a]) (simp add: entry_ok_def)
qed

lemma active_messages_covers:
  assumes "bt_get (cp_lsdb s) origin = Some x" and "entry_active x = Some a" and "origin \<in> set origins"
  shows "al_message a \<in> set (active_messages origins s)"
  using assms by (auto simp: active_messages_def map_filter_set intro!: bexI [of _ origin])

lemma requested_origins_concat: "requested_origins (concat xss) = concat (map requested_origins xss)"
  by (induction xss) (simp_all add: requested_origins_def)

lemma offers_origin_shape: "\<exists>ms. offers_origin l remote s origin = map (send_lsa l) ms"
proof (cases "Option.bind (bt_get (cp_lsdb s) origin) entry_active")
  case None
  then have "offers_origin l remote s origin = []"
    by (cases "bt_get (cp_lsdb s) origin") (simp_all add: offers_origin_def)
  then show ?thesis by (intro exI [of _ "[]"]) simp
next
  case (Some a)
  then obtain x where "bt_get (cp_lsdb s) origin = Some x" "entry_active x = Some a" by (auto simp: bind_eq_Some_conv)
  then have "offers_origin l remote s origin = [] \<or> offers_origin l remote s origin = [send_lsa l (al_message a)]"
    unfolding offers_origin_def by simp
  then show ?thesis by (metis list.map)
qed

lemma digest_request:
  assumes "control_inv A" and "bt_contains (cp_adjacencies B) lb"
  shows "\<exists>acts. receive_digest lb (digest A) B = Inr acts \<and> distinct (requested_origins acts) \<and>
    set (requested_origins acts) = {origin. origin \<noteq> cp_me B \<and> (\<exists>y. bt_get (cp_lsdb A) origin = Some y \<and>
      (\<forall>x. bt_get (cp_lsdb B) origin = Some x \<longrightarrow> le_version x < le_version y))}"
proof -
  let ?ds = "digest A"
  let ?remote = "remote_versions ?ds"
  let ?origins = "bt_keys (bs_of_list (bt_keys (cp_lsdb B) @ bt_keys ?remote))"
  let ?req = "filter (wants_origin ?remote B) ?origins"
  let ?sends = "concat (map (offers_origin lb ?remote B) ?origins)"
  have len: "length ?ds \<le> MAX_DIGEST_ENTRIES"
    using assms(1) by (simp add: digest_def control_inv_def lsdb_inv_def bt_len_def control_consts)
  have run: "receive_digest lb ?ds B = Inr (?sends @ (if ?req = [] then [] else [CA_Send lb (CF_DigestReq ?req)]))"
    using receive_digest_eq [OF assms(2) len] by (simp add: Let_def)
  have "requested_origins (offers_origin lb ?remote B origin) = []" for origin
  proof -
    obtain ms where "offers_origin lb ?remote B origin = map (send_lsa lb) ms" using offers_origin_shape by blast
    then show ?thesis by (simp add: requested_origins_def send_lsa_def o_def)
  qed
  then have "requested_origins ?sends = []" by (simp only: requested_origins_concat map_map o_def) simp
  then have req: "requested_origins (?sends @ (if ?req = [] then [] else [CA_Send lb (CF_DigestReq ?req)])) = ?req"
    by (simp add: requested_origins_def)
  have "(\<exists>d \<in> set ?ds. de_origin d = origin \<and> P (digest_entry_version d)) \<longleftrightarrow>
      (\<exists>y. bt_get (cp_lsdb A) origin = Some y \<and> P (le_version y))" for origin P
    by (force simp: digest_def digest_entry_version_def bt_entries_iff [symmetric])
  note dig = this
  have "origin \<in> set ?origins" if "wants_origin ?remote B origin" for origin
    using that by (auto simp: wants_origin_def bt_keys_iff split: option.splits)
  then have "set ?req = {origin. wants_origin ?remote B origin}" by auto
  also have "\<dots> = {origin. origin \<noteq> cp_me B \<and> (\<exists>y. bt_get (cp_lsdb A) origin = Some y \<and>
      (\<forall>x. bt_get (cp_lsdb B) origin = Some x \<longrightarrow> le_version x < le_version y))}"
  proof (rule Collect_cong)
    fix origin
    show "wants_origin ?remote B origin \<longleftrightarrow> origin \<noteq> cp_me B \<and> (\<exists>y. bt_get (cp_lsdb A) origin = Some y \<and>
        (\<forall>x. bt_get (cp_lsdb B) origin = Some x \<longrightarrow> le_version x < le_version y))"
      unfolding wants_origin_iff
      using dig [of origin "\<lambda>v. \<forall>x. bt_get (cp_lsdb B) origin = Some x \<longrightarrow> le_version x < v"] by blast
  qed
  finally have st: "set ?req = {origin. origin \<noteq> cp_me B \<and> (\<exists>y. bt_get (cp_lsdb A) origin = Some y \<and>
      (\<forall>x. bt_get (cp_lsdb B) origin = Some x \<longrightarrow> le_version x < le_version y))}" .
  have "distinct ?req" by simp
  with st show ?thesis by (intro exI conjI) (rule run, simp_all only: req)
qed

text \<open>
C6: One round of anti-entropy brings a node up to date. After B has received the digest of its
neighbour A, A has answered the resulting request and B has handled the LSAs A sent, B knows every
origin other than itself that is active at A in at least A's version; the LSAs have to be valid for
B, and the origins of both have to fit in one database.
\<close>

theorem anti_entropy_round:
  assumes "control_inv A" and "control_inv B"
    and "bt_contains (cp_adjacencies A) la" and "bt_contains (cp_adjacencies B) lb"
    and "sync_round now la lb A B = Some B'"
    and "\<forall>origin x a. bt_get (cp_lsdb A) origin = Some x \<and> entry_active x = Some a \<and> origin \<noteq> cp_me B \<longrightarrow>
      valid_lsa (msg_lsa (al_message a)) \<and> cp_verifier B (al_message a)"
    and "card (lsdb_origins A \<union> lsdb_origins B) \<le> MAX_LSDB_ENTRIES"
    and "bt_get (cp_lsdb A) origin = Some y" and "entry_active y = Some a" and "origin \<noteq> cp_me B"
  shows "\<exists>x'. bt_get (cp_lsdb B') origin = Some x' \<and> le_version y \<le> le_version x'"
proof -
  obtain acts where acts: "receive_digest lb (digest A) B = Inr acts" "distinct (requested_origins acts)"
    "set (requested_origins acts) = {origin. origin \<noteq> cp_me B \<and> (\<exists>y. bt_get (cp_lsdb A) origin = Some y \<and>
      (\<forall>x. bt_get (cp_lsdb B) origin = Some x \<longrightarrow> le_version x < le_version y))}"
    using digest_request [OF assms(1,4)] by blast
  let ?req = "requested_origins acts"
  let ?ms = "active_messages (bt_keys (bs_of_list ?req)) A"
  have sub: "set ?req \<subseteq> lsdb_origins A" unfolding acts(3) lsdb_origins_def by blast
  have "length ?req = card (set ?req)" using acts(2) by (simp add: distinct_card)
  also have "\<dots> \<le> card (lsdb_origins A)" by (rule card_mono [OF finite_lsdb_origins sub])
  also have "\<dots> \<le> MAX_DIGEST_REQ_ORIGINS"
    using assms(1) by (simp add: lsdb_origins_card control_inv_def lsdb_inv_def control_consts)
  finally have frames: "sent_frames (receive_digest_req la ?req A) = map CF_Lsa ?ms"
    using receive_digest_req_frames [OF assms(3)] by blast
  have run: "run_admissible control_handle (\<lambda>s e. counters_left s) (map (\<lambda>m. (now, CE_Frame lb (CF_Lsa m))) ?ms) B = Some B'"
    using assms(5) by (simp add: sync_round_def acts(1) frames o_def)
  have ms: "valid_lsa (msg_lsa m) \<and> cp_verifier B m \<and> lsa_origin (msg_lsa m) \<noteq> cp_me B \<and>
      lsa_origin (msg_lsa m) \<in> lsdb_origins A \<union> lsdb_origins B" if m: "m \<in> set ?ms" for m
  proof -
    obtain origin x a where o: "origin \<in> set ?req" "bt_get (cp_lsdb A) origin = Some x" "entry_active x = Some a"
      "m = al_message a" "lsa_origin (msg_lsa m) = origin"
      using active_messages_mem [OF assms(1) m] unfolding bs_of_list_keys_set by blast
    then have "origin \<noteq> cp_me B" unfolding acts(3) by blast
    then show ?thesis using o assms(6) by (auto simp: lsdb_origins_def)
  qed
  have all: "\<forall>m \<in> set ?ms. covers B' (lsa_origin (msg_lsa m)) (lsa_version (msg_lsa m))"
    and keep: "\<forall>origin v. covers B origin v \<longrightarrow> covers B' origin v"
    using lsa_frames_cover [OF run assms(2,4) _ _ _ assms(7)] ms by auto
  have "covers B' origin (le_version y)"
  proof (cases "covers B origin (le_version y)")
    case False
    then have "origin \<in> set ?req" using assms(8,10) unfolding acts(3) covers_def by (auto simp: not_le)
    then have "al_message a \<in> set ?ms" using active_messages_covers [OF assms(8,9)] by simp
    moreover have "entry_ok origin y" using assms(1,8) by (auto simp: control_inv_def lsdb_inv_def)
    ultimately show ?thesis using all assms(9) by (auto simp: entry_ok_def)
  qed (use keep in blast)
  then show ?thesis by (simp add: covers_def)
qed

definition sample_peer_start :: control_plane where
  "sample_peer_start = new_unsecured_with_seq 3 0 0"

definition sample_peer :: control_plane where
  "sample_peer = (case run_admissible control_handle (\<lambda>s e. counters_left s) [(1010, CE_LinkUp 20 1 9)] sample_peer_start of
     None \<Rightarrow> sample_peer_start | Some s \<Rightarrow> s)"

lemma sample_peer_reachable: "control.reachable sample_peer_start sample_peer"
proof -
  have "run_admissible control_handle (\<lambda>s e. counters_left s) [(1010, CE_LinkUp 20 1 9)] sample_peer_start \<noteq> None"
    by code_simp
  then show ?thesis by (auto simp: sample_peer_def intro: control.run_admissible_reachable [of "[(1010, CE_LinkUp 20 1 9)]"])
qed

lemma sample_peer_start_inv: "control_inv sample_peer_start"
  by (simp add: sample_peer_start_def new_unsecured_with_seq_def with_auth_inv unsecured.lsa_auth_axioms)

lemma sample_peer_facts:
  "control_inv sample_peer" "cp_verifier sample_peer = unsecured_verify" "cp_me sample_peer = 3"
proof -
  show "control_inv sample_peer" by (rule control.reachable_inv [OF sample_peer_reachable sample_peer_start_inv])
  show "cp_verifier sample_peer = unsecured_verify" "cp_me sample_peer = 3"
    using reachable_identity [OF sample_peer_reachable sample_peer_start_inv]
    by (simp_all add: same_identity_def sample_peer_start_def new_unsecured_with_seq_def with_auth_and_seq_def)
qed

theorem anti_entropy_round_witness:
  "\<exists>B' x'. sync_round 2000 11 20 sample_state sample_peer = Some B' \<and> bt_get (cp_lsdb B') 2 = Some x' \<and>
    (0, 4) \<le> le_version x' \<and> bt_get (cp_lsdb sample_peer) 2 = None"
proof -
  have "sync_round 2000 11 20 sample_state sample_peer \<noteq> None" by code_simp
  then obtain B' where run: "sync_round 2000 11 20 sample_state sample_peer = Some B'" by blast
  have la: "bt_contains (cp_adjacencies sample_state) 11" unfolding sample_facts by code_simp
  have lb: "bt_contains (cp_adjacencies sample_peer) 20" by code_simp
  have "list_all (\<lambda>(origin, x). case entry_active x of None \<Rightarrow> True | Some a \<Rightarrow> valid_lsa (msg_lsa (al_message a)))
      (bt_entries (cp_lsdb sample_state))" unfolding sample_facts by code_simp
  then have valid: "\<forall>origin x a. bt_get (cp_lsdb sample_state) origin = Some x \<and> entry_active x = Some a \<and>
      origin \<noteq> cp_me sample_peer \<longrightarrow> valid_lsa (msg_lsa (al_message a)) \<and> cp_verifier sample_peer (al_message a)"
    by (fastforce simp: list_all_iff sample_peer_facts unsecured_verify_def simp flip: bt_entries_iff)
  have "bt_len (cp_lsdb sample_state) = 2" unfolding sample_facts by code_simp
  moreover have "bt_len (cp_lsdb sample_peer) = 1" by code_simp
  ultimately have room: "card (lsdb_origins sample_state \<union> lsdb_origins sample_peer) \<le> MAX_LSDB_ENTRIES"
    using card_Un_le [of "lsdb_origins sample_state" "lsdb_origins sample_peer"]
    by (simp add: lsdb_origins_card control_consts)
  have y: "bt_get (cp_lsdb sample_state) 2 = Some (fresh_entry 1020 (unsecured_sign sample_neighbour_lsa))"
    unfolding sample_facts by code_simp
  have "(2 :: node_id) \<noteq> cp_me sample_peer" by (simp add: sample_peer_facts)
  note round = anti_entropy_round [OF sample_state_inv sample_peer_facts(1) la lb run valid room y entry_active_fresh this]
  have "le_version (fresh_entry 1020 (unsecured_sign sample_neighbour_lsa)) = (0, 4)" by code_simp
  moreover have "bt_get (cp_lsdb sample_peer) 2 = None" by code_simp
  ultimately show ?thesis using round run by auto
qed

section \<open>Routes follow the database\<close>


definition sample_settled :: control_plane where
  "sample_settled = (case run_admissible control_handle (\<lambda>s e. counters_left s) [(1100, CE_Timer (CT_SpfHold 1))] sample_state of
     None \<Rightarrow> sample_state | Some s \<Rightarrow> s)"

lemma sample_settled_inv: "control_inv sample_settled"
proof -
  have "run_admissible control_handle (\<lambda>s e. counters_left s) [(1100, CE_Timer (CT_SpfHold 1))] sample_state \<noteq> None"
    by code_simp
  then have "control.reachable sample_state sample_settled"
    by (auto simp: sample_settled_def intro: control.run_admissible_reachable [of "[(1100, CE_Timer (CT_SpfHold 1))]"])
  then show ?thesis by (rule control.reachable_inv [OF _ sample_state_inv])
qed


lemma mark_spf_dirty_schedules:
  assumes "mark_spf_dirty now t = Inr (d, s')" and "SPF_INITIAL_HOLD_MS \<le> cp_spf_hold_ms t" and "cp_spf_hold_ms t \<le> SPF_MAX_HOLD_MS"
  shows "\<exists>p. cp_pending_spf s' = Some p \<and> (cp_pending_spf t = Some p \<or>
    (d = [CA_SetTimer (CT_SpfHold (ps_generation p)) (ps_at p)] \<and>
     ps_at p = sat_add now (cp_spf_hold_ms s') \<and> SPF_INITIAL_HOLD_MS \<le> cp_spf_hold_ms s' \<and>
     cp_spf_hold_ms s' \<le> SPF_MAX_HOLD_MS))"
  using assms by (auto simp: mark_spf_dirty_def Let_def res_simps control_consts split: if_splits)

definition dirty_step :: "mono_time \<Rightarrow> control_plane \<Rightarrow> control_action list \<Rightarrow> control_plane \<Rightarrow> bool" where
  "dirty_step now s as s' \<longleftrightarrow> (\<exists>t d. mark_spf_dirty now t = Inr (d, s') \<and> set d \<subseteq> set as \<and>
    cp_pending_spf t = cp_pending_spf s \<and> cp_spf_hold_ms t = cp_spf_hold_ms s)"

lemma originate_dirty:
  assumes "originate_lsa now t = Inr (as, s')"
  shows "dirty_step now t as s'"
proof -
  obtain seq e u d where "install (cp_signer t (own_lsa (t\<lparr>cp_my_seq := seq\<rparr>))) now (t\<lparr>cp_my_seq := seq\<rparr>) = Some (e, u)"
    "mark_spf_dirty now u = Inr (d, s')"
    "as = CA_PersistSeq (cp_my_seq u) # flood (cp_signer t (own_lsa (t\<lparr>cp_my_seq := seq\<rparr>))) None u @
      e # next_refresh_timer now (msg_lsa (cp_signer t (own_lsa (t\<lparr>cp_my_seq := seq\<rparr>)))) # d"
    using assms by (auto simp: originate_lsa_def Let_def res_simps)
  then show ?thesis
    unfolding dirty_step_def by (intro exI [of _ u] exI [of _ d]) (auto simp: install_eq split: if_splits)
qed

lemma dirty_step_frame:
  "dirty_step now t as s' \<Longrightarrow> cp_pending_spf t = cp_pending_spf s \<Longrightarrow> cp_spf_hold_ms t = cp_spf_hold_ms s \<Longrightarrow>
    set as \<subseteq> set as' \<Longrightarrow> dirty_step now s as' s'"
  unfolding dirty_step_def by (metis order.trans)

lemma control_dirty:
  assumes run: "control_handle now e s = Inr (as, s')"
    and change: "cp_lsdb s' \<noteq> cp_lsdb s \<or> cp_adjacencies s' \<noteq> cp_adjacencies s"
  shows "dirty_step now s as s'"
proof (cases e)
  case (CE_LinkUp l peer cost)
  then show ?thesis using run by (auto simp: res_simps dest!: originate_dirty intro: dirty_step_frame)
next
  case (CE_LinkDown l)
  then show ?thesis using run change by (auto split: if_splits dest!: originate_dirty intro: dirty_step_frame)
next
  case (CE_LocalTopicAdsChanged ads)
  then show ?thesis
    using run change by (auto simp: Let_def split: if_splits dest!: originate_dirty intro: dirty_step_frame)
next
  case (CE_Frame l f)
  show ?thesis
  proof (cases f)
    case (CF_Lsa m)
    let ?t = "s\<lparr>cp_lsdb := bt_insert (lsa_origin (msg_lsa m)) (fresh_entry now m) (cp_lsdb s)\<rparr>"
    obtain d a where "mark_spf_dirty now ?t = Inr (d, s')" "as = flood m (Some l) ?t @ a # d"
      using CE_Frame CF_Lsa run change by (auto simp: receive_lsa_def install_eq res_simps split: if_splits)
    then show ?thesis unfolding dirty_step_def by (intro exI [of _ ?t] exI [of _ d]) auto
  qed (use CE_Frame run change in \<open>auto simp: res_simps\<close>)
next
  case (CE_Timer tm)
  show ?thesis
  proof (cases tm)
    case (CT_LsaExpire origin ep sq)
    obtain x where "mark_spf_dirty now (s\<lparr>cp_lsdb := bt_insert origin (x\<lparr>le_state := LS_Tombstone\<rparr>) (cp_lsdb s)\<rparr>) = Inr (as, s')"
      using CE_Timer CT_LsaExpire run change by (auto simp: handle_expire_timer_def split: option.splits if_splits)
    then show ?thesis unfolding dirty_step_def
      by (intro exI [of _ "s\<lparr>cp_lsdb := bt_insert origin (x\<lparr>le_state := LS_Tombstone\<rparr>) (cp_lsdb s)\<rparr>"] exI [of _ as]) simp
  next
    case (CT_SpfHold g)
    then have "handle_spf_timer now g s = Inr (as, s')" using CE_Timer run by simp
    then have "cp_lsdb s' = cp_lsdb s \<and> cp_adjacencies s' = cp_adjacencies s"
      by (auto simp: handle_spf_timer_def recompute_routes_def recompute_topic_ads_eq Let_def res_simps
          split: option.splits if_splits)
    then show ?thesis using change by simp
  qed (use CE_Timer run change in \<open>auto simp: handle_refresh_timer_def Let_def split: if_splits dest!: originate_dirty\<close>)
qed

text \<open>
C24: Every change schedules a route computation. When an event changes the database or the local links, a
computation is pending afterwards: either the one that was pending already, or a new one whose timer
is among the actions and is due after a hold time between 100 and 5000 milliseconds.
\<close>

theorem change_schedules_spf:
  assumes "control_inv s" and "control_handle now e s = Inr (as, s')"
    and "cp_lsdb s' \<noteq> cp_lsdb s \<or> cp_adjacencies s' \<noteq> cp_adjacencies s"
  shows "\<exists>p. cp_pending_spf s' = Some p \<and> (cp_pending_spf s = Some p \<or>
    (CA_SetTimer (CT_SpfHold (ps_generation p)) (ps_at p) \<in> set as \<and>
     ps_at p = sat_add now (cp_spf_hold_ms s') \<and> 100 \<le> cp_spf_hold_ms s' \<and> cp_spf_hold_ms s' \<le> 5000))"
proof -
  obtain t d where t: "mark_spf_dirty now t = Inr (d, s')" "set d \<subseteq> set as" "cp_pending_spf t = cp_pending_spf s"
    "cp_spf_hold_ms t = cp_spf_hold_ms s" using control_dirty [OF assms(2,3)] unfolding dirty_step_def by blast
  have "SPF_INITIAL_HOLD_MS \<le> cp_spf_hold_ms t" "cp_spf_hold_ms t \<le> SPF_MAX_HOLD_MS"
    using assms(1) t(4) by (simp_all add: control_inv_def spf_inv_def)
  from mark_spf_dirty_schedules [OF t(1) this] show ?thesis
    using t(2,3) unfolding SPF_INITIAL_HOLD_MS_def SPF_MAX_HOLD_MS_def by (auto simp del: split_paired_Ex)
qed

theorem change_schedules_spf_witness:
  "\<exists>as s' p. control_handle 2000 (CE_LinkDown 10) sample_settled = Inr (as, s') \<and> cp_pending_spf s' = Some p \<and>
    (cp_pending_spf sample_settled = Some p \<or> ps_at p = sat_add 2000 (cp_spf_hold_ms s'))"
proof -
  have "counters_left sample_settled" by code_simp
  then obtain as s' where run: "control_handle 2000 (CE_LinkDown 10) sample_settled = Inr (as, s')"
    using control_step [OF sample_settled_inv] by blast
  have "cp_adjacencies (snd (projr (control_handle 2000 (CE_LinkDown 10) sample_settled))) \<noteq> cp_adjacencies sample_settled"
    by code_simp
  then have "cp_adjacencies s' \<noteq> cp_adjacencies sample_settled" using run by simp
  then show ?thesis using change_schedules_spf [OF sample_settled_inv run] run by blast
qed

end
