(* ===== verification/ForwardClaims.thy ===== *)
theory ForwardClaims
  imports ForwardProps
begin

text \<open>
  The properties of the forwarder (\<open>mb-forward\<close>): safety of every reachable state, conservation of
  packets over a whole history, flow control, the bounded wait of P0 packets, the choice of the next
  packet of a link, conflation and the limits of the queues.
\<close>

lemma forward_handle_result:
  assumes "forward.reachable (forwarder_new me routes) f" and "forward_admissible f e"
  shows "\<exists>as f'. forward_handle now e f = Inr (as, f') \<and> forward_inv f' \<and> accounted now f e as f'"
  using forward_step [OF forward.reachable_inv [OF assms(1) forward_inv_new] assms(2)] .

lemma handle_accounted:
  assumes "forward_inv f" "forward_admissible f e" "forward_handle now e f = Inr (as, f')"
  shows "accounted now f e as f'"
  using forward_step [OF assms(1,2), of now] assms(3) by auto

lemma reachable_me: "forward.reachable (forwarder_new me routes) f \<Longrightarrow> fw_me f = me"
proof (induction rule: forward.reachable.induct)
  case (next_state f e now as f')
  then show ?case
    using handle_accounted [OF forward.reachable_inv [OF next_state.hyps(1) forward_inv_new] next_state.hyps(2,3)]
    by (simp add: accounted_def)
qed (simp add: forwarder_new_def)

text \<open>
C25: From every state a new forwarder can reach, every event returns without a panic, and afterwards no
link that is down has queues, and every queue of an up link respects its packet limit, counts its
bytes exactly, and holds only routable packets of its own priority for other nodes, none of which
came in over that very link.
\<close>

theorem forward_safe:
  assumes "forward.reachable (forwarder_new me routes) f" and "forward_admissible f e"
  shows "\<exists>as f'. forward_handle now e f = Inr (as, f') \<and>
    (\<forall>l st. bt_get (fw_links f') l = Some st \<longrightarrow> \<not> bt_contains (fw_down_links f') l \<and>
      (\<forall>i < 4. length (lq_queues st i) \<le> QUEUE_LIMIT_PACKETS i \<and>
        lq_queued_bytes st i = sum_list (map (\<lambda>x. encoded_len (qp_packet x)) (lq_queues st i)) \<and>
        (\<forall>x \<in> set (lq_queues st i). packet_ok me (qp_packet x) \<and> qp_incoming x \<noteq> Some l \<and>
          priority_index (h_priority (p_header (qp_packet x))) = i)))"
proof -
  obtain as f' where r: "forward_handle now e f = Inr (as, f')" "forward_inv f'" "accounted now f e as f'"
    using forward_handle_result [OF assms] by blast
  have me: "fw_me f' = me" using r(3) reachable_me [OF assms(1)] by (simp add: accounted_def)
  show ?thesis
  proof (intro exI conjI allI impI, rule r(1))
    fix l st assume "bt_get (fw_links f') l = Some st"
    then have li: "link_inv me l st" and "\<not> bt_contains (fw_down_links f') l"
      using r(2) unfolding forward_inv_def me by blast+
    then show "\<not> bt_contains (fw_down_links f') l" by blast
    fix i :: nat assume "i < 4"
    with li have q: "queue_inv me l i (lq_queues st i)" "lq_queued_bytes st i = queue_bytes (lq_queues st i)"
      unfolding link_inv_def by blast+
    show "length (lq_queues st i) \<le> QUEUE_LIMIT_PACKETS i" using q(1) by (simp add: queue_inv_def)
    show "lq_queued_bytes st i = sum_list (map (\<lambda>x. encoded_len (qp_packet x)) (lq_queues st i))"
      using q(2) by (simp add: queue_bytes_def)
    show "\<forall>x \<in> set (lq_queues st i). packet_ok me (qp_packet x) \<and> qp_incoming x \<noteq> Some l \<and>
        priority_index (h_priority (p_header (qp_packet x))) = i"
      using q(1) unfolding queue_inv_def list_all_iff queued_ok_def by blast
  qed
qed

theorem forward_safe_witness:
  "length (fst sample_forward) = 7 \<and> (\<exists>as f'. forward_handle 40 (FE_LinkWritable 8) (snd sample_forward) = Inr (as, f'))"
proof -
  have "forward_admissible (snd sample_forward) (FE_LinkWritable 8)" by simp
  from forward_safe [OF sample_forward_reachable this, of 40] sample_forward_counts(1) show ?thesis by blast
qed

text \<open>
C5: No packet is lost or duplicated. Over every history of a new forwarder, the (content, destination)
units it was offered are exactly those it still holds, in a queue or in the waiting room, plus those
it handed out in an action (sent, delivered, dropped with a reason, pushed back), plus units that
were replaced in a queue by a newer packet of their conflation key, which only conflatable P1 packets are.
\<close>

theorem forward_conservation:
  assumes "forward.history (forwarder_new me routes) h f"
  shows "\<exists>replaced. (\<forall>u \<in># replaced. tag_conflatable (fst u)) \<and>
    sum_list (map (\<lambda>(e, _). offered e) h) = held f + sum_list (map (\<lambda>(_, as). actions_units as) h) + replaced"
  using assms
proof (induction rule: forward.history.induct)
  case begin_history
  then show ?case by (intro exI [of _ "{#}"]) (simp add: held_def forwarder_new_def)
next
  case (extend h f e now as f')
  then obtain r where r: "\<forall>u \<in># r. tag_conflatable (fst u)"
    "sum_list (map (\<lambda>(e, _). offered e) h) = held f + sum_list (map (\<lambda>(_, as). actions_units as) h) + r" by blast
  have "forward_inv f" by (rule forward.reachable_inv [OF forward.history_reachable [OF extend.hyps(1)] forward_inv_new])
  from handle_accounted [OF this extend.hyps(2,3)] obtain s where
    s: "\<forall>u \<in># s. tag_conflatable (fst u)" "held f + offered e = held f' + actions_units as + s"
    unfolding accounted_def conserved_def by blast
  have "sum_list (map (\<lambda>(e, _). offered e) (h @ [(e, as)])) =
      (held f + offered e) + sum_list (map (\<lambda>(_, as). actions_units as) h) + r"
    using r(2) by (simp add: ac_simps)
  also have "\<dots> = held f' + sum_list (map (\<lambda>(_, as). actions_units as) (h @ [(e, as)])) + (r + s)"
    unfolding s(2) by (simp add: ac_simps)
  finally show ?case using r(1) s(1) by (intro exI [of _ "r + s"]) auto
qed

theorem forward_conservation_witness:
  "length (fst sample_forward) = 7 \<and> (\<exists>replaced. (\<forall>u \<in># replaced. tag_conflatable (fst u)) \<and>
    sum_list (map (\<lambda>(e, _). offered e) (fst sample_forward)) =
      held (snd sample_forward) + sum_list (map (\<lambda>(_, as). actions_units as) (fst sample_forward)) + replaced)"
  using forward_conservation [OF sample_forward_history] sample_forward_counts(1) by blast

text \<open>
C26: Flow control. Over every history of a new forwarder, the number of packets sent on a link is at most
the number of its \<open>LinkWritable\<close> events, and the bytes sent on it at most the credit granted to it.
\<close>

theorem forward_flow_control:
  assumes "forward.history (forwarder_new me routes) h f"
  shows "sum_list (map (\<lambda>(_, as). sends l as) h) \<le> length (filter (\<lambda>(e, _). e = FE_LinkWritable l) h) \<and>
    sum_list (map (\<lambda>(_, as). sent_bytes l as) h) \<le> sum_list (map (\<lambda>(e, _). offered_credit l e) h)"
proof -
  have step: "permits l f' + sends l as \<le> permits l f + offered_permits l e \<and>
      credit l f' + sent_bytes l as \<le> credit l f + offered_credit l e"
    if "forward_inv f" "forward_admissible f e" "forward_handle now e f = Inr (as, f')" for f now e as f'
    using handle_accounted [OF that] unfolding accounted_def within_budget_def by blast
  have z: "permits l (forwarder_new me routes) = 0" "credit l (forwarder_new me routes) = 0"
    by (simp_all add: permits_def credit_def link_or_default_def forwarder_new_def link_queues_default_def)
  have "sum_list (map (\<lambda>(e, _). offered_permits l e) h) = length (filter (\<lambda>(e, _). e = FE_LinkWritable l) h)"
  proof -
    have "offered_permits l e = of_bool (e = FE_LinkWritable l)" for e by (cases e) auto
    then show ?thesis by (induction h) auto
  qed
  then show ?thesis
    using forward.history_budget [of "permits l" "sends l" "offered_permits l", OF _ assms forward_inv_new]
      forward.history_budget [of "credit l" "sent_bytes l" "offered_credit l", OF _ assms forward_inv_new] step z
    by fastforce
qed

theorem forward_flow_control_witness:
  "sum_list (map (\<lambda>(_, as). sends 7 as) (fst sample_forward)) = 1 \<and>
    1 \<le> length (filter (\<lambda>(e, _). e = FE_LinkWritable 7) (fst sample_forward))"
  using forward_flow_control [OF sample_forward_history, of 7] sample_forward_counts(2) by simp

text \<open>
C27: P0 packets of a failed link do not wait for ever. A batch in the waiting room after an event either
was there with the same deadline, and its timer is armed again if it was that timer that fired, or the
event was a link failure, the deadline is two seconds ahead and the timer is armed. Its timer, once
the deadline has passed, empties the batch and drops its packets with a reason, and touches no other batch.
\<close>

theorem p0_wait_bounded:
  assumes "forward.reachable (forwarder_new me routes) f" and "forward_admissible f e"
    and "forward_handle now e f = Inr (as, f')" and "bt_get (fw_pending_p0 f') g = Some b"
  shows "(if \<exists>b0. bt_get (fw_pending_p0 f) g = Some b0 \<and> pb_expires_at b0 = pb_expires_at b
       then e = FE_Timer (PendingP0 g) \<longrightarrow> FA_SetTimer (PendingP0 g) (pb_expires_at b) \<in> set as
       else (\<exists>l. e = FE_LinkDown l) \<and> pb_expires_at b = sat_add now P0_ROUTE_WAIT_MS \<and>
         FA_SetTimer (PendingP0 g) (pb_expires_at b) \<in> set as) \<and>
    (pb_expires_at b \<le> later \<longrightarrow>
      (\<exists>f''. forward_handle later (FE_Timer (PendingP0 g)) f' =
          Inr (map (\<lambda>x. FA_Drop RouteWaitExpired (qp_packet x)) (pb_packets b), f'') \<and>
        (\<forall>k. bt_get (fw_pending_p0 f'') k = (if k = g then None else bt_get (fw_pending_p0 f') k))))"
proof -
  have "timers_armed now f e as f'"
    using handle_accounted [OF forward.reachable_inv [OF assms(1) forward_inv_new] assms(2,3)]
    unfolding accounted_def by blast
  then have armed: "if \<exists>b0. bt_get (fw_pending_p0 f) g = Some b0 \<and> pb_expires_at b0 = pb_expires_at b
       then e = FE_Timer (PendingP0 g) \<longrightarrow> FA_SetTimer (PendingP0 g) (pb_expires_at b) \<in> set as
       else (\<exists>l. e = FE_LinkDown l) \<and> pb_expires_at b = sat_add now P0_ROUTE_WAIT_MS \<and>
         FA_SetTimer (PendingP0 g) (pb_expires_at b) \<in> set as"
    using assms(4) unfolding timers_armed_def by blast
  have "pb_expires_at b \<le> later \<Longrightarrow> forward_handle later (FE_Timer (PendingP0 g)) f' =
      Inr (map (\<lambda>x. FA_Drop RouteWaitExpired (qp_packet x)) (pb_packets b), f'\<lparr>fw_pending_p0 := bt_remove g (fw_pending_p0 f')\<rparr>)"
    using assms(4) by (auto simp: handle_timer_def drop_queued_packets_def dest: leD)
  then show ?thesis
    by (intro conjI impI armed exI [of _ "f'\<lparr>fw_pending_p0 := bt_remove g (fw_pending_p0 f')\<rparr>"]) simp_all
qed

theorem p0_wait_bounded_witness:
  "\<exists>as f'. forward_handle 31 (FE_LinkWritable 8) (snd sample_forward) = Inr (as, f') \<and>
    (\<exists>b. bt_get (fw_pending_p0 f') 0 = Some b \<and>
      (\<exists>f''. forward_handle 2030 (FE_Timer (PendingP0 0)) f' =
        Inr (map (\<lambda>x. FA_Drop RouteWaitExpired (qp_packet x)) (pb_packets b), f'')))"
proof -
  have adm: "forward_admissible (snd sample_forward) (FE_LinkWritable 8)" by simp
  have "case forward_handle 31 (FE_LinkWritable 8) (snd sample_forward) of Inl _ \<Rightarrow> False
    | Inr (as, f') \<Rightarrow> map_option pb_expires_at (bt_get (fw_pending_p0 f') 0) = Some 2030" by code_simp
  then obtain as f' b where r: "forward_handle 31 (FE_LinkWritable 8) (snd sample_forward) = Inr (as, f')"
      "bt_get (fw_pending_p0 f') 0 = Some b" "pb_expires_at b = 2030"
    by (auto split: sum.splits)
  from p0_wait_bounded [OF sample_forward_reachable adm r(1,2), of 2030] r show ?thesis by auto
qed

text \<open>
C28: The next packet of a link. If the link is writable and either P0 is waiting and its head fits the
credit, or P0 is empty and the head of P1, P2 or P3 fits, then the scheduler returns having sent the
head of one queue, of P0 unless P0 is empty, took its length from the credit and used up the
permission to write; otherwise it changes nothing. In particular the DRR loop terminates with a packet
whenever one can be sent.
\<close>

theorem link_scheduling:
  assumes "bt_get (fw_links f) l = Some st" and "lq_next_drr st < 3"
  shows "if lq_writable st \<and> (if lq_queues st 0 \<noteq> [] then head_fits_credit st 0 else list_ex (head_fits_credit st) [1, 2, 3])
    then \<exists>i x rest st'. i < 4 \<and> lq_queues st i = x # rest \<and> (i = 0 \<or> lq_queues st 0 = []) \<and>
      try_send_one l f = Inr ([FA_Send l (qp_packet x)], put_link l st' f) \<and>
      lq_queues st' = (lq_queues st)(i := rest) \<and> \<not> lq_writable st' \<and>
      encoded_len (qp_packet x) \<le> lq_available_credit_bytes st \<and>
      lq_available_credit_bytes st' = lq_available_credit_bytes st - encoded_len (qp_packet x)
    else try_send_one l f = Inr ([], f)"
proof (cases "can_send st")
  case True
  from try_send_one_sends [OF assms True] obtain i x rest st' where
    p: "pops st i x rest st'" "i = 0 \<or> lq_queues st 0 = []"
      "try_send_one l f = Inr ([FA_Send l (qp_packet x)], put_link l st' f)" .
  have "i < 4 \<and> lq_queues st i = x # rest \<and> (i = 0 \<or> lq_queues st 0 = []) \<and>
      try_send_one l f = Inr ([FA_Send l (qp_packet x)], put_link l st' f) \<and>
      lq_queues st' = (lq_queues st)(i := rest) \<and> \<not> lq_writable st' \<and>
      encoded_len (qp_packet x) \<le> lq_available_credit_bytes st \<and>
      lq_available_credit_bytes st' = lq_available_credit_bytes st - encoded_len (qp_packet x)"
    using p unfolding pops_def by blast
  then show ?thesis using True [unfolded can_send_def] by (subst if_P) blast+
next
  case False
  have "try_send_one l f = Inr ([], f)" by (rule try_send_one_idle) (use assms(1) False in simp)
  then show ?thesis using False [unfolded can_send_def] by (subst if_not_P) blast+
qed

definition sample_link :: link_queues where
  "sample_link = link_queues_default
    \<lparr>lq_queues := (\<lambda>_. [])(3 := [\<lparr>qp_incoming = None, qp_packet = unicast_sample P3 2\<rparr>]),
     lq_available_credit_bytes := 100, lq_writable := True\<rparr>"

theorem link_scheduling_witness:
  "\<exists>i x rest st'. lq_queues sample_link i = x # rest \<and>
    try_send_one 7 (put_link 7 sample_link (forwarder_new 1 sample_routes)) =
      Inr ([FA_Send 7 (qp_packet x)], put_link 7 st' (put_link 7 sample_link (forwarder_new 1 sample_routes)))"
proof -
  have "lq_writable sample_link" "lq_queues sample_link 0 = []" "list_ex (head_fits_credit sample_link) [1, 2, 3]"
    by code_simp+
  moreover have "lq_next_drr sample_link < 3" by (simp add: sample_link_def link_queues_default_def)
  ultimately show ?thesis
    using link_scheduling [of "put_link 7 sample_link (forwarder_new 1 sample_routes)" 7 sample_link] by auto
qed

section \<open>Conflation and overflow\<close>

abbreviation keyed :: "conflation_key \<Rightarrow> queued_packet \<Rightarrow> bool" where
  "keyed k x \<equiv> conflation_key_of (qp_packet x) = Some k"

lemma filter_keyed_unique:
  "distinct (conflation_keys q) \<Longrightarrow> x \<in> set q \<Longrightarrow> keyed k x \<Longrightarrow> filter (keyed k) q = [x]"
proof (induction q)
  case (Cons y q)
  have none: "k \<notin> set (conflation_keys q) \<Longrightarrow> filter (keyed k) q = []"
    by (auto simp: conflation_keys_def map_filter_set filter_empty_conv)
  have mem: "x \<in> set q \<Longrightarrow> k \<in> set (conflation_keys q)" using Cons.prems(3) by (auto simp: conflation_keys_def map_filter_set)
  show ?case
  proof (cases "keyed k y")
    case True
    then have "k \<notin> set (conflation_keys q)" using Cons.prems(1) by simp
    then show ?thesis using True none mem Cons.prems by auto
  next
    case False
    then show ?thesis using Cons by (auto split: option.splits)
  qed
qed simp

lemma try_send_keyed:
  assumes "forward_inv f" "bt_get (fw_links f) l = Some st" "filter (keyed k) (lq_queues st 1) = [x]"
  shows "\<exists>as f'. try_send_one l f = Inr (as, f') \<and>
    (as = [FA_Send l (qp_packet x)] \<and> filter (keyed k) (lq_queues (link_or_default l f') 1) = [] \<or>
     filter (keyed k) (lq_queues (link_or_default l f') 1) = [x])"
proof (cases "can_send st")
  case True
  have "lq_next_drr st < 3" using assms(1,2) unfolding forward_inv_def link_inv_def by blast
  from try_send_one_sends [OF assms(2) this True] obtain i y rest st' where
    p: "pops st i y rest st'" "try_send_one l f = Inr ([FA_Send l (qp_packet y)], put_link l st' f)" by metis
  have q: "lq_queues st i = y # rest" "lq_queues st' = (lq_queues st)(i := rest)" using p(1) unfolding pops_def by blast+
  then have "y = x \<and> filter (keyed k) (lq_queues st' 1) = [] \<or> filter (keyed k) (lq_queues st' 1) = [x]"
    using assms(3) by (cases "i = 1") (auto split: if_splits)
  then show ?thesis using p(2) by auto
next
  case False
  have "try_send_one l f = Inr ([], f)" by (rule try_send_one_idle) (use assms(2) False in simp)
  then show ?thesis using assms(2,3) by simp
qed

text \<open>
C29: Conflation keeps the newest value. Offering a conflatable packet to an up link leaves no older packet of
its key behind: either the packet is refused because the queue is full and has none of its key, or it
is sent at once and none of its key waits, or it is the only packet of its key that waits.
\<close>

theorem conflation_newest:
  assumes "forward_inv f" and "packet_ok (fw_me f) p" and "incoming \<noteq> Some l" and "\<not> bt_contains (fw_down_links f) l"
    and "conflation_key_of p = Some k"
  shows "\<exists>as f'. enqueue l p incoming f = Inr (as, f') \<and>
    (let waiting = filter (\<lambda>x. conflation_key_of (qp_packet x) = Some k) (lq_queues (link_or_default l f') 1) in
     as = [FA_Drop (QueueFull P1) p] \<and> waiting = [] \<or> as = [FA_Send l p] \<and> waiting = [] \<or>
     waiting = [\<lparr>qp_incoming = incoming, qp_packet = p\<rparr>])"
proof -
  define st where "st = link_or_default l f"
  define x where "x = \<lparr>qp_incoming = incoming, qp_packet = p\<rparr>"
  have pr: "h_priority (p_header p) = P1" using assms(5) by (simp add: conflation_key_of_def split: if_splits)
  have x: "queued_ok (fw_me f) l 1 x" "keyed k x" using assms(2,3,5) pr by (simp_all add: queued_ok_def x_def)
  have li: "link_inv (fw_me f) l st" unfolding st_def by (rule link_inv_or_default [OF assms(1)])
  then have qi: "queue_inv (fw_me f) l 1 (lq_queues st 1)" "lq_queued_bytes st 1 = queue_bytes (lq_queues st 1)"
    unfolding link_inv_def by (metis one_less_numeral_iff semiring_norm(76))+
  have sent: ?thesis if "enqueue l p incoming f = try_send_one l (put_link l (st\<lparr>lq_queues := (lq_queues st)(1 := q),
      lq_queued_bytes := (lq_queued_bytes st)(1 := b)\<rparr>) f)" "queue_inv (fw_me f) l 1 q" "b = queue_bytes q" "x \<in> set q" for q b
  proof -
    let ?st = "st\<lparr>lq_queues := (lq_queues st)(1 := q), lq_queued_bytes := (lq_queued_bytes st)(1 := b)\<rparr>"
    have "forward_inv (put_link l ?st f)"
      using that by (intro forward_inv_put assms(1,4) link_inv_queue li) auto
    moreover have "filter (keyed k) (lq_queues ?st 1) = [x]"
      using filter_keyed_unique [of q x k] that x(2) by (simp add: queue_inv_def)
    ultimately show ?thesis using try_send_keyed [of "put_link l ?st f" l ?st k x] that(1) unfolding Let_def x_def by auto
  qed
  note e = enqueue_def [of l p incoming f, folded st_def x_def, unfolded Let_def pr, folded st_def x_def]
  show ?thesis
  proof (cases "conflate x (lq_queues st 1)")
    case None
    have "length (lq_queues st 1) < QUEUE_LIMIT_PACKETS 1 \<Longrightarrow> ?thesis"
      using None qi x assms(4) queue_bytes_max [of "fw_me f" l 1 "lq_queues st 1 @ [x]"] queue_inv_append [OF qi(1) x(1) _ None]
      by (intro sent [where q = "lq_queues st 1 @ [x]" and b = "usize_add (lq_queued_bytes st 1) (encoded_len p)"])
        (simp_all add: e queue_inv_def usize_add_def x_def)
    moreover have "filter (keyed k) (lq_queues st 1) = []"
      using None x(2) by (simp add: conflate_def replace_first_None filter_empty_conv)
    ultimately show ?thesis using None assms(4) unfolding e by (auto simp: Let_def not_less)
  next
    case (Some oq)
    obtain old q where oq: "oq = (old, q)" by fastforce
    from conflate_Some [OF Some [unfolded oq]] obtain us vs key where
      us: "lq_queues st 1 = us @ old # vs" "q = us @ x # vs" "keyed key old" "keyed key x" .
    have "queue_inv (fw_me f) l 1 q" unfolding us(2) by (rule queue_inv_replace [OF qi(1) [unfolded us(1)] x(1) us(3,4)])
    moreover from this have "queue_bytes q \<le> USIZE_MAX" using queue_bytes_max [of "fw_me f" l 1 q] by (simp add: queue_inv_def)
    ultimately show ?thesis
      using Some oq assms(4) qi(2) us
      by (intro sent [where q = q and b = "usize_add (usize_sub (lq_queued_bytes st 1) (encoded_len (qp_packet old))) (encoded_len p)"])
        (simp_all add: e usize_add_def usize_sub_def x_def)
  qed
qed

theorem conflation_newest_witness:
  "\<exists>as f'. enqueue 7 (unicast_sample P1 2) None (forwarder_new 1 sample_routes) = Inr (as, f') \<and>
    (as = [FA_Drop (QueueFull P1) (unicast_sample P1 2)] \<or> as = [FA_Send 7 (unicast_sample P1 2)] \<or>
     \<lparr>qp_incoming = None, qp_packet = unicast_sample P1 2\<rparr> \<in> set (lq_queues (link_or_default 7 f') 1))"
proof -
  have "packet_ok (fw_me (forwarder_new 1 sample_routes)) (unicast_sample P1 2)"
    by (simp add: packet_ok_def unicast_sample_def forwarder_new_def wire_consts)
  moreover have "conflation_key_of (unicast_sample P1 2) = Some \<lparr>ck_source = 1, ck_flow_id = 5, ck_conflate_key = 6\<rparr>"
    by code_simp
  moreover have "\<not> bt_contains (fw_down_links (forwarder_new 1 sample_routes)) 7" by (simp add: forwarder_new_def)
  ultimately obtain as f' where r: "enqueue 7 (unicast_sample P1 2) None (forwarder_new 1 sample_routes) = Inr (as, f')"
    "let waiting = filter (keyed \<lparr>ck_source = 1, ck_flow_id = 5, ck_conflate_key = 6\<rparr>) (lq_queues (link_or_default 7 f') 1) in
     as = [FA_Drop (QueueFull P1) (unicast_sample P1 2)] \<and> waiting = [] \<or> as = [FA_Send 7 (unicast_sample P1 2)] \<and> waiting = [] \<or>
     waiting = [\<lparr>qp_incoming = None, qp_packet = unicast_sample P1 2\<rparr>]"
    using conflation_newest [OF forward_inv_new, where incoming = None and l = 7 and p = "unicast_sample P1 2"] by blast
  have "\<lparr>qp_incoming = None, qp_packet = unicast_sample P1 2\<rparr> \<in> set q"
    if "filter P q = [\<lparr>qp_incoming = None, qp_packet = unicast_sample P1 2\<rparr>]" for P q
    using arg_cong [OF that, of set] by auto
  with r show ?thesis unfolding Let_def by blast
qed

text \<open>
C30: A full queue refuses a packet without touching the forwarder: when the queue of its priority holds the
limit and no queued packet has its conflation key, a P0 packet is pushed back to the caller and any other is
dropped with the reason \<open>QueueFull\<close> of its priority.
\<close>

theorem queue_overflow:
  assumes "\<not> bt_contains (fw_down_links f) l"
    and "QUEUE_LIMIT_PACKETS (priority_index (h_priority (p_header p))) \<le>
      length (lq_queues (link_or_default l f) (priority_index (h_priority (p_header p))))"
    and "\<forall>x \<in> set (lq_queues (link_or_default l f) (priority_index (h_priority (p_header p)))).
      conflation_key_of (qp_packet x) = None \<or> conflation_key_of (qp_packet x) \<noteq> conflation_key_of p"
  shows "enqueue l p incoming f =
    Inr ([if h_priority (p_header p) = P0 then FA_Backpressure l p else FA_Drop (QueueFull (h_priority (p_header p))) p], f)"
proof -
  let ?i = "priority_index (h_priority (p_header p))"
  have "0 < length (lq_queues (link_or_default l f) ?i)"
    using assms(2) QUEUE_LIMIT_le [OF priority_index_less, of "h_priority (p_header p)"] by linarith
  then have "bt_get (fw_links f) l \<noteq> None" by (cases "bt_get (fw_links f) l") (auto simp: link_or_default_def link_queues_default_def)
  then have same: "put_link l (link_or_default l f) f = f" using put_link_same by fastforce
  have "conflate \<lparr>qp_incoming = incoming, qp_packet = p\<rparr> (lq_queues (link_or_default l f) ?i) = None"
    using assms(3) by (auto simp: conflate_def replace_first_None split: option.split)
  then show ?thesis using assms(1,2) by (simp add: enqueue_def Let_def same not_less)
qed

definition full_link :: link_queues where
  "full_link = link_queues_default
    \<lparr>lq_queues := (\<lambda>_. [])(0 := replicate 256 \<lparr>qp_incoming = None, qp_packet = unicast_sample P0 2\<rparr>)\<rparr>"

theorem queue_overflow_witness:
  "enqueue 7 (unicast_sample P0 2) None (put_link 7 full_link (forwarder_new 1 sample_routes)) =
    Inr ([FA_Backpressure 7 (unicast_sample P0 2)], put_link 7 full_link (forwarder_new 1 sample_routes))"
proof -
  have pr: "h_priority (p_header (unicast_sample P0 2)) = P0" by (simp add: unicast_sample_def)
  show ?thesis
    using queue_overflow [of "put_link 7 full_link (forwarder_new 1 sample_routes)" 7 "unicast_sample P0 2" None]
    by (simp add: pr full_link_def QUEUE_LIMIT_PACKETS_def conflation_key_of_def) (simp add: forwarder_new_def)
qed

section \<open>Fairness of deficit round robin\<close>

definition deficit_bounded :: "link_queues \<Rightarrow> bool" where
  "deficit_bounded st \<longleftrightarrow> (\<forall>i < 3. lq_deficit_bytes st i < MAX_PAYLOAD_LEN +
     (if i = lq_next_drr st \<and> \<not> lq_drr_needs_quantum st then DRR_QUANTUM_BYTES i else 0))"

lemma deficit_bounded_advance:
  "deficit_bounded st \<Longrightarrow> lq_deficit_bytes st (lq_next_drr st) < MAX_PAYLOAD_LEN \<Longrightarrow> deficit_bounded (advance_drr st)"
  unfolding deficit_bounded_def advance_drr_def by (auto split: if_splits)

lemma deficit_bounded_quantum: "deficit_bounded st \<Longrightarrow> lq_next_drr st < 3 \<Longrightarrow> deficit_bounded (add_quantum st)"
  using usize_add_le [of "lq_deficit_bytes st (lq_next_drr st)" "DRR_QUANTUM_BYTES (lq_next_drr st)"]
  unfolding deficit_bounded_def add_quantum_def Let_def by (auto split: if_splits intro: le_less_trans)

lemma deficit_bounded_reset:
  "deficit_bounded st \<Longrightarrow> deficit_bounded (st\<lparr>lq_deficit_bytes := (lq_deficit_bytes st)(lq_next_drr st := 0)\<rparr>)"
  unfolding deficit_bounded_def by (auto simp: wire_consts)

text \<open>
Deficit round robin stays fair as long as credit is not the bottleneck: if the head of every waiting queue
fits the credit, then no queue keeps more deficit than one packet of the largest size, plus its quantum
while it is being served.
\<close>

theorem drr_deficit_bound:
  assumes "deficit_bounded st" and "lq_next_drr st < 3"
    and "\<forall>i \<in> {1, 2, 3}. (\<forall>x \<in> set (lq_queues st i). encoded_len (qp_packet x) \<le> MAX_PAYLOAD_LEN) \<and>
      (lq_queues st i \<noteq> [] \<longrightarrow> head_fits_credit st i)"
  shows "\<exists>sent st'. drr_loop st = Inr (sent, st') \<and> deficit_bounded st'"
  using assms
proof (induction st rule: drr_loop.induct)
  case (1 st)
  let ?i = "lq_next_drr st"
  show ?case
  proof (cases "list_ex (head_fits_credit st) [1, 2, 3]")
    case False
    then show ?thesis using drr_loop_idle [OF False] "1.prems"(1) by simp
  next
    case ex: True
    have pos: "\<not> 3 \<le> ?i" using "1.prems"(2) by simp
    have i: "?i + 1 \<in> {1, 2, 3}" using "1.prems"(2) by auto
    show ?thesis
    proof (cases "lq_queues st (?i + 1)")
      case Nil
      let ?st = "advance_drr (st\<lparr>lq_deficit_bytes := (lq_deficit_bytes st)(?i := 0)\<rparr>)"
      have "deficit_bounded ?st"
        using deficit_bounded_advance [OF deficit_bounded_reset [OF "1.prems"(1)]] by (simp add: wire_consts)
      moreover have "drr_loop st = drr_loop ?st" using ex pos Nil by (subst drr_loop.simps) simp
      ultimately show ?thesis
        using "1.IH"(1) [of, OF _ pos Nil] ex "1.prems"(3) by (simp add: advance_drr_state deficit_update_state)
    next
      case (Cons x rest)
      have len: "encoded_len (qp_packet x) \<le> MAX_PAYLOAD_LEN" "encoded_len (qp_packet x) \<le> lq_available_credit_bytes st"
        using bspec [OF "1.prems"(3) i] by (simp_all add: Cons [simplified] head_fits_credit_def head_len_def)
      let ?st = "add_quantum st"
      have b: "deficit_bounded ?st" by (rule deficit_bounded_quantum [OF "1.prems"(1,2)])
      show ?thesis
      proof (cases "encoded_len (qp_packet x) > lq_deficit_bytes ?st (lq_next_drr ?st) \<or>
          encoded_len (qp_packet x) > lq_available_credit_bytes ?st")
        case True
        obtain d where d: "?st = drr_state ((lq_deficit_bytes st)(?i := d)) ?i False st" using add_quantum_state by blast
        have "deficit_bounded (advance_drr ?st)" using True len by (intro deficit_bounded_advance [OF b]) auto
        moreover have "drr_loop st = drr_loop (advance_drr ?st)"
          using ex pos Cons True by (subst drr_loop.simps) (simp add: Let_def)
        ultimately show ?thesis
          using "1.IH"(2) [OF _ pos Cons refl refl True] ex "1.prems"(3) by (simp add: advance_drr_state d)
      next
        case False
        then have "drr_loop st = Inr (Some (qp_packet x), send_drr x rest ?st)"
          using ex pos Cons by (subst drr_loop.simps) (simp add: Let_def)
        moreover have "deficit_bounded (send_drr x rest ?st)"
          using b unfolding deficit_bounded_def send_drr_def Let_def advance_drr_def
          by (auto simp: wire_consts intro: le_less_trans [OF diff_le_self] split: if_splits)
        ultimately show ?thesis by blast
      qed
    qed
  qed
qed

theorem drr_deficit_bound_witness: "\<exists>sent st'. drr_loop sample_link = Inr (sent, st') \<and> deficit_bounded st'"
proof (rule drr_deficit_bound)
  show "deficit_bounded sample_link" "lq_next_drr sample_link < 3"
    by (simp_all add: deficit_bounded_def sample_link_def link_queues_default_def wire_consts)
  have "\<forall>i \<in> set [1, 2, 3]. (\<forall>x \<in> set (lq_queues sample_link i). encoded_len (qp_packet x) \<le> MAX_PAYLOAD_LEN) \<and>
      (lq_queues sample_link i \<noteq> [] \<longrightarrow> head_fits_credit sample_link i)" by code_simp
  then show "\<forall>i \<in> {1, 2, 3}. (\<forall>x \<in> set (lq_queues sample_link i). encoded_len (qp_packet x) \<le> MAX_PAYLOAD_LEN) \<and>
      (lq_queues sample_link i \<noteq> [] \<longrightarrow> head_fits_credit sample_link i)" by simp
qed

end
