(* ===== verification/TransportProps.thy ===== *)
theory TransportProps
  imports Transport Codec
begin

text \<open>
  A link carries frames like a queue: whatever the fragmentation of the byte stream, the receiving worker
  reports exactly the frames the sending worker was told to send, in order. The registry gives every
  link an identifier of its own and admits only allowed peers.
\<close>

section \<open>Draining does not depend on fragmentation\<close>

lemma frame_decode_more: "frame_decode b = Inr (Some f, r) \<Longrightarrow> frame_decode (b @ c) = Inr (Some f, r @ c)"
  using frame_decode_sound [of b f r] frame_decode_encode [of f _ "r @ c"] by force

lemma frame_decode_waits: "frame_decode b = Inr (None, r) \<Longrightarrow> r = b"
  by (auto simp: frame_decode_def Let_def res_simps split: if_splits)

lemma frame_decode_error: "frame_decode b = Inl e \<Longrightarrow> frame_decode (b @ c) = Inl e"
  by (auto simp: frame_decode_def Let_def res_simps nth_append HEADER_LEN_def split: if_splits)

lemma drain_Nil: "drain_frames alive l [] = ([], [], True)"
  by (subst drain_frames.simps) (simp add: frame_decode_def HEADER_LEN_def)

lemma drain_append:
  "drain_frames True l b = (events, r, running) \<Longrightarrow>
   drain_frames True l (b @ c) =
     (if running then (case drain_frames True l (r @ c) of (events', r', running') \<Rightarrow> (events @ events', r', running'))
      else (events, r @ c, False))"
proof (induction True l b arbitrary: events r running rule: drain_frames.induct)
  case (1 l b)
  show ?case
  proof (cases "frame_decode b")
    case (Inl e)
    then show ?thesis using "1.prems" frame_decode_error [OF Inl, of c] by (subst (asm) drain_frames.simps, subst drain_frames.simps) auto
  next
    case (Inr res)
    obtain fo rest where res: "res = (fo, rest)" by fastforce
    show ?thesis
    proof (cases fo)
      case None
      then have "frame_decode b = Inr (None, b)" using Inr res frame_decode_waits by auto
      then have "events = []" "r = b" "running" using "1.prems" by (subst (asm) drain_frames.simps, simp)+
      then show ?thesis by (simp split: prod.split)
    next
      case (Some f)
      then have d: "frame_decode b = Inr (Some f, rest)" using Inr res by simp
      obtain ev r' run' where tl: "drain_frames True l rest = (ev, r', run')" by (metis prod_cases3)
      have e: "events = LE_Frame l f # ev" "r = r'" "running = run'"
        using "1.prems" d tl by (subst (asm) drain_frames.simps, simp)+
      have "drain_frames True l (b @ c) = (case drain_frames True l (rest @ c) of
          (events', r', running') \<Rightarrow> (LE_Frame l f # events', r', running'))"
        using frame_decode_more [OF d] by (subst drain_frames.simps) simp
      moreover note "1.hyps" [OF d refl refl _ tl]
      ultimately show ?thesis by (auto simp: e split: prod.split)
    qed
  qed
qed

lemma drain_frames_encoded:
  assumes "list_all2 (\<lambda>f bs. frame_encode f = Inr bs) fs encs" and "frame_decode partial_frame = Inr (None, partial_frame)"
  shows "drain_frames True l (concat encs @ partial_frame) = (map (LE_Frame l) fs, partial_frame, True)"
  using assms(1)
proof (induction rule: list_all2_induct)
  case Nil
  then show ?case using assms(2) by (subst drain_frames.simps) simp
next
  case (Cons f fs bs encs)
  then show ?case using frame_decode_encode [OF Cons.hyps(1)] by (subst drain_frames.simps) simp
qed

lemma worker_update_order [simp]:
  "w\<lparr>lw_running := b, lw_buffered := r\<rparr> = w\<lparr>lw_buffered := r, lw_running := b\<rparr>"
  by simp

text \<open>A worker that only reads ends up as if it had drained the whole stream at once.\<close>

lemma run_link_drained:
  assumes "drain_frames True (lw_link w) (lw_buffered w) = (ev0, r0, True)"
  shows "run_link True ok [] w = ([], ev0, w\<lparr>lw_buffered := r0, lw_running := True\<rparr>)"
  using assms by (subst run_link.simps) (simp add: worker_drain_def)

lemma run_link_reads:
  assumes "drain_frames True (lw_link w) (lw_buffered w @ concat chunks) = (events, rest, True)" and "\<forall>c \<in> set chunks. c \<noteq> []"
  shows "run_link True ok (map (\<lambda>c. WI_Read (Rd_Bytes c)) chunks) w = ([], events, w\<lparr>lw_buffered := rest, lw_running := True\<rparr>)"
  using assms
proof (induction chunks arbitrary: w events)
  case Nil
  then show ?case using run_link_drained by simp
next
  case (Cons c chunks)
  obtain ev0 r0 run0 where d: "drain_frames True (lw_link w) (lw_buffered w) = (ev0, r0, run0)" by (metis prod_cases3)
  from Cons.prems(1) drain_append [OF d, of "c @ concat chunks"] have run0: "run0" by (auto split: if_splits)
  obtain ev1 where ev1: "drain_frames True (lw_link w) (r0 @ c @ concat chunks) = (ev1, rest, True)" "events = ev0 @ ev1"
    using Cons.prems(1) drain_append [OF d, of "c @ concat chunks"] run0 by (auto split: prod.splits)
  let ?w = "w\<lparr>lw_buffered := r0 @ c, lw_running := True\<rparr>"
  have "run_link True ok (map (\<lambda>c. WI_Read (Rd_Bytes c)) chunks) ?w = ([], ev1, ?w\<lparr>lw_buffered := rest, lw_running := True\<rparr>)"
    using ev1(1) Cons.prems(2) by (intro Cons.IH) simp_all
  then show ?case
    using d run0 ev1(2) Cons.prems(2) by (subst run_link.simps) (simp add: worker_drain_def)
qed

section \<open>Sending\<close>

definition sent_event :: "link_id \<Rightarrow> wire_frame \<Rightarrow> link_event" where
  "sent_event l f = LE_Sent l (wf_type f) (wf_channel f) (length (wf_payload f))"

lemma run_link_sends:
  assumes "list_all2 (\<lambda>f bs. frame_encode f = Inr bs) fs encs" and "lw_buffered w = []"
  shows "run_link True True (map (\<lambda>f. WI_Command (Some (LC_Send f))) fs) w =
    (concat encs, map (sent_event (lw_link w)) fs, w\<lparr>lw_buffered := [], lw_running := True\<rparr>)"
  using assms
proof (induction arbitrary: w rule: list_all2_induct)
  case Nil
  then show ?case using run_link_drained [of w "[]" "[]"] drain_Nil by simp
next
  case (Cons f fs bs encs)
  let ?w = "w\<lparr>lw_buffered := [], lw_running := True\<rparr>"
  show ?case
    using Cons.hyps(1) Cons.IH [of ?w] Cons.prems drain_Nil
    by (subst run_link.simps) (simp add: worker_drain_def sent_event_def)
qed

text \<open>
C38: A link is a reliable queue of frames. Telling the worker of one end to send frames that fit writes their
encodings and reports each as sent with its payload length; and however the written bytes are cut into
reads at the other end, its worker reports exactly those frames, once each and in order, stays up and
keeps nothing buffered.
\<close>

theorem link_carries_frames:
  assumes "\<forall>f \<in> set fs. length (wf_payload f) \<le> MAX_PAYLOAD_LEN"
    and "run_link True True (map (\<lambda>f. WI_Command (Some (LC_Send f))) fs) \<lparr>lw_link = a, lw_buffered = [], lw_running = True\<rparr> = (written, reports, sender)"
    and "concat chunks = written" and "\<forall>c \<in> set chunks. c \<noteq> []"
  shows "reports = map (\<lambda>f. LE_Sent a (wf_type f) (wf_channel f) (length (wf_payload f))) fs \<and>
    run_link True ok (map (\<lambda>c. WI_Read (Rd_Bytes c)) chunks) \<lparr>lw_link = b, lw_buffered = [], lw_running = True\<rparr> =
      ([], map (LE_Frame b) fs, \<lparr>lw_link = b, lw_buffered = [], lw_running = True\<rparr>)"
proof -
  define encs where "encs = map (\<lambda>f. case frame_encode f of Inr bs \<Rightarrow> bs | Inl _ \<Rightarrow> []) fs"
  have "frame_encode f = Inr (case frame_encode f of Inr bs \<Rightarrow> bs | Inl _ \<Rightarrow> [])" if "f \<in> set fs" for f
    using assms(1) that by (simp add: frame_encode_def Let_def not_less)
  then have encs: "list_all2 (\<lambda>f bs. frame_encode f = Inr bs) fs encs"
    unfolding encs_def list_all2_map2 by (rule list_all2_same [THEN iffD2, rule_format])
  have s: "written = concat encs" "reports = map (sent_event a) fs"
    using run_link_sends [OF encs, of "\<lparr>lw_link = a, lw_buffered = [], lw_running = True\<rparr>"] assms(2) by simp_all
  have "frame_decode [] = Inr (None, [])" by (simp add: frame_decode_def HEADER_LEN_def)
  from drain_frames_encoded [OF encs this, of b] have "drain_frames True b (concat chunks) = (map (LE_Frame b) fs, [], True)"
    using assms(3) s(1) by simp
  then show ?thesis
    using run_link_reads [of "\<lparr>lw_link = b, lw_buffered = [], lw_running = True\<rparr>" chunks "map (LE_Frame b) fs" "[]" ok] assms(4) s(2)
    by (simp add: sent_event_def)
qed

theorem link_carries_frames_witness:
  "run_link True True (map (\<lambda>c. WI_Read (Rd_Bytes c)) [[24, 0, 0, 0, 0, 0], [0, 2, 65], [66]]) \<lparr>lw_link = 4, lw_buffered = [], lw_running = True\<rparr> =
    ([], [LE_Frame 4 (frame_control FT_Ping [65, 66])], \<lparr>lw_link = 4, lw_buffered = [], lw_running = True\<rparr>)"
proof -
  have "frame_encode (frame_control FT_Ping [65, 66]) = Inr [24, 0, 0, 0, 0, 0, 0, 2, 65, 66]" by code_simp
  then have "list_all2 (\<lambda>f bs. frame_encode f = Inr bs) [frame_control FT_Ping [65, 66]] [[24, 0, 0, 0, 0, 0, 0, 2, 65, 66]]" by simp
  from run_link_sends [OF this, of "\<lparr>lw_link = 3, lw_buffered = [], lw_running = True\<rparr>"]
  have "run_link True True (map (\<lambda>f. WI_Command (Some (LC_Send f))) [frame_control FT_Ping [65, 66]])
      \<lparr>lw_link = 3, lw_buffered = [], lw_running = True\<rparr> =
    ([24, 0, 0, 0, 0, 0, 0, 2, 65, 66], [sent_event 3 (frame_control FT_Ping [65, 66])], \<lparr>lw_link = 3, lw_buffered = [], lw_running = True\<rparr>)" by simp
  from link_carries_frames [OF _ this, of "[[24, 0, 0, 0, 0, 0], [0, 2, 65], [66]]" True 4]
  show ?thesis by (simp add: frame_control_def wire_consts)
qed

section \<open>The registry\<close>

definition registry_inv :: "endpoint \<Rightarrow> bool" where
  "registry_inv ep \<longleftrightarrow> ep_link_count ep = bt_len (ep_links ep) \<and>
    (\<forall>l. bt_contains (ep_links ep) l \<longrightarrow> unat l < unat (ep_next_link ep))"

lemma registry_inv_bind: "registry_inv (endpoint_bind me allowed)"
  by (simp add: registry_inv_def endpoint_bind_def bt_contains_def)

lemma registry_inv_steps:
  assumes "registry_inv ep"
  shows "registry_inv (remove_link l ep)" "registry_inv (endpoint_allow_peer p ep)" "registry_inv (snd (send_command l c ep))"
    "registry_inv (endpoint_shutdown ep)"
  using assms by (auto simp: registry_inv_def remove_link_def put_links_def endpoint_allow_peer_def send_command_def
      endpoint_shutdown_def bt_contains_def bt_len_insert split: option.split if_splits)

lemma attach_peer_inv:
  assumes "registry_inv ep" "attach_peer alive expected peer ep = (r, events, ep')"
  shows "registry_inv ep' \<and> unat (ep_next_link ep) \<le> unat (ep_next_link ep') \<and>
    (\<forall>link. r = Inr link \<longrightarrow> bt_contains (ep_allowed_peers ep) peer \<and> (expected = None \<or> expected = Some peer) \<and>
      link = ep_next_link ep \<and> \<not> bt_contains (ep_links ep) link \<and> bt_contains (ep_links ep') link \<and>
      unat link < unat (ep_next_link ep') \<and> events = [LE_Up link peer])"
proof (cases "checked_add (ep_next_link ep) 1")
  case None
  then show ?thesis using assms by (auto simp: attach_peer_def split: if_splits option.splits)
next
  case (Some n)
  have n: "unat n = Suc (unat (ep_next_link ep))" using checked_add_Some [OF Some] by simp
  have fresh: "\<not> bt_contains (ep_links ep) (ep_next_link ep)" using assms(1) unfolding registry_inv_def by blast
  have less: "bt_contains (ep_links ep) l \<Longrightarrow> unat l < Suc (unat (ep_next_link ep))" for l
    using assms(1) unfolding registry_inv_def by (meson less_SucI)
  show ?thesis
    using assms Some n fresh less
    by (auto simp: attach_peer_def registry_inv_def Let_def put_links_def remove_link_def bt_contains_def split: if_splits option.splits)
qed

section \<open>The handshake\<close>

lemma first_frame_read:
  assumes "frame_encode f = Inr bs" and "buf @ concat chunks = bs @ extra"
  shows "\<exists>buffered j. first_frame (map Rd_Bytes chunks) buf = Some (Inr (f, buffered)) \<and> extra = buffered @ concat (drop j chunks)"
  using assms(2)
proof (induction chunks arbitrary: buf)
  case Nil
  then show ?case using frame_decode_encode [OF assms(1), of extra] by (subst first_frame.simps) (auto intro: exI [of _ 0])
next
  case (Cons c chunks)
  show ?case
  proof (cases "length bs \<le> length buf")
    case True
    with Cons.prems obtain x where x: "buf = bs @ x" "extra = x @ concat (c # chunks)" by (auto simp: append_eq_append_conv2)
    then show ?thesis using frame_decode_encode [OF assms(1), of x] by (subst first_frame.simps) (auto intro: exI [of _ 0])
  next
    case False
    with Cons.prems obtain ys where "bs = buf @ ys" "ys \<noteq> []" by (auto simp: append_eq_append_conv2)
    then have wait: "frame_decode buf = Inr (None, buf)" using frame_decode_prefix assms(1) by blast
    from Cons.IH [of "buf @ c"] Cons.prems obtain buffered j where
      "first_frame (map Rd_Bytes chunks) (buf @ c) = Some (Inr (f, buffered))" "extra = buffered @ concat (drop j chunks)" by auto
    then show ?thesis using wait by (subst first_frame.simps) (auto intro: exI [of _ "Suc j"])
  qed
qed

lemma check_own_hello:
  assumes "\<And>h. dec (enc h) = Inr h"
  shows "check_hello dec (frame_control FT_LinkHello (enc (own_hello peer))) = Inr peer"
  by (simp add: check_hello_def frame_control_def assms own_hello_def node_id_from_bytes_def NODE_ID_LEN_def)

text \<open>
C39: The handshake admits the peer it should and loses nothing. If the protobuf library decodes what it encoded,
then reading the greeting of an allowed peer that is also the expected one, cut into reads in any
way and followed by any further bytes, opens a link under an identifier that was never used before,
reports it up with the identity of that peer, and hands what was read beyond the greeting on to the link.
\<close>

theorem handshake_admits_peer:
  assumes "\<And>h. dec (enc h) = Inr h"
    and "hello_bytes enc (ep_local_node ep) = Inr own" and "hello_bytes enc peer = Inr greeting"
    and "concat chunks = greeting @ extra"
    and "registry_inv ep" and "ep_next_link ep \<noteq> - 1"
    and "bt_contains (ep_allowed_peers ep) peer" and "expected = None \<or> expected = Some peer"
  shows "\<exists>buffered link ep' j. attach_stream enc dec (Inr ()) (map Rd_Bytes chunks) True expected ep =
      Some (Inr (link, buffered), [LE_Up link peer], ep') \<and> extra = buffered @ concat (drop j chunks) \<and>
    registry_inv ep' \<and> \<not> bt_contains (ep_links ep) link \<and> bt_contains (ep_links ep') link \<and>
    unat (ep_next_link ep) \<le> unat link \<and> unat link < unat (ep_next_link ep')"
proof -
  have f: "frame_encode (frame_control FT_LinkHello (enc (own_hello peer))) = Inr greeting"
    using assms(3) by (simp add: hello_bytes_def res_simps)
  obtain buffered j where r: "first_frame (map Rd_Bytes chunks) [] =
      Some (Inr (frame_control FT_LinkHello (enc (own_hello peer)), buffered))" "extra = buffered @ concat (drop j chunks)"
    using first_frame_read [OF f, of "[]" chunks extra] assms(4) by auto
  have x: "exchange_hello enc dec (Inr ()) (map Rd_Bytes chunks) (ep_local_node ep) = Some (Inr (peer, buffered))"
    using assms(2) r(1) check_own_hello [of dec enc, OF assms(1)] by (simp add: exchange_hello_def)
  obtain r events ep' where a: "attach_peer True expected peer ep = (r, events, ep')" by (metis prod_cases3)
  have "\<exists>link. r = Inr link"
    using a checked_add_one [OF assms(6)] assms(7,8) by (auto simp: attach_peer_def Let_def)
  then obtain link where link: "r = Inr link" by blast
  from attach_peer_inv [OF assms(5) a] link have "registry_inv ep'" "link = ep_next_link ep" "\<not> bt_contains (ep_links ep) link"
    "bt_contains (ep_links ep') link" "unat link < unat (ep_next_link ep')" "events = [LE_Up link peer]" by auto
  then show ?thesis using x a link r(2) by (auto simp: attach_stream_def)
qed

definition hello_put :: "link_hello printer" where
  "hello_put = put_via (\<lambda>h. (hello_node_id h, hello_protocol_version h)) (put_pair put_bytes put_word)"

definition hello_get :: "bytes \<Rightarrow> string + link_hello" where
  "hello_get = message_decode (get_via (\<lambda>(n, v). \<lparr>hello_node_id = n, hello_protocol_version = v\<rparr>) (get_pair get_bytes get_word))"

lemma hello_codec: "hello_get (hello_put h) = Inr h"
  unfolding hello_get_def hello_put_def by (rule message_decode_put) (intro reads_intros, simp)

theorem handshake_admits_peer_witness:
  "\<exists>greeting buffered link ep'. hello_bytes hello_put 2 = Inr greeting \<and>
    attach_stream hello_put hello_get (Inr ()) (map Rd_Bytes [greeting, [1, 2]]) True None (endpoint_bind 1 [2]) =
      Some (Inr (link, buffered), [LE_Up link 2], ep')"
proof -
  have "case hello_bytes hello_put 2 of Inl _ \<Rightarrow> False | Inr _ \<Rightarrow> True" "case hello_bytes hello_put 1 of Inl _ \<Rightarrow> False | Inr _ \<Rightarrow> True"
    by code_simp+
  then obtain greeting own where g: "hello_bytes hello_put 2 = Inr greeting" "hello_bytes hello_put 1 = Inr own"
    by (auto split: sum.splits)
  have ep: "ep_local_node (endpoint_bind 1 [2]) = 1" "ep_next_link (endpoint_bind 1 [2]) \<noteq> - 1" "bt_contains (ep_allowed_peers (endpoint_bind 1 [2])) 2"
    by (simp_all add: endpoint_bind_def)
  from handshake_admits_peer [of hello_get hello_put "endpoint_bind 1 [2]" own 2 greeting "[greeting, [1, 2]]" "[1, 2]" None,
      OF hello_codec _ g(1) _ registry_inv_bind ep(2,3)] g ep(1)
  show ?thesis by auto
qed

end
