(* ===== verification/LabProxy.thy ===== *)
theory LabProxy
  imports TransportProps Complex_Main
begin

text \<open>
  Binary \<open>mblab\<close>, the proxy of a link: it forwards the frames of one direction with the delay and the loss that
  the laboratory sets for the link. What the sockets, the clock and the shutdown signal do is an argument.
  A percentage is the rational number that the 64-bit float of the source stands for; the rounding of a
  product of such floats is a parameter.
\<close>

section \<open>Conditions of a link\<close>

record conditions_request =
  cr_latency_ms :: u64
  cr_loss_percent :: rat
  cr_bandwidth_kbps :: u64

definition mix64 :: "u64 \<Rightarrow> u64" where
  "mix64 v =
    (let v = v XOR drop_bit 30 v;
         v = v * 0xbf58476d1ce4e5b9;
         v = v XOR drop_bit 27 v;
         v = v * 0x94d049bb133111eb
     in v XOR drop_bit 31 v)"

text \<open>\<open>f64::round\<close>, which rounds halves away from zero, and the saturating cast \<open>as u64\<close>.\<close>

definition round_u64 :: "rat \<Rightarrow> u64" where
  "round_u64 x = (if x < 0 then 0 else of_nat (min (nat \<lfloor>x + 1 / 2\<rfloor>) (2 ^ 64 - 1)))"

definition loss_limit :: "(rat \<Rightarrow> rat \<Rightarrow> rat) \<Rightarrow> conditions_request \<Rightarrow> u64" where
  "loss_limit f64_mul c = min (round_u64 (f64_mul (cr_loss_percent c) 10000)) 1000000"

definition loss_sample :: "u64 \<Rightarrow> u64 \<Rightarrow> u64" where
  "loss_sample seed sequence = mix64 (seed XOR sequence) mod 1000000"

definition frame_delay :: "conditions_request \<Rightarrow> usize \<Rightarrow> u64" where
  "frame_delay c len =
    (let bits = sat_mul (if len < 2 ^ 64 then of_nat len else - 1) 8;
         rounded = sat_add bits (sat_sub (cr_bandwidth_kbps c) 1);
         serialization_ms = (if cr_bandwidth_kbps c = 0 then 0 else rounded div cr_bandwidth_kbps c)
     in sat_add (cr_latency_ms c) serialization_ms)"

section \<open>One direction\<close>

text \<open>The world of one direction: the conditions in force when the frame with a given number is handled, whether its
  delay passes before a shutdown, and how far its write comes: to the end, or to a prefix before an error or the shutdown.\<close>

record proxy_world =
  px_f64_mul :: "rat \<Rightarrow> rat \<Rightarrow> rat"
  px_seed :: u64
  px_conditions :: "u64 \<Rightarrow> conditions_request"
  px_delay_passes :: "u64 \<Rightarrow> bool"
  px_write_cut :: "u64 \<Rightarrow> usize option"

datatype proxy_effect = Delay u64 | Written bytes

text \<open>One frame: the effects, and whether the direction stays open.\<close>

definition write_frame :: "proxy_world \<Rightarrow> u64 \<Rightarrow> bytes \<Rightarrow> proxy_effect list \<times> bool" where
  "write_frame W sequence encoded = 
    (case px_write_cut W sequence of
       None \<Rightarrow> ([Written encoded], True)
     | Some n \<Rightarrow> ([Written (take n encoded)], False))"

definition proxy_frame :: "proxy_world \<Rightarrow> u64 \<Rightarrow> wire_frame \<Rightarrow> bytes \<Rightarrow> proxy_effect list \<times> bool" where
  "proxy_frame W sequence frame encoded =
    (if wf_type frame = FT_LinkHello then write_frame W sequence encoded
     else
       (let current = px_conditions W sequence;
            delay_ms = frame_delay current (length encoded);
            waited = (if delay_ms > 0 then [Delay delay_ms] else [])
        in if delay_ms > 0 \<and> \<not> px_delay_passes W sequence then ([], False)
           else if loss_sample (px_seed W) sequence < loss_limit (px_f64_mul W) current then (waited, True)
           else (case write_frame W sequence encoded of (effects, alive) \<Rightarrow> (waited @ effects, alive))))"

function proxy_drain :: "proxy_world \<Rightarrow> u64 \<Rightarrow> bytes \<Rightarrow> proxy_effect list \<times> u64 \<times> bytes \<times> bool" where
  "proxy_drain W sequence buffered =
    (case frame_decode buffered of
       Inl _ \<Rightarrow> ([], sequence, buffered, False)
     | Inr (None, buffered) \<Rightarrow> ([], sequence, buffered, True)
     | Inr (Some frame, rest) \<Rightarrow>
         (case frame_encode frame of
            Inl _ \<Rightarrow> ([], sequence, rest, False)
          | Inr encoded \<Rightarrow>
              (case proxy_frame W (sequence + 1) frame encoded of
                 (effects, alive) \<Rightarrow>
                   if \<not> alive then (effects, sequence + 1, rest, False)
                   else (case proxy_drain W (sequence + 1) rest of
                     (later, sequence, buffered, alive) \<Rightarrow> (effects @ later, sequence, buffered, alive)))))"
  by pat_completeness auto
termination
  by (relation "measure (\<lambda>(_, _, buffered). length buffered)") (auto simp: frame_decode_consumes)

declare proxy_drain.simps [simp del]

text \<open>The direction as a whole: after every drain it waits for bytes, the end of the stream or the shutdown.\<close>

datatype proxy_input = PI_Read stream_read | PI_Shutdown

fun forward_frames :: "proxy_world \<Rightarrow> proxy_input list \<Rightarrow> u64 \<Rightarrow> bytes \<Rightarrow> proxy_effect list \<times> u64 \<times> bytes \<times> bool" where
  "forward_frames W inputs sequence buffered =
    (case proxy_drain W sequence buffered of
       (effects, sequence, buffered, alive) \<Rightarrow>
         if \<not> alive then (effects, sequence, buffered, False)
         else (case inputs of
           [] \<Rightarrow> (effects, sequence, buffered, True)
         | PI_Read (Rd_Bytes bs) # inputs \<Rightarrow>
             if bs = [] then (effects, sequence, buffered, False)
             else (case forward_frames W inputs sequence (buffered @ bs) of
               (later, sequence, buffered, alive) \<Rightarrow> (effects @ later, sequence, buffered, alive))
         | _ # _ \<Rightarrow> (effects, sequence, buffered, False)))"

declare forward_frames.simps [simp del]

section \<open>Draining does not depend on fragmentation\<close>

text \<open>What a direction whose delays pass and whose writes complete does with a sequence of frames.\<close>

definition proxy_ok :: "proxy_world \<Rightarrow> bool" where
  "proxy_ok W \<longleftrightarrow> (\<forall>n. px_delay_passes W n \<and> px_write_cut W n = None)"

definition keeps :: "proxy_world \<Rightarrow> u64 \<Rightarrow> wire_frame \<Rightarrow> bool" where
  "keeps W n f \<longleftrightarrow> wf_type f = FT_LinkHello \<or> loss_limit (px_f64_mul W) (px_conditions W n) \<le> loss_sample (px_seed W) n"

fun kept_frames :: "proxy_world \<Rightarrow> u64 \<Rightarrow> wire_frame list \<Rightarrow> wire_frame list" where
  "kept_frames W n [] = []"
| "kept_frames W n (f # fs) = (if keeps W (n + 1) f then [f] else []) @ kept_frames W (n + 1) fs"

definition written :: "proxy_effect list \<Rightarrow> bytes" where
  "written effects = concat (map (\<lambda>e. case e of Written bs \<Rightarrow> bs | Delay _ \<Rightarrow> []) effects)"

lemma written_append [simp]: "written (xs @ ys) = written xs @ written ys"
  by (simp add: written_def)

lemma proxy_frame_ok:
  assumes "proxy_ok W"
  shows "snd (proxy_frame W n f encoded) \<and> written (fst (proxy_frame W n f encoded)) = (if keeps W n f then encoded else [])"
  using assms by (auto simp: proxy_ok_def proxy_frame_def write_frame_def keeps_def written_def Let_def not_less)

lemma proxy_drain_append:
  assumes "proxy_ok W"
  shows "proxy_drain W n b = (effects, n1, r, alive) \<Longrightarrow>
   proxy_drain W n (b @ c) =
     (if alive then (case proxy_drain W n1 (r @ c) of (later, n', r', alive') \<Rightarrow> (effects @ later, n', r', alive'))
      else (effects, n1, r @ c, False))"
proof (induction W n b arbitrary: effects n1 r alive rule: proxy_drain.induct)
  case (1 W n b)
  show ?case
  proof (cases "frame_decode b")
    case (Inl e)
    then show ?thesis using "1.prems" frame_decode_error [OF Inl, of c] by (subst (asm) proxy_drain.simps, subst proxy_drain.simps) auto
  next
    case (Inr res)
    obtain fo rest where res: "res = (fo, rest)" by fastforce
    show ?thesis
    proof (cases fo)
      case None
      then have "frame_decode b = Inr (None, b)" using Inr res frame_decode_waits by auto
      then have "effects = []" "n1 = n" "r = b" "alive" using "1.prems" by (subst (asm) proxy_drain.simps, simp)+
      then show ?thesis by (simp split: prod.split)
    next
      case (Some f)
      then have d: "frame_decode b = Inr (Some f, rest)" using Inr res by simp
      obtain enc where enc: "frame_encode f = Inr enc" using frame_decode_sound [OF d] by blast
      obtain ef op where pf: "proxy_frame W (n + 1) f enc = (ef, op)" by fastforce
      note more = frame_decode_more [OF d, of c]
      show ?thesis
      proof (cases op)
        case False
        then have "proxy_drain W n b = (ef, n + 1, rest, False)" "proxy_drain W n (b @ c) = (ef, n + 1, rest @ c, False)"
          using d more enc pf by (simp_all add: proxy_drain.simps [of W n])
        then show ?thesis using "1.prems" by simp
      next
        case True
        obtain later n' r' op' where tl: "proxy_drain W (n + 1) rest = (later, n', r', op')" by (metis prod_cases4)
        have e: "effects = ef @ later" "n1 = n'" "r = r'" "alive = op'"
          using "1.prems" d enc pf True tl by (simp_all add: proxy_drain.simps [of W n b])
        have "proxy_drain W n (b @ c) = (case proxy_drain W (n + 1) (rest @ c) of
            (later, n', r', op') \<Rightarrow> (ef @ later, n', r', op'))"
          using more enc pf True by (simp add: proxy_drain.simps [of W n "b @ c"])
        moreover note "1.IH" [OF d refl refl enc pf [symmetric]]
        ultimately show ?thesis using tl True by (auto simp: e split: prod.split)
      qed
    qed
  qed
qed

lemma forward_reads:
  assumes ok: "proxy_ok W" and "proxy_drain W n (b @ concat cs) = (effects, n', r, True)" and "\<forall>c \<in> set cs. c \<noteq> []"
  shows "forward_frames W (map (\<lambda>c. PI_Read (Rd_Bytes c)) cs) n b = (effects, n', r, True)"
  using assms(2,3)
proof (induction cs arbitrary: n b effects)
  case Nil
  then show ?case by (simp add: forward_frames.simps)
next
  case (Cons c cs)
  obtain ef0 n0 r0 al0 where d: "proxy_drain W n b = (ef0, n0, r0, al0)" by (metis prod_cases4)
  note app = proxy_drain_append [OF ok d, of "c @ concat cs"]
  from Cons.prems(1) app have al0: al0 by (auto split: if_splits)
  obtain ef1 where ef1: "proxy_drain W n0 (r0 @ c @ concat cs) = (ef1, n', r, True)" "effects = ef0 @ ef1"
    using Cons.prems(1) app al0 by (auto split: prod.splits)
  have "forward_frames W (map (\<lambda>c. PI_Read (Rd_Bytes c)) cs) n0 (r0 @ c) = (ef1, n', r, True)"
    using ef1(1) Cons.prems(2) by (intro Cons.IH) simp_all
  then show ?case using d al0 ef1(2) Cons.prems(2) by (simp add: forward_frames.simps [of W "_ # _"])
qed

lemma proxy_drain_encoded:
  assumes "proxy_ok W" and "list_all2 (\<lambda>f bs. frame_encode f = Inr bs) fs encs"
  shows "\<exists>effects. proxy_drain W n (concat encs) = (effects, n + of_nat (length fs), [], True) \<and>
    (\<exists>kept. list_all2 (\<lambda>f bs. frame_encode f = Inr bs) (kept_frames W n fs) kept \<and> written effects = concat kept)"
  using assms(2)
proof (induction arbitrary: n rule: list_all2_induct)
  case Nil
  have "frame_decode [] = Inr (None, [])" by (simp add: frame_decode_def HEADER_LEN_def)
  then show ?case by (simp add: proxy_drain.simps written_def)
next
  case (Cons f fs bs encs)
  obtain ef al where pf: "proxy_frame W (n + 1) f bs = (ef, al)" by fastforce
  have al: "al" "written ef = (if keeps W (n + 1) f then bs else [])" using proxy_frame_ok [OF assms(1), of "n + 1" f bs] pf by auto
  obtain later kept where ih: "proxy_drain W (n + 1) (concat encs) = (later, n + 1 + of_nat (length fs), [], True)"
      "list_all2 (\<lambda>f bs. frame_encode f = Inr bs) (kept_frames W (n + 1) fs) kept" "written later = concat kept"
    using Cons.IH [of "n + 1"] by blast
  have "proxy_drain W n (concat (bs # encs)) = (ef @ later, n + of_nat (length (f # fs)), [], True)"
    using frame_decode_encode [OF Cons.hyps(1), of "concat encs"] Cons.hyps(1) pf al(1) ih(1)
    by (subst proxy_drain.simps) (simp add: add.assoc)
  moreover have "list_all2 (\<lambda>f bs. frame_encode f = Inr bs) (kept_frames W n (f # fs)) ((if keeps W (n + 1) f then [bs] else []) @ kept)"
    using ih(2) Cons.hyps(1) by simp
  moreover have "written (ef @ later) = concat ((if keeps W (n + 1) f then [bs] else []) @ kept)" using al(2) ih(3) by simp
  ultimately show ?case by blast
qed

lemma list_all2_encodings:
  "list_all2 (\<lambda>f bs. frame_encode f = Inr bs) fs xs \<Longrightarrow> list_all2 (\<lambda>f bs. frame_encode f = Inr bs) fs ys \<Longrightarrow> xs = ys"
  by (induction fs arbitrary: xs ys) (auto simp: list_all2_Cons1)

section \<open>The two ends of the loss\<close>

text \<open>What the source relies on of the product of floats: it is exact where the product is a float itself.\<close>

definition exact_ends :: "(rat \<Rightarrow> rat \<Rightarrow> rat) \<Rightarrow> bool" where
  "exact_ends f64_mul \<longleftrightarrow> f64_mul 0 10000 = 0 \<and> f64_mul 100 10000 = 1000000"

lemma loss_ends:
  assumes "exact_ends f64_mul"
  shows "cr_loss_percent c = 0 \<Longrightarrow> loss_limit f64_mul c = 0" "cr_loss_percent c = 100 \<Longrightarrow> loss_limit f64_mul c = 1000000"
proof -
  have "round_u64 0 = 0" "round_u64 1000000 = 1000000" by code_simp+
  then show "cr_loss_percent c = 0 \<Longrightarrow> loss_limit f64_mul c = 0" "cr_loss_percent c = 100 \<Longrightarrow> loss_limit f64_mul c = 1000000"
    using assms by (simp_all add: exact_ends_def loss_limit_def)
qed

lemma loss_sample_below: "\<not> 1000000 \<le> loss_sample seed n"
  by (simp add: loss_sample_def word_mod_less_divisor not_le)

lemma kept_all:
  assumes "exact_ends (px_f64_mul W)" and "\<forall>n. cr_loss_percent (px_conditions W n) = 0"
  shows "kept_frames W n fs = fs"
  by (induction fs arbitrary: n) (simp_all add: keeps_def loss_ends(1) [OF assms(1)] assms(2))

lemma kept_hellos:
  assumes "exact_ends (px_f64_mul W)" and "\<forall>n. cr_loss_percent (px_conditions W n) = 100"
  shows "kept_frames W n fs = filter (\<lambda>f. wf_type f = FT_LinkHello) fs"
  using loss_sample_below
  by (induction fs arbitrary: n) (simp_all add: keeps_def loss_ends(2) [OF assms(1)] assms(2))

lemma kept_has_hellos: "wf_type f = FT_LinkHello \<Longrightarrow> f \<in> set fs \<Longrightarrow> f \<in> set (kept_frames W n fs)"
  by (induction fs arbitrary: n) (auto simp: keeps_def)

text \<open>
C40: The proxy of a link never tears a frame. However the bytes of whole frames arrive, a direction that is
neither shut down nor cut off writes the unchanged encodings of the frames it keeps, in order, so that the worker at
the other end reports exactly those frames; greetings are always kept, a loss of 0 percent keeps every frame
and a loss of 100 percent nothing but the greetings.
\<close>

theorem proxy_forwards_frames:
  assumes "proxy_ok W" and "list_all2 (\<lambda>f bs. frame_encode f = Inr bs) fs encs"
    and "concat cs = concat encs" and "\<forall>c \<in> set cs. c \<noteq> []"
  shows "\<exists>effects. forward_frames W (map (\<lambda>c. PI_Read (Rd_Bytes c)) cs) 0 [] = (effects, of_nat (length fs), [], True) \<and>
    drain_frames True l (written effects) = (map (LE_Frame l) (kept_frames W 0 fs), [], True) \<and>
    (\<forall>f \<in> set fs. wf_type f = FT_LinkHello \<longrightarrow> f \<in> set (kept_frames W 0 fs)) \<and>
    (exact_ends (px_f64_mul W) \<longrightarrow>
      ((\<forall>n. cr_loss_percent (px_conditions W n) = 0) \<longrightarrow> written effects = concat encs) \<and>
      ((\<forall>n. cr_loss_percent (px_conditions W n) = 100) \<longrightarrow> kept_frames W 0 fs = filter (\<lambda>f. wf_type f = FT_LinkHello) fs))"
proof -
  obtain effects kept where d: "proxy_drain W 0 (concat encs) = (effects, of_nat (length fs), [], True)"
      "list_all2 (\<lambda>f bs. frame_encode f = Inr bs) (kept_frames W 0 fs) kept" "written effects = concat kept"
    using proxy_drain_encoded [OF assms(1,2), of 0] by auto
  have "forward_frames W (map (\<lambda>c. PI_Read (Rd_Bytes c)) cs) 0 [] = (effects, of_nat (length fs), [], True)"
    using forward_reads [OF assms(1) _ assms(4), of 0 "[]"] d(1) assms(3) by simp
  moreover have "drain_frames True l (written effects) = (map (LE_Frame l) (kept_frames W 0 fs), [], True)"
    using drain_frames_encoded [OF d(2), of "[]" l] d(3) by (simp add: frame_decode_def HEADER_LEN_def)
  moreover have "written effects = concat encs" if "exact_ends (px_f64_mul W)" "\<forall>n. cr_loss_percent (px_conditions W n) = 0"
    using list_all2_encodings [OF _ assms(2)] d(2,3) kept_all [OF that] by simp
  ultimately show ?thesis by (intro exI [of _ effects] conjI ballI impI) (simp_all add: kept_has_hellos kept_hellos)
qed

theorem proxy_forwards_frames_witness:
  "\<exists>effects W. forward_frames W (map (\<lambda>c. PI_Read (Rd_Bytes c)) [[24, 0, 0, 0, 0, 0], [0, 2, 65], [66, 17, 0, 0, 0, 0, 0, 0, 1, 7]]) 0 [] = (effects, 2, [], True) \<and>
    drain_frames True 4 (written effects) = ([LE_Frame 4 (frame_control FT_LinkHello [7])], [], True)"
proof -
  let ?W = "\<lparr>px_f64_mul = (*), px_seed = 5, px_conditions = \<lambda>_. \<lparr>cr_latency_ms = 3, cr_loss_percent = 100, cr_bandwidth_kbps = 64\<rparr>,
    px_delay_passes = \<lambda>_. True, px_write_cut = \<lambda>_. None\<rparr>"
  have "frame_encode (frame_control FT_Ping [65, 66]) = Inr [24, 0, 0, 0, 0, 0, 0, 2, 65, 66]"
    "frame_encode (frame_control FT_LinkHello [7]) = Inr [17, 0, 0, 0, 0, 0, 0, 1, 7]" by code_simp+
  then have "list_all2 (\<lambda>f bs. frame_encode f = Inr bs) [frame_control FT_Ping [65, 66], frame_control FT_LinkHello [7]]
      [[24, 0, 0, 0, 0, 0, 0, 2, 65, 66], [17, 0, 0, 0, 0, 0, 0, 1, 7]]" by simp
  from proxy_forwards_frames [OF _ this, of ?W "[[24, 0, 0, 0, 0, 0], [0, 2, 65], [66, 17, 0, 0, 0, 0, 0, 0, 1, 7]]" 4]
  obtain effects where "forward_frames ?W (map (\<lambda>c. PI_Read (Rd_Bytes c)) [[24, 0, 0, 0, 0, 0], [0, 2, 65], [66, 17, 0, 0, 0, 0, 0, 0, 1, 7]]) 0 [] = (effects, 2, [], True)"
    "drain_frames True 4 (written effects) = ([LE_Frame 4 (frame_control FT_LinkHello [7])], [], True)"
    by (auto simp: proxy_ok_def exact_ends_def frame_control_def)
  then show ?thesis by blast
qed

end
