(* ===== verification/Spec2Isabelle.thy ===== *)
theory Spec2Isabelle
  imports NodeApi ControlSync ForwardClaims LabProxy
begin

text \<open>
  A verification development of the mesh network in \<open>src/\<close>: Rust crates that flood link states, compute routes, forward
  packets with priorities and credit, and deliver topics, a driver that joins them over TCP links, and two
  binaries that run nodes.

  \<^bold>\<open>How the program is built.\<close> Three state machines do no input or output of their own: the control plane
  (\<open>crates/mb-control\<close>), the forwarder (\<open>crates/mb-forward\<close>) and the publish/subscribe core
  (\<open>crates/mb-pubsub\<close>). Each takes an event and the time and returns actions (the trait \<open>Component\<close> of
  \<open>crates/mb-types\<close>). The driver (\<open>crates/mb-runtime\<close>) takes link events, requests and due timers one at a
  time, hands them to the machines and carries out the actions: it sends frames (\<open>crates/mb-wire\<close>) over links
  (\<open>crates/mb-transport\<close>), arms timers and persists sequence numbers. \<open>bins/mblab-node\<close> puts a driver behind
  an HTTP interface; \<open>bins/mblab\<close> runs many of these processes and joins them by proxies that
  delay and lose frames.

  \<^bold>\<open>How it is modelled.\<close> A struct is a \<open>record\<close>, an enum a \<open>datatype\<close>, an integer a word of its width, \<open>usize\<close> a
  natural number; a node identity is a 256-bit word, since the code compares the bytes in big-endian order. A method that
  changes \<open>self\<close> returns the new state. An \<open>Err\<close> is the left summand over the error type of the function, and a panic
  (\<open>expect\<close>, indexing, checked overflow, assertions) is the left summand of \<open>res\<close>, so that \<open>no panic\<close> is a
  theorem and not a convention. Definitions keep the names of the source.

  \<^item> \<open>Prelude\<close>, \<open>Btree\<close>, \<open>Types\<close>, \<open>Heap\<close>, \<open>Codec\<close>: machine arithmetic, sequencing of computations that fail,
    \<open>BTreeMap\<close> and \<open>BTreeSet\<close> as strictly sorted lists (locale \<open>ordered_map\<close>), \<open>BinaryHeap\<close> (locale \<open>min_queue\<close>), the
    identities and the contract of a state machine (locale \<open>component\<close>: every admissible event returns and keeps the
    invariant), and a reference codec that has the property assumed of protobuf.
  \<^item> \<open>Wire\<close>: \<open>crates/mb-wire/src/lib.rs\<close>. Frames with the incremental \<open>FrameDecoder\<close>, forwarded packets, multicast
    payloads. Round trips under any fragmentation, canonicity, bounded waiting.
  \<^item> \<open>ControlTypes\<close>, \<open>Spf\<close>, \<open>Control\<close>: \<open>crates/mb-control/src/lib.rs\<close>, the whole event handler and the shortest-path
    loop. \<open>Spf\<close> proves that the loop ends, that routes exist exactly for reachable nodes, are of least cost and
    do not loop. \<open>ControlProps\<close> refines the handler to an abstract database machine and reads
    off boundedness, monotonicity, expiry and flooding; \<open>ControlSync\<close> proves that one round of digests brings a
    neighbour up to date and that routes follow the database; \<open>ControlTimers\<close> says which timers the state relies on.
  \<^item> \<open>Forward\<close>: \<open>crates/mb-forward/src/lib.rs\<close>, queues, conflation, credit, deficit round robin, parked P0 batches.
    \<open>ForwardInv\<close>, \<open>ForwardStep\<close>, \<open>ForwardProps\<close>: an invariant and an account of every packet, kept by each operation;
    \<open>ForwardClaims\<close>, \<open>ForwardDelivery\<close>: conservation, flow control, bounded waiting, the order of service, local delivery.
  \<^item> \<open>PubSub\<close>, \<open>PubSubProps\<close>, \<open>PubSubClaims\<close>: \<open>crates/mb-pubsub/src/lib.rs\<close>. The 64-bit receive window is equivalent to
    the set of accepted numbers, deliveries happen at most once, publications reach exactly the discovered subscribers.
  \<^item> \<open>Transport\<close>, \<open>TransportProps\<close>: \<open>crates/mb-transport/src/lib.rs\<close>. The handshake, the registry of links, and the worker
    of a link, which behaves like a queue of frames.
  \<^item> \<open>RuntimeCodec\<close>, \<open>RuntimeCodecProps\<close>, \<open>Discovery\<close>, \<open>SeqStore\<close>, \<open>Diagnostics\<close>, \<open>ErrorText\<close>, \<open>Runtime\<close>:
    \<open>crates/mb-runtime/src/lib.rs\<close>. Control frames from and to the messages of \<open>proto/control.proto\<close>, the discovery
    index, the two sequence stores (locale \<open>seq_store\<close>; the file store runs over a file system in which every
    call may fail), the event log, the \<open>Display\<close> texts, and one turn of the loop for every input.
    \<open>RuntimeInv\<close>, \<open>RuntimeProps\<close>, \<open>RuntimeClaims\<close>: the composed node never panics, persists a sequence number before
    it uses it, and has every deadline of its components in the timer queue.
  \<^item> \<open>NodeApi\<close>: \<open>bins/mblab-node/src/main.rs\<close>, arguments, start and every request handler. The process is a \<open>component\<close>.
  \<^item> \<open>LabProxy\<close>: \<open>bins/mblab/src/main.rs\<close>, \<open>forward_frames\<close>: the proxy of a link never tears a frame.

  \<^bold>\<open>Parameters and their hypotheses.\<close> Code that is not under \<open>src/\<close> is an argument. The functions that prost derives
  encode and decode messages; properties that need them assume that decoding inverts encoding (locale
  \<open>prost_codec\<close>), and their witnesses use the codec of \<open>Codec\<close>. An LSA is authenticated by a trait with laws (locale
  \<open>lsa_auth\<close>). Sockets, the clock, child processes and the HTTP client appear as what they answer. The product of two
  floats is an argument of the proxy, assumed exact where the exact product is a float.

  \<^bold>\<open>Loops and bounds.\<close> Every recursion has a termination proof, the shortest-path loop and the scheduler of a
  link included (a pending label gets strictly better; deficits grow until the head of a queue fits). One loop carries fuel: the
  search for a free generation of a parked P0 batch, with one step more than there are batches, which is enough because
  successive generations differ. Counters keep their width; where wrap-around or exhaustion matters (LSA sequence
  numbers, generations, link numbers) it is a hypothesis of the theorem or an error of the model.

  \<^bold>\<open>Not modelled.\<close> tokio's scheduler, the sockets and the joining of tasks in \<open>mb-transport\<close> and in the driver: an
  \<open>await\<close> is its effect once it completes, so blocking on a full channel is not visible. axum, JSON and
  the web page: requests arrive parsed and answers leave as values. Child processes, the request handlers and the state view
  of \<open>mblab\<close>. The build script only calls the protobuf generator. Tests are not implementation.
\<close>

end
